(* ===== verification/Prelude.thy ===== *)
theory Prelude
  imports Main "HOL-Library.Word" "HOL-Library.Monad_Syntax"
begin

text \<open>
  Shared vocabulary of the development: the machine integers of the program, the option monad in
  which operations that can leave the defined behaviour of C are written, and the generic lemmas on
  lists, options and words that the component theories rely on.

  Conventions used in every theory.
  \<^item> A C function that can fail an \<^verbatim>\<open>assert\<close>, call \<^verbatim>\<open>abort ()\<close> or follow a wild pointer returns an
    \<^typ>\<open>'a option\<close>; \<^term>\<open>None\<close> is such a stop. A reported error is an ordinary return
    value (the C return code), never \<^term>\<open>None\<close>.
  \<^item> A function that changes an object returns the changed object beside its result.
  \<^item> \<^verbatim>\<open>uint8_t\<close> to \<^verbatim>\<open>uint64_t\<close>, \<^verbatim>\<open>GElf_Addr\<close>, \<^verbatim>\<open>GElf_Xword\<close>, \<^verbatim>\<open>size_t\<close> are words of their width, so
    additions wrap as they do in C; the host is taken to be an LP64 machine.
\<close>

unbundle bit_operations_syntax

type_synonym u8 = "8 word"
type_synonym u16 = "16 word"
type_synonym u32 = "32 word"
type_synonym u64 = "64 word"

named_theorems opt_simps \<open>unfolding of the option monad and of bounds-checked accesses\<close>

section \<open>The option monad\<close>

lemma bind_eq_Some [opt_simps]:
  "(m \<bind> f = Some y) \<longleftrightarrow> (\<exists>x. m = Some x \<and> f x = Some y)"
  by (cases m) auto

lemma bind_Some_map: "m \<bind> (\<lambda>x. Some (f x)) = map_option f m"
  by (cases m) auto

definition guard_opt :: "bool \<Rightarrow> unit option" where
  "guard_opt b = (if b then Some () else None)"

lemma guard_opt_eq_Some [simp]: "guard_opt b = Some u \<longleftrightarrow> b"
  by (simp add: guard_opt_def)

lemma guard_opt_True [simp]: "guard_opt True = Some ()"
  by (simp add: guard_opt_def)

section \<open>Bounds-checked array access\<close>

definition nth_opt :: "'a list \<Rightarrow> nat \<Rightarrow> 'a option" where
  "nth_opt xs i = (if i < length xs then Some (xs ! i) else None)"

lemma nth_opt_eq_Some [opt_simps]:
  "nth_opt xs i = Some x \<longleftrightarrow> i < length xs \<and> xs ! i = x"
  by (auto simp: nth_opt_def)

lemma nth_opt_in [simp]: "i < length xs \<Longrightarrow> nth_opt xs i = Some (xs ! i)"
  by (simp add: nth_opt_def)

lemma nth_opt_update [simp]:
  "nth_opt (xs[i := x]) j = (if i = j \<and> j < length xs then Some x else nth_opt xs j)"
  by (auto simp: nth_opt_def)

lemma map_list_update_same: "f x = f (xs ! i) \<Longrightarrow> map f (xs[i := x]) = map f xs"
  by (metis list_update_beyond list_update_id map_update not_less)

section \<open>Overwriting a stretch of a list\<close>

definition overwrite :: "nat \<Rightarrow> 'a list \<Rightarrow> 'a list \<Rightarrow> 'a list" where
  "overwrite i ys xs = take i xs @ ys @ drop (i + length ys) xs"

lemma length_overwrite [simp]:
  "i + length ys \<le> length xs \<Longrightarrow> length (overwrite i ys xs) = length xs"
  by (simp add: overwrite_def)

lemma drop_overwrite:
  "i \<le> length xs \<Longrightarrow> drop i (overwrite i ys xs) = ys @ drop (i + length ys) xs"
  by (simp add: overwrite_def)

lemma nth_overwrite:
  assumes "i + length ys \<le> length xs" and "j < length xs"
  shows "overwrite i ys xs ! j = (if i \<le> j \<and> j < i + length ys then ys ! (j - i) else xs ! j)"
  using assms by (auto simp: overwrite_def nth_append)

lemma overwrite_same:
  assumes "i + n \<le> length xs"
  shows "overwrite i (take n (drop i xs)) xs = xs"
  using assms by (intro nth_equalityI) (auto simp: nth_overwrite)

lemma take_drop_cong:
  assumes "length xs = length ys"
    and "\<And>i. k \<le> i \<Longrightarrow> i < k + m \<Longrightarrow> i < length ys \<Longrightarrow> xs ! i = ys ! i"
  shows "take m (drop k xs) = take m (drop k ys)"
  using assms by (intro nth_equalityI) auto

section \<open>Words and their bytes\<close>

lemma ucast_ucast_u8:
  "8 \<le> LENGTH('a::len) \<Longrightarrow> ucast (ucast (v :: 'a word) :: u8) = take_bit 8 v"
  by (rule bit_word_eqI) (auto simp: bit_simps)

lemma take_bit_step:
  "take_bit n v OR push_bit n (take_bit 8 (drop_bit n v)) = take_bit (n + 8) (v :: 'a::len word)"
proof (rule bit_word_eqI)
  fix i
  assume "i < LENGTH('a)"
  then show "bit (take_bit n v OR push_bit n (take_bit 8 (drop_bit n v))) i
      = bit (take_bit (n + 8) v) i"
    by (cases "i < n") (auto simp: bit_simps)
qed

lemmas take_bit_steps =
  take_bit_step [of 8, simplified] take_bit_step [of 16, simplified]
  take_bit_step [of 24, simplified] take_bit_step [of 32, simplified]
  take_bit_step [of 40, simplified] take_bit_step [of 48, simplified]
  take_bit_step [of 56, simplified]

lemma word_of_bytes2:
  "ucast (ucast v :: u8) OR push_bit 8 (ucast (ucast (drop_bit 8 v) :: u8)) = (v :: u16)"
  by (simp add: ucast_ucast_u8 take_bit_steps take_bit_word_eq_self)

lemma word_of_bytes4:
  "ucast (ucast v :: u8) OR push_bit 8 (ucast (ucast (drop_bit 8 v) :: u8))
   OR push_bit 16 (ucast (ucast (drop_bit 16 v) :: u8))
   OR push_bit 24 (ucast (ucast (drop_bit 24 v) :: u8)) = (v :: u32)"
  by (simp add: ucast_ucast_u8 take_bit_steps take_bit_word_eq_self flip: or.assoc)

lemma word_of_bytes8:
  "ucast (ucast v :: u8) OR push_bit 8 (ucast (ucast (drop_bit 8 v) :: u8))
   OR push_bit 16 (ucast (ucast (drop_bit 16 v) :: u8))
   OR push_bit 24 (ucast (ucast (drop_bit 24 v) :: u8))
   OR push_bit 32 (ucast (ucast (drop_bit 32 v) :: u8))
   OR push_bit 40 (ucast (ucast (drop_bit 40 v) :: u8))
   OR push_bit 48 (ucast (ucast (drop_bit 48 v) :: u8))
   OR push_bit 56 (ucast (ucast (drop_bit 56 v) :: u8)) = (v :: u64)"
  by (simp add: ucast_ucast_u8 take_bit_steps take_bit_word_eq_self flip: or.assoc)

end
