(* ===== verification/DataBuf.thy ===== *)
theory DataBuf
  imports Prelude
begin

text \<open>
  The byte-buffer accessors of \<^verbatim>\<open>src/data.c\<close>: \<^verbatim>\<open>buf_read_u*\<close> and \<^verbatim>\<open>buf_write_*\<close>.
  A buffer is the list of bytes from the pointer to the end of the allocated block; reading or
  writing past that end is a wild access (\<^term>\<open>None\<close>). The lemmas show that in each width and
  byte order a write is read back, that writing back what was read changes nothing, and that a
  write touches only the first bytes of the buffer; they are stated once as the contract
  \<open>buf_codec\<close> and every width and order is an interpretation of it.
\<close>

section \<open>Reads\<close>

definition buf_read_u8 :: "u8 list \<Rightarrow> u8 option" where
  "buf_read_u8 data = (if length data < 1 then None else Some (data ! 0))"

definition buf_read_ule16 :: "u8 list \<Rightarrow> u16 option" where
  "buf_read_ule16 data = (if length data < 2 then None else
     Some (ucast (data ! 0) OR push_bit 8 (ucast (data ! 1))))"

definition buf_read_ube16 :: "u8 list \<Rightarrow> u16 option" where
  "buf_read_ube16 data = (if length data < 2 then None else
     Some (ucast (data ! 1) OR push_bit 8 (ucast (data ! 0))))"

definition buf_read_ule32 :: "u8 list \<Rightarrow> u32 option" where
  "buf_read_ule32 data = (if length data < 4 then None else
     Some (ucast (data ! 0) OR push_bit 8 (ucast (data ! 1))
           OR push_bit 16 (ucast (data ! 2)) OR push_bit 24 (ucast (data ! 3))))"

definition buf_read_ube32 :: "u8 list \<Rightarrow> u32 option" where
  "buf_read_ube32 data = (if length data < 4 then None else
     Some (ucast (data ! 3) OR push_bit 8 (ucast (data ! 2))
           OR push_bit 16 (ucast (data ! 1)) OR push_bit 24 (ucast (data ! 0))))"

definition buf_read_ule64 :: "u8 list \<Rightarrow> u64 option" where
  "buf_read_ule64 data = (if length data < 8 then None else
     Some (ucast (data ! 0) OR push_bit 8 (ucast (data ! 1)) OR push_bit 16 (ucast (data ! 2))
           OR push_bit 24 (ucast (data ! 3)) OR push_bit 32 (ucast (data ! 4))
           OR push_bit 40 (ucast (data ! 5)) OR push_bit 48 (ucast (data ! 6))
           OR push_bit 56 (ucast (data ! 7))))"

definition buf_read_ube64 :: "u8 list \<Rightarrow> u64 option" where
  "buf_read_ube64 data = (if length data < 8 then None else
     Some (ucast (data ! 7) OR push_bit 8 (ucast (data ! 6)) OR push_bit 16 (ucast (data ! 5))
           OR push_bit 24 (ucast (data ! 4)) OR push_bit 32 (ucast (data ! 3))
           OR push_bit 40 (ucast (data ! 2)) OR push_bit 48 (ucast (data ! 1))
           OR push_bit 56 (ucast (data ! 0))))"

section \<open>Writes\<close>

definition buf_write_8 :: "u8 list \<Rightarrow> u8 \<Rightarrow> u8 list option" where
  "buf_write_8 data val = (if length data < 1 then None else Some (data[0 := val]))"

definition buf_write_le16 :: "u8 list \<Rightarrow> u16 \<Rightarrow> u8 list option" where
  "buf_write_le16 data val = (if length data < 2 then None else
     Some (data[0 := ucast val, 1 := ucast (drop_bit 8 val)]))"

definition buf_write_be16 :: "u8 list \<Rightarrow> u16 \<Rightarrow> u8 list option" where
  "buf_write_be16 data val = (if length data < 2 then None else
     Some (data[1 := ucast val, 0 := ucast (drop_bit 8 val)]))"

definition buf_write_le32 :: "u8 list \<Rightarrow> u32 \<Rightarrow> u8 list option" where
  "buf_write_le32 data val = (if length data < 4 then None else
     Some (data[0 := ucast val, 1 := ucast (drop_bit 8 val),
                2 := ucast (drop_bit 16 val), 3 := ucast (drop_bit 24 val)]))"

definition buf_write_be32 :: "u8 list \<Rightarrow> u32 \<Rightarrow> u8 list option" where
  "buf_write_be32 data val = (if length data < 4 then None else
     Some (data[3 := ucast val, 2 := ucast (drop_bit 8 val),
                1 := ucast (drop_bit 16 val), 0 := ucast (drop_bit 24 val)]))"

definition buf_write_le64 :: "u8 list \<Rightarrow> u64 \<Rightarrow> u8 list option" where
  "buf_write_le64 data val = (if length data < 8 then None else
     Some (data[0 := ucast val, 1 := ucast (drop_bit 8 val),
                2 := ucast (drop_bit 16 val), 3 := ucast (drop_bit 24 val),
                4 := ucast (drop_bit 32 val), 5 := ucast (drop_bit 40 val),
                6 := ucast (drop_bit 48 val), 7 := ucast (drop_bit 56 val)]))"

definition buf_write_be64 :: "u8 list \<Rightarrow> u64 \<Rightarrow> u8 list option" where
  "buf_write_be64 data val = (if length data < 8 then None else
     Some (data[7 := ucast val, 6 := ucast (drop_bit 8 val),
                5 := ucast (drop_bit 16 val), 4 := ucast (drop_bit 24 val),
                3 := ucast (drop_bit 32 val), 2 := ucast (drop_bit 40 val),
                1 := ucast (drop_bit 48 val), 0 := ucast (drop_bit 56 val)]))"

lemmas buf_read_defs =
  buf_read_u8_def buf_read_ule16_def buf_read_ube16_def buf_read_ule32_def buf_read_ube32_def
  buf_read_ule64_def buf_read_ube64_def

lemmas buf_write_defs =
  buf_write_8_def buf_write_le16_def buf_write_be16_def buf_write_le32_def buf_write_be32_def
  buf_write_le64_def buf_write_be64_def

section \<open>The contract of a reader and a writer of one width\<close>

text \<open>
  What the rest of the program relies on of such a pair, relative to the encoding \<open>enc\<close> of a value
  as \<open>n\<close> bytes: both need \<open>n\<close> bytes, the reader returns the value whose encoding stands at the
  front of the buffer, the writer puts the encoding there and keeps the rest.
\<close>

locale buf_codec =
  fixes n :: nat
    and enc :: "'w \<Rightarrow> u8 list"
    and rd :: "u8 list \<Rightarrow> 'w option"
    and wr :: "u8 list \<Rightarrow> 'w \<Rightarrow> u8 list option"
  assumes enc_length: "length (enc v) = n"
    and rd_defined: "rd data \<noteq> None \<longleftrightarrow> n \<le> length data"
    and rd_enc: "rd (enc v @ rest) = Some v"
    and enc_rd: "rd data = Some v \<Longrightarrow> take n data = enc v"
    and wr_enc: "wr data v = (if n \<le> length data then Some (enc v @ drop n data) else None)"
begin

lemma wr_rd: "wr data v = Some data' \<Longrightarrow> rd data' = Some v"
  by (auto simp: wr_enc rd_enc split: if_splits)

lemma wr_shape:
  "wr data v = Some data' \<Longrightarrow> length data' = length data \<and> drop n data' = drop n data"
  by (auto simp: wr_enc enc_length split: if_splits)

lemma rd_wr:
  assumes "rd data = Some v"
  shows "wr data v = Some data"
proof -
  have "n \<le> length data" using assms rd_defined [of data] by simp
  then show ?thesis
    using enc_rd [OF assms] by (metis append_take_drop_id wr_enc)
qed

lemma wr_wr: "wr data v = Some data' \<Longrightarrow> wr data' v' = wr data v'"
  by (auto simp: wr_enc enc_length split: if_splits)

lemma wr_total: "n \<le> length data \<Longrightarrow> \<exists>data'. wr data v = Some data'"
  by (simp add: wr_enc)

lemma wr_overwrite: "n \<le> length data \<Longrightarrow> wr data v = Some (overwrite 0 (enc v) data)"
  by (simp add: wr_enc overwrite_def enc_length)

lemma rd_take: "n \<le> k \<Longrightarrow> k \<le> length data \<Longrightarrow> rd (take k data) = rd data"
proof -
  assume k: "n \<le> k" "k \<le> length data"
  then obtain v where v: "rd data = Some v" using rd_defined [of data] by auto
  have "take k data = enc v @ drop n (take k data)"
    using enc_rd [OF v] k by (metis append_take_drop_id min.absorb1 take_take)
  then show ?thesis using v rd_enc by metis
qed

lemma enc_inj: "enc v = enc v' \<Longrightarrow> v = v'"
  using rd_enc [of v "[]"] rd_enc [of v' "[]"] by simp

end

section \<open>The seven encodings\<close>

definition u8_bytes :: "u8 \<Rightarrow> u8 list" where
  "u8_bytes v = [v]"

definition le16_bytes :: "u16 \<Rightarrow> u8 list" where
  "le16_bytes v = [ucast v, ucast (drop_bit 8 v)]"

definition le32_bytes :: "u32 \<Rightarrow> u8 list" where
  "le32_bytes v = [ucast v, ucast (drop_bit 8 v), ucast (drop_bit 16 v), ucast (drop_bit 24 v)]"

definition le64_bytes :: "u64 \<Rightarrow> u8 list" where
  "le64_bytes v = [ucast v, ucast (drop_bit 8 v), ucast (drop_bit 16 v), ucast (drop_bit 24 v),
     ucast (drop_bit 32 v), ucast (drop_bit 40 v), ucast (drop_bit 48 v), ucast (drop_bit 56 v)]"

lemmas bytes_defs = u8_bytes_def le16_bytes_def le32_bytes_def le64_bytes_def

text \<open>The first bytes of a long enough buffer, and an update of all of them.\<close>

lemma take2: "2 \<le> length xs \<Longrightarrow> take 2 xs = [xs ! 0, xs ! 1]"
  by (auto simp: eval_nat_numeral Suc_le_length_iff)

lemma take4: "4 \<le> length xs \<Longrightarrow> take 4 xs = [xs ! 0, xs ! 1, xs ! 2, xs ! 3]"
  by (auto simp: eval_nat_numeral Suc_le_length_iff)

lemma take8:
  "8 \<le> length xs \<Longrightarrow>
   take 8 xs = [xs ! 0, xs ! 1, xs ! 2, xs ! 3, xs ! 4, xs ! 5, xs ! 6, xs ! 7]"
  by (auto simp: eval_nat_numeral Suc_le_length_iff)

lemma update2: "2 \<le> length xs \<Longrightarrow> xs[0 := a, 1 := b] = a # b # drop 2 xs"
  by (auto simp: eval_nat_numeral Suc_le_length_iff)

lemma update4:
  "4 \<le> length xs \<Longrightarrow> xs[0 := a, 1 := b, 2 := c, 3 := d] = a # b # c # d # drop 4 xs"
  by (auto simp: eval_nat_numeral Suc_le_length_iff)

lemma update8:
  "8 \<le> length xs \<Longrightarrow> xs[0 := a, 1 := b, 2 := c, 3 := d, 4 := e, 5 := f, 6 := g, 7 := h]
     = a # b # c # d # e # f # g # h # drop 8 xs"
  by (auto simp: eval_nat_numeral Suc_le_length_iff)

lemma update2_rev: "2 \<le> length xs \<Longrightarrow> xs[1 := b, 0 := a] = a # b # drop 2 xs"
  by (auto simp: eval_nat_numeral Suc_le_length_iff)

lemma update4_rev:
  "4 \<le> length xs \<Longrightarrow> xs[3 := d, 2 := c, 1 := b, 0 := a] = a # b # c # d # drop 4 xs"
  by (auto simp: eval_nat_numeral Suc_le_length_iff)

lemma update8_rev:
  "8 \<le> length xs \<Longrightarrow> xs[7 := h, 6 := g, 5 := f, 4 := e, 3 := d, 2 := c, 1 := b, 0 := a]
     = a # b # c # d # e # f # g # h # drop 8 xs"
  by (auto simp: eval_nat_numeral Suc_le_length_iff)

text \<open>The bytes of a word put together from bytes are those bytes.\<close>

lemma le16_bytes_of:
  "le16_bytes (ucast b0 OR push_bit 8 (ucast b1)) = [b0, b1]"
  unfolding le16_bytes_def
  by (simp; intro conjI; (rule bit_word_eqI); auto simp: bit_simps dest: bit_imp_le_length)

lemma le32_bytes_of:
  "le32_bytes (ucast b0 OR push_bit 8 (ucast b1) OR push_bit 16 (ucast b2)
     OR push_bit 24 (ucast b3)) = [b0, b1, b2, b3]"
  unfolding le32_bytes_def
  by (simp; intro conjI; (rule bit_word_eqI); auto simp: bit_simps dest: bit_imp_le_length)

lemma le64_bytes_of:
  "le64_bytes (ucast b0 OR push_bit 8 (ucast b1) OR push_bit 16 (ucast b2)
     OR push_bit 24 (ucast b3) OR push_bit 32 (ucast b4) OR push_bit 40 (ucast b5)
     OR push_bit 48 (ucast b6) OR push_bit 56 (ucast b7)) = [b0, b1, b2, b3, b4, b5, b6, b7]"
  unfolding le64_bytes_def
  by (simp; intro conjI; (rule bit_word_eqI); auto simp: bit_simps dest: bit_imp_le_length)

text \<open>Each reader and writer pair of \<^verbatim>\<open>data.c\<close> is a codec; the big-endian encodings are the
  little-endian ones reversed.\<close>

lemmas rev_bytes2 = le16_bytes_of [THEN arg_cong [where f = rev], simplified]
lemmas rev_bytes4 = le32_bytes_of [THEN arg_cong [where f = rev], simplified]
lemmas rev_bytes8 = le64_bytes_of [THEN arg_cong [where f = rev], simplified]

lemmas bytes_of = le16_bytes_of le32_bytes_of le64_bytes_of rev_bytes2 rev_bytes4 rev_bytes8
lemmas word_of = word_of_bytes2 word_of_bytes4 word_of_bytes8

lemma length_bytes [simp]:
  "length (le16_bytes v2) = 2" "length (le32_bytes v4) = 4" "length (le64_bytes v8) = 8"
  by (simp_all add: bytes_defs)

lemma buf_read_bytes:
  "buf_read_ule16 (le16_bytes v2 @ rest) = Some v2"
  "buf_read_ube16 (rev (le16_bytes v2) @ rest) = Some v2"
  "buf_read_ule32 (le32_bytes v4 @ rest) = Some v4"
  "buf_read_ube32 (rev (le32_bytes v4) @ rest) = Some v4"
  "buf_read_ule64 (le64_bytes v8 @ rest) = Some v8"
  "buf_read_ube64 (rev (le64_bytes v8) @ rest) = Some v8"
  by (simp_all add: buf_read_defs bytes_defs word_of)

lemma bytes_of_buf_read:
  "buf_read_ule16 data = Some v2 \<Longrightarrow> take 2 data = le16_bytes v2"
  "buf_read_ube16 data = Some v2 \<Longrightarrow> take 2 data = rev (le16_bytes v2)"
  "buf_read_ule32 data = Some v4 \<Longrightarrow> take 4 data = le32_bytes v4"
  "buf_read_ube32 data = Some v4 \<Longrightarrow> take 4 data = rev (le32_bytes v4)"
  "buf_read_ule64 data = Some v8 \<Longrightarrow> take 8 data = le64_bytes v8"
  "buf_read_ube64 data = Some v8 \<Longrightarrow> take 8 data = rev (le64_bytes v8)"
  by (auto simp: buf_read_defs take2 take4 take8 bytes_of split: if_splits)

lemma buf_write_bytes16:
  "buf_write_le16 data v = (if 2 \<le> length data then Some (le16_bytes v @ drop 2 data) else None)"
  "buf_write_be16 data v =
     (if 2 \<le> length data then Some (rev (le16_bytes v) @ drop 2 data) else None)"
  by (auto simp: buf_write_defs bytes_defs update2 [simplified] update2_rev [simplified])

lemma buf_write_bytes32:
  "buf_write_le32 data v = (if 4 \<le> length data then Some (le32_bytes v @ drop 4 data) else None)"
  "buf_write_be32 data v =
     (if 4 \<le> length data then Some (rev (le32_bytes v) @ drop 4 data) else None)"
  by (auto simp: buf_write_defs bytes_defs update4 [simplified] update4_rev [simplified])

lemma buf_write_bytes64:
  "buf_write_le64 data v = (if 8 \<le> length data then Some (le64_bytes v @ drop 8 data) else None)"
  "buf_write_be64 data v =
     (if 8 \<le> length data then Some (rev (le64_bytes v) @ drop 8 data) else None)"
  by (auto simp: buf_write_defs bytes_defs update8 [simplified] update8_rev [simplified])

lemmas buf_write_bytes = buf_write_bytes16 buf_write_bytes32 buf_write_bytes64

lemma buf_read_defined:
  "buf_read_ule16 data \<noteq> None \<longleftrightarrow> 2 \<le> length data" "buf_read_ube16 data \<noteq> None \<longleftrightarrow> 2 \<le> length data"
  "buf_read_ule32 data \<noteq> None \<longleftrightarrow> 4 \<le> length data" "buf_read_ube32 data \<noteq> None \<longleftrightarrow> 4 \<le> length data"
  "buf_read_ule64 data \<noteq> None \<longleftrightarrow> 8 \<le> length data" "buf_read_ube64 data \<noteq> None \<longleftrightarrow> 8 \<le> length data"
  by (auto simp: buf_read_defs)

lemmas codec_facts = buf_read_bytes bytes_of_buf_read buf_write_bytes buf_read_defined

interpretation b8: buf_codec 1 u8_bytes buf_read_u8 buf_write_8
  by unfold_locales
    (auto simp: buf_read_u8_def buf_write_8_def u8_bytes_def neq_Nil_conv split: if_splits)

interpretation le16: buf_codec 2 le16_bytes buf_read_ule16 buf_write_le16
  by unfold_locales (simp_all only: codec_facts length_bytes length_rev)

interpretation be16: buf_codec 2 "\<lambda>v. rev (le16_bytes v)" buf_read_ube16 buf_write_be16
  by unfold_locales (simp_all only: codec_facts length_bytes length_rev)

interpretation le32: buf_codec 4 le32_bytes buf_read_ule32 buf_write_le32
  by unfold_locales (simp_all only: codec_facts length_bytes length_rev)

interpretation be32: buf_codec 4 "\<lambda>v. rev (le32_bytes v)" buf_read_ube32 buf_write_be32
  by unfold_locales (simp_all only: codec_facts length_bytes length_rev)

interpretation le64: buf_codec 8 le64_bytes buf_read_ule64 buf_write_le64
  by unfold_locales (simp_all only: codec_facts length_bytes length_rev)

interpretation be64: buf_codec 8 "\<lambda>v. rev (le64_bytes v)" buf_read_ube64 buf_write_be64
  by unfold_locales (simp_all only: codec_facts length_bytes length_rev)

end
