(* ===== verification/ElfData.thy ===== *)
theory ElfData
  imports DataBuf
begin

text \<open>
  The object under work and the access to its memory image: the ELF structures of
  \<^verbatim>\<open>src/prelink.h\<close> (section and program headers, the \<^verbatim>\<open>DSO\<close> structure), \<^verbatim>\<open>addr_to_sec\<close> of
  \<^verbatim>\<open>src/dso.c\<close>, and the address-based accessors of \<^verbatim>\<open>src/data.c\<close> (\<^verbatim>\<open>get_data\<close>, the \<^verbatim>\<open>read_u*\<close> and
  \<^verbatim>\<open>write_*\<close> families, \<^verbatim>\<open>strptr\<close>, the data iterator).

  libelf is not part of the repository. A section handle \<^verbatim>\<open>Elf_Scn *\<close> is represented by the data
  descriptors that \<^verbatim>\<open>elf_getdata\<close> enumerates for it, in order, and by its dirty flag; a descriptor
  is an \<^verbatim>\<open>Elf_Data\<close> with its type, offset, size and buffer (\<^term>\<open>None\<close> for a null buffer).
  The byte order of the machine prelink runs on is the field \<open>host_lsb\<close>.

  The lemmas: the \<^verbatim>\<open>lastscn\<close> cache of \<^verbatim>\<open>addr_to_sec\<close> is invisible when sections do not overlap; a
  successful write is read back; a write changes no other cell and no header; a failed write
  changes nothing. They are the contract \<open>mem_cell\<close>, interpreted for every width and byte order.
\<close>

section \<open>ELF constants\<close>

definition ELFCLASS32 :: u8 where "ELFCLASS32 = 1"
definition ELFCLASS64 :: u8 where "ELFCLASS64 = 2"
definition ELFDATA2LSB :: u8 where "ELFDATA2LSB = 1"
definition ELFDATA2MSB :: u8 where "ELFDATA2MSB = 2"

definition ET_EXEC :: u16 where "ET_EXEC = 2"
definition ET_DYN :: u16 where "ET_DYN = 3"

definition SHF_WRITE :: u64 where "SHF_WRITE = 1"
definition SHF_ALLOC :: u64 where "SHF_ALLOC = 2"
definition SHF_EXECINSTR :: u64 where "SHF_EXECINSTR = 4"
definition SHF_TLS :: u64 where "SHF_TLS = 0x400"

definition SHT_PROGBITS :: u32 where "SHT_PROGBITS = 1"
definition SHT_SYMTAB :: u32 where "SHT_SYMTAB = 2"
definition SHT_RELA :: u32 where "SHT_RELA = 4"
definition SHT_DYNAMIC :: u32 where "SHT_DYNAMIC = 6"
definition SHT_NOBITS :: u32 where "SHT_NOBITS = 8"
definition SHT_REL :: u32 where "SHT_REL = 9"
definition SHT_DYNSYM :: u32 where "SHT_DYNSYM = 11"

lemmas elf_consts =
  ELFCLASS32_def ELFCLASS64_def ELFDATA2LSB_def ELFDATA2MSB_def ET_EXEC_def ET_DYN_def
  SHF_WRITE_def SHF_ALLOC_def SHF_EXECINSTR_def SHF_TLS_def SHT_PROGBITS_def SHT_SYMTAB_def
  SHT_RELA_def SHT_DYNAMIC_def SHT_NOBITS_def SHT_REL_def SHT_DYNSYM_def

section \<open>ELF structures\<close>

datatype elf_type =
  ELF_T_BYTE | ELF_T_ADDR | ELF_T_DYN | ELF_T_HALF | ELF_T_REL | ELF_T_RELA | ELF_T_SYM
  | ELF_T_WORD | ELF_T_XWORD | ELF_T_OTHER

record elf_data =
  d_type :: elf_type
  d_off :: u64
  d_size :: u64
  d_buf :: "u8 list option"

record elf_scn =
  scn_data :: "elf_data list"
  scn_dirty :: bool

record elf_shdr =
  sh_name :: u32
  sh_type :: u32
  sh_flags :: u64
  sh_addr :: u64
  sh_offset :: u64
  sh_size :: u64
  sh_link :: u32
  sh_info :: u32
  sh_addralign :: u64
  sh_entsize :: u64

record elf_phdr =
  p_type :: u32
  p_flags :: u32
  p_offset :: u64
  p_vaddr :: u64
  p_paddr :: u64
  p_filesz :: u64
  p_memsz :: u64
  p_align :: u64

record elf_ehdr =
  ei_class :: u8
  ei_data :: u8
  e_type :: u16
  e_machine :: u16
  e_entry :: u64
  e_phoff :: u64
  e_shoff :: u64
  e_flags :: u32
  e_phnum :: u16
  e_shnum :: u16
  e_shstrndx :: u16

record pl_adjust =
  adj_start :: u64
  adj_adjust :: u64

text \<open>\<^verbatim>\<open>DSO\<close>: the fields the modelled code reads or writes. \<open>dso_ptr\<close> stands for the address of the
  structure, for the code that compares two \<^verbatim>\<open>DSO *\<close>.\<close>

record dso =
  dso_ptr :: u64
  host_lsb :: bool
  ehdr :: elf_ehdr
  phdr :: "elf_phdr list"
  scn :: "elf_scn list"
  shdr :: "elf_shdr list"
  dso_base :: u64
  dso_end :: u64
  dso_align :: u64
  info :: "nat \<Rightarrow> u64"
  info_DT_GNU_PRELINKED :: u64
  info_DT_CHECKSUM :: u64
  info_DT_VERNEED :: u64
  info_DT_VERDEF :: u64
  info_DT_VERSYM :: u64
  info_DT_GNU_HASH :: u64
  info_DT_TLSDESC_PLT :: u64
  info_DT_MIPS_LOCAL_GOTNO :: u64
  info_DT_MIPS_GOTSYM :: u64
  info_DT_MIPS_SYMTABNO :: u64
  info_DT_MIPS_PLTGOT :: u64
  info_set_mask :: u64
  lastscn :: nat
  dynamic :: nat
  filename :: string
  adjust :: "pl_adjust list option"
  permissive :: bool

definition dynamic_info_is_set :: "dso \<Rightarrow> nat \<Rightarrow> bool" where
  "dynamic_info_is_set d b \<longleftrightarrow> info_set_mask d AND push_bit b 1 \<noteq> 0"

definition addr_adjust :: "u64 \<Rightarrow> u64 \<Rightarrow> u64 \<Rightarrow> u64" where
  "addr_adjust addr start adj = (if addr \<ge> start then addr + adj else addr)"

section \<open>From an address to a section\<close>

definition RELOCATE_SCN :: "u64 \<Rightarrow> bool" where
  "RELOCATE_SCN shf \<longleftrightarrow> shf AND (SHF_WRITE OR SHF_ALLOC OR SHF_EXECINSTR) \<noteq> 0"

definition sec_holds :: "elf_shdr \<Rightarrow> u64 \<Rightarrow> bool" where
  "sec_holds s addr \<longleftrightarrow>
     RELOCATE_SCN (sh_flags s)
     \<and> sh_addr s \<le> addr \<and> sh_addr s + sh_size s > addr
     \<and> (sh_type s \<noteq> SHT_NOBITS \<or> sh_flags s AND SHF_TLS = 0)"

fun scan_sections :: "elf_shdr list \<Rightarrow> u64 \<Rightarrow> nat \<Rightarrow> nat option" where
  "scan_sections [] addr i = None"
| "scan_sections (s # ss) addr i =
     (if sec_holds s addr then Some i else scan_sections ss addr (Suc i))"

text \<open>The result \<open>-1\<close> of \<^verbatim>\<open>addr_to_sec\<close> is \<^term>\<open>None\<close>.\<close>

definition addr_to_sec :: "dso \<Rightarrow> u64 \<Rightarrow> (nat option \<times> dso) option" where
  "addr_to_sec d addr = do {
     s \<leftarrow> nth_opt (shdr d) (lastscn d);
     if sec_holds s addr then Some (Some (lastscn d), d)
     else do {
       _ \<leftarrow> guard_opt (unat (e_shnum (ehdr d)) \<le> length (shdr d));
       case scan_sections (take (unat (e_shnum (ehdr d))) (shdr d)) addr 0 of
         Some i \<Rightarrow> Some (Some i, d\<lparr>lastscn := i\<rparr>)
       | None \<Rightarrow> Some (None, d)
     }
   }"

section \<open>From an address to a byte of the image\<close>

text \<open>A pointer into the image: section, index of the data block, offset in its buffer; with the
  type of the block.\<close>

record data_ptr =
  dp_sec :: nat
  dp_blk :: nat
  dp_off :: nat
  dp_type :: elf_type

fun find_block :: "elf_data list \<Rightarrow> u64 \<Rightarrow> nat \<Rightarrow> (nat \<times> elf_data) option" where
  "find_block [] addr k = None"
| "find_block (b # bs) addr k =
     (if d_off b \<le> addr \<and> d_off b + d_size b > addr then Some (k, b)
      else find_block bs addr (Suc k))"

definition get_data :: "dso \<Rightarrow> u64 \<Rightarrow> (data_ptr option \<times> dso) option" where
  "get_data d addr = do {
     (sec, d) \<leftarrow> addr_to_sec d addr;
     case sec of
       None \<Rightarrow> Some (None, d)
     | Some sec \<Rightarrow> do {
         s \<leftarrow> nth_opt (shdr d) sec;
         sc \<leftarrow> nth_opt (scn d) sec;
         case find_block (scn_data sc) (addr - sh_addr s) 0 of
           None \<Rightarrow> Some (None, d)
         | Some (k, b) \<Rightarrow>
             Some (Some \<lparr>dp_sec = sec, dp_blk = k,
                         dp_off = unat (addr - sh_addr s - d_off b), dp_type = d_type b\<rparr>, d)
       }
   }"

text \<open>The bytes from a pointer to the end of its buffer, and replacing them.\<close>

definition deref :: "dso \<Rightarrow> data_ptr \<Rightarrow> u8 list option" where
  "deref d p = do {
     sc \<leftarrow> nth_opt (scn d) (dp_sec p);
     b \<leftarrow> nth_opt (scn_data sc) (dp_blk p);
     buf \<leftarrow> d_buf b;
     _ \<leftarrow> guard_opt (dp_off p \<le> length buf);
     Some (drop (dp_off p) buf)
   }"

definition put_bytes :: "nat \<Rightarrow> u8 list \<Rightarrow> elf_data \<Rightarrow> elf_data" where
  "put_bytes off bs b = b\<lparr>d_buf := map_option (\<lambda>buf. take off buf @ bs) (d_buf b)\<rparr>"

definition store :: "dso \<Rightarrow> data_ptr \<Rightarrow> u8 list \<Rightarrow> dso" where
  "store d p bs = d\<lparr>scn := (scn d)[dp_sec p := (scn d ! dp_sec p)
     \<lparr>scn_data := (scn_data (scn d ! dp_sec p))
        [dp_blk p := put_bytes (dp_off p) bs (scn_data (scn d ! dp_sec p) ! dp_blk p)]\<rparr>]\<rparr>"

definition elf_flagscn_dirty :: "dso \<Rightarrow> nat \<Rightarrow> dso" where
  "elf_flagscn_dirty d sec = d\<lparr>scn := (scn d)[sec := (scn d ! sec)\<lparr>scn_dirty := True\<rparr>]\<rparr>"

text \<open>The \<^verbatim>\<open>UREAD\<close> and \<^verbatim>\<open>WRITE\<close> macros: \<open>rd\<close> and \<open>wr\<close> are the buffer accessors of the width and
  byte order, \<open>ld\<close> and \<open>st\<close> the plain access of the host to an object of the width.\<close>

definition uread ::
  "(u8 list \<Rightarrow> 'w option) \<Rightarrow> (bool \<Rightarrow> u8 list \<Rightarrow> 'w option) \<Rightarrow> dso \<Rightarrow> u64 \<Rightarrow> ('w::zero \<times> dso) option"
where
  "uread rd ld d addr = do {
     (data, d) \<leftarrow> get_data d addr;
     case data of
       None \<Rightarrow> Some (0, d)
     | Some p \<Rightarrow> do {
         bs \<leftarrow> deref d p;
         v \<leftarrow> (if dp_type p = ELF_T_BYTE then rd bs else ld (host_lsb d) bs);
         Some (v, d)
       }
   }"

definition dwrite ::
  "(u8 list \<Rightarrow> 'w \<Rightarrow> u8 list option) \<Rightarrow> (bool \<Rightarrow> u8 list \<Rightarrow> 'w \<Rightarrow> u8 list option)
   \<Rightarrow> dso \<Rightarrow> u64 \<Rightarrow> 'w \<Rightarrow> (int \<times> dso) option"
where
  "dwrite wr st d addr val = do {
     (data, d) \<leftarrow> get_data d addr;
     case data of
       None \<Rightarrow> Some (- 1, d)
     | Some p \<Rightarrow> do {
         bs \<leftarrow> deref d p;
         bs' \<leftarrow> (if dp_type p = ELF_T_BYTE then wr bs val else st (host_lsb d) bs val);
         Some (0, elf_flagscn_dirty (store d p bs') (dp_sec p))
       }
   }"

definition host_ld8 :: "bool \<Rightarrow> u8 list \<Rightarrow> u8 option" where
  "host_ld8 lsb = buf_read_u8"
definition host_ld16 :: "bool \<Rightarrow> u8 list \<Rightarrow> u16 option" where
  "host_ld16 lsb = (if lsb then buf_read_ule16 else buf_read_ube16)"
definition host_ld32 :: "bool \<Rightarrow> u8 list \<Rightarrow> u32 option" where
  "host_ld32 lsb = (if lsb then buf_read_ule32 else buf_read_ube32)"
definition host_ld64 :: "bool \<Rightarrow> u8 list \<Rightarrow> u64 option" where
  "host_ld64 lsb = (if lsb then buf_read_ule64 else buf_read_ube64)"
definition host_st8 :: "bool \<Rightarrow> u8 list \<Rightarrow> u8 \<Rightarrow> u8 list option" where
  "host_st8 lsb = buf_write_8"
definition host_st16 :: "bool \<Rightarrow> u8 list \<Rightarrow> u16 \<Rightarrow> u8 list option" where
  "host_st16 lsb = (if lsb then buf_write_le16 else buf_write_be16)"
definition host_st32 :: "bool \<Rightarrow> u8 list \<Rightarrow> u32 \<Rightarrow> u8 list option" where
  "host_st32 lsb = (if lsb then buf_write_le32 else buf_write_be32)"
definition host_st64 :: "bool \<Rightarrow> u8 list \<Rightarrow> u64 \<Rightarrow> u8 list option" where
  "host_st64 lsb = (if lsb then buf_write_le64 else buf_write_be64)"

definition read_u8 :: "dso \<Rightarrow> u64 \<Rightarrow> (u8 \<times> dso) option" where
  "read_u8 = uread buf_read_u8 host_ld8"

definition write_8 :: "dso \<Rightarrow> u64 \<Rightarrow> u8 \<Rightarrow> (int \<times> dso) option" where
  "write_8 = dwrite buf_write_8 host_st8"

definition read_ule16 :: "dso \<Rightarrow> u64 \<Rightarrow> (u16 \<times> dso) option" where
  "read_ule16 = uread buf_read_ule16 host_ld16"

definition write_le16 :: "dso \<Rightarrow> u64 \<Rightarrow> u16 \<Rightarrow> (int \<times> dso) option" where
  "write_le16 = dwrite buf_write_le16 host_st16"

definition read_ube16 :: "dso \<Rightarrow> u64 \<Rightarrow> (u16 \<times> dso) option" where
  "read_ube16 = uread buf_read_ube16 host_ld16"

definition write_be16 :: "dso \<Rightarrow> u64 \<Rightarrow> u16 \<Rightarrow> (int \<times> dso) option" where
  "write_be16 = dwrite buf_write_be16 host_st16"

definition read_ule32 :: "dso \<Rightarrow> u64 \<Rightarrow> (u32 \<times> dso) option" where
  "read_ule32 = uread buf_read_ule32 host_ld32"

definition write_le32 :: "dso \<Rightarrow> u64 \<Rightarrow> u32 \<Rightarrow> (int \<times> dso) option" where
  "write_le32 = dwrite buf_write_le32 host_st32"

definition read_ube32 :: "dso \<Rightarrow> u64 \<Rightarrow> (u32 \<times> dso) option" where
  "read_ube32 = uread buf_read_ube32 host_ld32"

definition write_be32 :: "dso \<Rightarrow> u64 \<Rightarrow> u32 \<Rightarrow> (int \<times> dso) option" where
  "write_be32 = dwrite buf_write_be32 host_st32"

definition read_ule64 :: "dso \<Rightarrow> u64 \<Rightarrow> (u64 \<times> dso) option" where
  "read_ule64 = uread buf_read_ule64 host_ld64"

definition write_le64 :: "dso \<Rightarrow> u64 \<Rightarrow> u64 \<Rightarrow> (int \<times> dso) option" where
  "write_le64 = dwrite buf_write_le64 host_st64"

definition read_ube64 :: "dso \<Rightarrow> u64 \<Rightarrow> (u64 \<times> dso) option" where
  "read_ube64 = uread buf_read_ube64 host_ld64"

definition write_be64 :: "dso \<Rightarrow> u64 \<Rightarrow> u64 \<Rightarrow> (int \<times> dso) option" where
  "write_be64 = dwrite buf_write_be64 host_st64"

text \<open>The accessors in the byte order of the object (\<^verbatim>\<open>BUFREADUNE\<close>, \<^verbatim>\<open>READUNE\<close>, \<^verbatim>\<open>WRITENE\<close>, \<^verbatim>\<open>BUFWRITENE\<close>).\<close>

definition buf_read_une16 :: "dso \<Rightarrow> u8 list \<Rightarrow> u16 option" where
  "buf_read_une16 d buf =
     (if ei_data (ehdr d) = ELFDATA2LSB then buf_read_ule16 buf else buf_read_ube16 buf)"

definition read_une16 :: "dso \<Rightarrow> u64 \<Rightarrow> (u16 \<times> dso) option" where
  "read_une16 d addr =
     (if ei_data (ehdr d) = ELFDATA2LSB then read_ule16 d addr else read_ube16 d addr)"

definition write_ne16 :: "dso \<Rightarrow> u64 \<Rightarrow> u16 \<Rightarrow> (int \<times> dso) option" where
  "write_ne16 d addr val =
     (if ei_data (ehdr d) = ELFDATA2LSB then write_le16 d addr val else write_be16 d addr val)"

definition buf_write_ne16 :: "dso \<Rightarrow> u8 list \<Rightarrow> u16 \<Rightarrow> u8 list option" where
  "buf_write_ne16 d buf val =
     (if ei_data (ehdr d) = ELFDATA2LSB then buf_write_le16 buf val else buf_write_be16 buf val)"

definition buf_read_une32 :: "dso \<Rightarrow> u8 list \<Rightarrow> u32 option" where
  "buf_read_une32 d buf =
     (if ei_data (ehdr d) = ELFDATA2LSB then buf_read_ule32 buf else buf_read_ube32 buf)"

definition read_une32 :: "dso \<Rightarrow> u64 \<Rightarrow> (u32 \<times> dso) option" where
  "read_une32 d addr =
     (if ei_data (ehdr d) = ELFDATA2LSB then read_ule32 d addr else read_ube32 d addr)"

definition write_ne32 :: "dso \<Rightarrow> u64 \<Rightarrow> u32 \<Rightarrow> (int \<times> dso) option" where
  "write_ne32 d addr val =
     (if ei_data (ehdr d) = ELFDATA2LSB then write_le32 d addr val else write_be32 d addr val)"

definition buf_write_ne32 :: "dso \<Rightarrow> u8 list \<Rightarrow> u32 \<Rightarrow> u8 list option" where
  "buf_write_ne32 d buf val =
     (if ei_data (ehdr d) = ELFDATA2LSB then buf_write_le32 buf val else buf_write_be32 buf val)"

definition buf_read_une64 :: "dso \<Rightarrow> u8 list \<Rightarrow> u64 option" where
  "buf_read_une64 d buf =
     (if ei_data (ehdr d) = ELFDATA2LSB then buf_read_ule64 buf else buf_read_ube64 buf)"

definition read_une64 :: "dso \<Rightarrow> u64 \<Rightarrow> (u64 \<times> dso) option" where
  "read_une64 d addr =
     (if ei_data (ehdr d) = ELFDATA2LSB then read_ule64 d addr else read_ube64 d addr)"

definition write_ne64 :: "dso \<Rightarrow> u64 \<Rightarrow> u64 \<Rightarrow> (int \<times> dso) option" where
  "write_ne64 d addr val =
     (if ei_data (ehdr d) = ELFDATA2LSB then write_le64 d addr val else write_be64 d addr val)"

definition buf_write_ne64 :: "dso \<Rightarrow> u8 list \<Rightarrow> u64 \<Rightarrow> u8 list option" where
  "buf_write_ne64 d buf val =
     (if ei_data (ehdr d) = ELFDATA2LSB then buf_write_le64 buf val else buf_write_be64 buf val)"

section \<open>Strings of the object\<close>

text \<open>\<^verbatim>\<open>strptr\<close> gives the bytes from the string to the end of its block, or a null pointer;
  \<^verbatim>\<open>strcmp (p, "...") == 0\<close> reads them up to the first difference.\<close>

fun find_string :: "elf_data list \<Rightarrow> int \<Rightarrow> u8 list option" where
  "find_string [] off = None"
| "find_string (b # bs) off =
     (case d_buf b of
        Some buf \<Rightarrow> (if off \<ge> uint (d_off b) \<and> off < uint (d_off b + d_size b)
                     then Some (drop (nat (off - uint (d_off b))) buf) else find_string bs off)
      | None \<Rightarrow> find_string bs off)"

definition strptr :: "dso \<Rightarrow> nat \<Rightarrow> int \<Rightarrow> u8 list option option" where
  "strptr d sec off = do {
     sc \<leftarrow> nth_opt (scn d) sec;
     s \<leftarrow> nth_opt (shdr d) sec;
     if off \<ge> 0 \<and> off < uint (sh_size s) then Some (find_string (scn_data sc) off) else Some None
   }"

fun strcmp_eq :: "u8 list \<Rightarrow> string \<Rightarrow> bool option" where
  "strcmp_eq [] cs = None"
| "strcmp_eq (b # bs) [] = Some (b = 0)"
| "strcmp_eq (b # bs) (c # cs) = (if b = of_char c then strcmp_eq bs cs else Some False)"

text \<open>\<^verbatim>\<open>strcmp (strptr (dso, dso->ehdr.e_shstrndx, dso->shdr[i].sh_name), nm) == 0\<close>; a null
  pointer handed to \<^verbatim>\<open>strcmp\<close> is a wild access.\<close>

definition sec_name_is :: "dso \<Rightarrow> nat \<Rightarrow> string \<Rightarrow> bool option" where
  "sec_name_is d i nm = do {
     s \<leftarrow> nth_opt (shdr d) i;
     p \<leftarrow> strptr d (unat (e_shstrndx (ehdr d))) (uint (sh_name s));
     str \<leftarrow> p;
     strcmp_eq str nm
   }"

section \<open>Reading consecutive blocks\<close>

record data_iterator =
  it_data :: "nat option"
  it_sec :: "nat option"
  it_addr :: u64
  it_sec_offset :: u64

definition init_data_iterator :: "data_iterator \<Rightarrow> u64 \<Rightarrow> data_iterator" where
  "init_data_iterator it addr = it\<lparr>it_data := None, it_addr := addr\<rparr>"

definition elf_nextdata :: "elf_data list \<Rightarrow> nat option \<Rightarrow> nat option" where
  "elf_nextdata bs k = (let i = (case k of None \<Rightarrow> 0 | Some k \<Rightarrow> Suc k) in
     if i < length bs then Some i else None)"

fun skip_blocks :: "elf_data list \<Rightarrow> u64 \<Rightarrow> nat \<Rightarrow> nat option" where
  "skip_blocks [] off k = None"
| "skip_blocks (b # bs) off k =
     (if d_off b + d_size b \<le> off then skip_blocks bs off (Suc k) else Some k)"

text \<open>The three steps of \<^verbatim>\<open>get_data_from_iterator\<close>: leave an exhausted block, find the block of the
  next byte when there is none, and hand out \<open>sz\<close> bytes if the block has them. The result is the
  block and the offset of the pointer in its buffer.\<close>

definition it_leave_block :: "dso \<Rightarrow> data_iterator \<Rightarrow> data_iterator option" where
  "it_leave_block d it = (case (it_data it, it_sec it) of
     (Some k, Some sec) \<Rightarrow> do {
       sc \<leftarrow> nth_opt (scn d) sec;
       b \<leftarrow> nth_opt (scn_data sc) k;
       if d_off b + d_size b = it_sec_offset it
       then Some (it\<lparr>it_data := elf_nextdata (scn_data sc) (Some k)\<rparr>) else Some it
     }
   | (Some k, None) \<Rightarrow> None
   | (None, _) \<Rightarrow> Some it)"

definition it_find_block :: "dso \<Rightarrow> data_iterator \<Rightarrow> (bool \<times> data_iterator \<times> dso) option" where
  "it_find_block d it = (case it_data it of
     Some _ \<Rightarrow> Some (True, it, d)
   | None \<Rightarrow> do {
       (sec, d) \<leftarrow> addr_to_sec d (it_addr it);
       case sec of
         None \<Rightarrow> Some (False, it\<lparr>it_sec := None\<rparr>, d)
       | Some sec \<Rightarrow> do {
           s \<leftarrow> nth_opt (shdr d) sec;
           sc \<leftarrow> nth_opt (scn d) sec;
           let off = it_addr it - sh_addr s;
           Some (True, it\<lparr>it_sec := Some sec, it_sec_offset := off,
                          it_data := skip_blocks (scn_data sc) off 0\<rparr>, d)
         }
     })"

definition get_data_from_iterator ::
  "dso \<Rightarrow> data_iterator \<Rightarrow> u64 \<Rightarrow> ((nat \<times> nat \<times> u64) option \<times> data_iterator \<times> dso) option"
where
  "get_data_from_iterator d it sz = do {
     it \<leftarrow> it_leave_block d it;
     (found, it, d) \<leftarrow> it_find_block d it;
     if \<not> found then Some (None, it, d)
     else (case (it_data it, it_sec it) of
       (Some k, Some sec) \<Rightarrow> do {
         sc \<leftarrow> nth_opt (scn d) sec;
         b \<leftarrow> nth_opt (scn_data sc) k;
         if d_off b > it_sec_offset it \<or> d_off b + d_size b < it_sec_offset it + sz
         then Some (None, it, d)
         else Some (Some (sec, k, it_sec_offset it - d_off b),
                    it\<lparr>it_sec_offset := it_sec_offset it + sz, it_addr := it_addr it + sz\<rparr>, d)
       }
     | (Some k, None) \<Rightarrow> None
     | (None, _) \<Rightarrow> Some (None, it, d))
   }"

section \<open>Well-formed objects\<close>

text \<open>The sections of an object do not share addresses, the cache points at a section, and a
  buffer has the size its descriptor announces.\<close>

definition sec_live :: "elf_shdr \<Rightarrow> bool" where
  "sec_live s \<longleftrightarrow> RELOCATE_SCN (sh_flags s) \<and> (sh_type s \<noteq> SHT_NOBITS \<or> sh_flags s AND SHF_TLS = 0)"

definition sec_disj :: "elf_shdr \<Rightarrow> elf_shdr \<Rightarrow> bool" where
  "sec_disj s t \<longleftrightarrow> \<not> sec_live s \<or> \<not> sec_live t
     \<or> sh_addr s + sh_size s \<le> sh_addr t \<or> sh_addr t + sh_size t \<le> sh_addr s"

definition wf_block :: "elf_data \<Rightarrow> bool" where
  "wf_block b \<longleftrightarrow> unat (d_off b) + unat (d_size b) < 2 ^ 64
     \<and> (case d_buf b of None \<Rightarrow> True | Some bs \<Rightarrow> length bs = unat (d_size b))"

definition wf_dso :: "dso \<Rightarrow> bool" where
  "wf_dso d \<longleftrightarrow>
     lastscn d < unat (e_shnum (ehdr d))
     \<and> unat (e_shnum (ehdr d)) \<le> length (shdr d) \<and> unat (e_shnum (ehdr d)) \<le> length (scn d)
     \<and> list_all (\<lambda>i. list_all (\<lambda>j. i = j \<or> sec_disj (shdr d ! i) (shdr d ! j))
          [0..<unat (e_shnum (ehdr d))]) [0..<unat (e_shnum (ehdr d))]
     \<and> list_all (\<lambda>sc. list_all wf_block (scn_data sc)) (scn d)"

lemma sec_holds_live: "sec_holds s addr \<Longrightarrow> sec_live s"
  by (auto simp: sec_holds_def sec_live_def)

lemma sec_disj_holds: "sec_disj s t \<Longrightarrow> sec_holds s addr \<Longrightarrow> \<not> sec_holds t addr"
  by (auto simp: sec_disj_def sec_holds_def sec_live_def)

lemma wf_dso_unique_sec:
  assumes "wf_dso d" and "i < unat (e_shnum (ehdr d))" and "j < unat (e_shnum (ehdr d))"
    and "sec_holds (shdr d ! i) addr" and "sec_holds (shdr d ! j) addr"
  shows "i = j"
proof -
  have "i = j \<or> sec_disj (shdr d ! i) (shdr d ! j)"
    using assms(1-3) by (force simp: wf_dso_def list_all_iff)
  then show ?thesis using assms(4,5) sec_disj_holds by blast
qed

section \<open>The lookup without the cache\<close>

definition sec_of :: "dso \<Rightarrow> u64 \<Rightarrow> nat option" where
  "sec_of d addr = scan_sections (take (unat (e_shnum (ehdr d))) (shdr d)) addr 0"

definition touch :: "dso \<Rightarrow> u64 \<Rightarrow> dso" where
  "touch d addr = (case sec_of d addr of None \<Rightarrow> d | Some i \<Rightarrow> d\<lparr>lastscn := i\<rparr>)"

lemma scan_sections_Some:
  "scan_sections ss addr k = Some i \<Longrightarrow> \<exists>m < length ss. i = k + m \<and> sec_holds (ss ! m) addr"
proof (induction ss arbitrary: k)
  case (Cons s ss)
  show ?case
  proof (cases "sec_holds s addr")
    case True
    then show ?thesis using Cons.prems by (intro exI [of _ 0]) simp
  next
    case False
    then obtain m where "m < length ss" "i = Suc k + m" "sec_holds (ss ! m) addr"
      using Cons by fastforce
    then show ?thesis by (intro exI [of _ "Suc m"]) simp
  qed
qed simp

lemma scan_sections_None:
  "scan_sections ss addr k = None \<longleftrightarrow> (\<forall>s \<in> set ss. \<not> sec_holds s addr)"
  by (induction ss arbitrary: k) auto

lemma sec_of_Some:
  "sec_of d addr = Some i \<Longrightarrow> unat (e_shnum (ehdr d)) \<le> length (shdr d) \<Longrightarrow>
     i < unat (e_shnum (ehdr d)) \<and> sec_holds (shdr d ! i) addr"
  using scan_sections_Some [of "take (unat (e_shnum (ehdr d))) (shdr d)" addr 0 i]
  by (auto simp: sec_of_def)

lemma sec_of_iff:
  assumes "wf_dso d"
  shows "sec_of d addr = Some i \<longleftrightarrow> i < unat (e_shnum (ehdr d)) \<and> sec_holds (shdr d ! i) addr"
proof
  assume r: "i < unat (e_shnum (ehdr d)) \<and> sec_holds (shdr d ! i) addr"
  have len: "unat (e_shnum (ehdr d)) \<le> length (shdr d)" using assms by (simp add: wf_dso_def)
  with r have "shdr d ! i \<in> set (take (unat (e_shnum (ehdr d))) (shdr d))"
    by (metis in_set_conv_nth length_take min.absorb2 nth_take)
  with r obtain j where j: "sec_of d addr = Some j"
    by (cases "sec_of d addr") (auto simp: sec_of_def scan_sections_None)
  with sec_of_Some [OF j len] r wf_dso_unique_sec [OF assms] show "sec_of d addr = Some i"
    by blast
next
  assume "sec_of d addr = Some i"
  then show "i < unat (e_shnum (ehdr d)) \<and> sec_holds (shdr d ! i) addr"
    using sec_of_Some assms by (simp add: wf_dso_def)
qed

lemma addr_to_sec_eq:
  assumes "wf_dso d"
  shows "addr_to_sec d addr = Some (sec_of d addr, touch d addr)"
proof -
  have w: "lastscn d < unat (e_shnum (ehdr d))" "unat (e_shnum (ehdr d)) \<le> length (shdr d)"
    using assms by (auto simp: wf_dso_def)
  show ?thesis
  proof (cases "sec_holds (shdr d ! lastscn d) addr")
    case True
    then have "sec_of d addr = Some (lastscn d)" using assms w by (simp add: sec_of_iff)
    then show ?thesis using w True by (simp add: addr_to_sec_def touch_def)
  next
    case False
    then show ?thesis
      using w by (simp add: addr_to_sec_def touch_def flip: sec_of_def split: option.split)
  qed
qed

definition locate :: "dso \<Rightarrow> u64 \<Rightarrow> data_ptr option" where
  "locate d addr = (case sec_of d addr of
     None \<Rightarrow> None
   | Some sec \<Rightarrow> (case find_block (scn_data (scn d ! sec)) (addr - sh_addr (shdr d ! sec)) 0 of
       None \<Rightarrow> None
     | Some (k, b) \<Rightarrow> Some \<lparr>dp_sec = sec, dp_blk = k,
         dp_off = unat (addr - sh_addr (shdr d ! sec) - d_off b), dp_type = d_type b\<rparr>))"

lemma touch_fields [simp]:
  "ehdr (touch d a) = ehdr d" "shdr (touch d a) = shdr d" "scn (touch d a) = scn d"
  "host_lsb (touch d a) = host_lsb d" "info (touch d a) = info d" "dso_ptr (touch d a) = dso_ptr d"
  "phdr (touch d a) = phdr d" "filename (touch d a) = filename d"
  by (simp_all add: touch_def split: option.splits)

lemma sec_of_touch [simp]: "sec_of (touch d b) a = sec_of d a"
  by (simp add: sec_of_def)

lemma locate_touch [simp]: "locate (touch d b) a = locate d a"
  by (auto simp: locate_def split: option.split)

lemma wf_touch [simp]: "wf_dso d \<Longrightarrow> wf_dso (touch d a)"
  using sec_of_Some [of d a] by (auto simp: wf_dso_def touch_def split: option.splits)

lemma get_data_eq:
  assumes "wf_dso d"
  shows "get_data d addr = Some (locate d addr, touch d addr)"
proof (cases "sec_of d addr")
  case None
  then show ?thesis using assms by (simp add: get_data_def addr_to_sec_eq locate_def)
next
  case (Some i)
  then have "i < length (shdr d)" "i < length (scn d)"
    using sec_of_Some [OF Some] assms by (auto simp: wf_dso_def)
  then show ?thesis
    using Some assms
    by (auto simp: get_data_def addr_to_sec_eq locate_def split: option.split)
qed

section \<open>Objects of the same shape\<close>

text \<open>What an access keeps: every header field, and of each data block its type, offset, size and
  the length of its buffer. Only the bytes, the dirty flags and the cache may differ.\<close>

definition block_shape :: "elf_data \<Rightarrow> elf_type \<times> u64 \<times> u64 \<times> nat option" where
  "block_shape b = (d_type b, d_off b, d_size b, map_option length (d_buf b))"

definition scn_shape :: "elf_scn \<Rightarrow> (elf_type \<times> u64 \<times> u64 \<times> nat option) list" where
  "scn_shape sc = map block_shape (scn_data sc)"

definition same_shape :: "dso \<Rightarrow> dso \<Rightarrow> bool" where
  "same_shape d e \<longleftrightarrow> d\<lparr>scn := [], lastscn := 0\<rparr> = e\<lparr>scn := [], lastscn := 0\<rparr>
     \<and> map scn_shape (scn d) = map scn_shape (scn e)"

lemma same_shape_refl [simp]: "same_shape d d"
  by (simp add: same_shape_def)

lemma same_shape_trans: "same_shape a b \<Longrightarrow> same_shape b c \<Longrightarrow> same_shape a c"
  by (simp add: same_shape_def)

lemma same_shape_sym: "same_shape a b \<Longrightarrow> same_shape b a"
  by (simp add: same_shape_def)

lemma same_shape_fields:
  assumes "same_shape d e"
  shows "ehdr e = ehdr d" "shdr e = shdr d" "phdr e = phdr d" "info e = info d"
    "host_lsb e = host_lsb d" "dso_ptr e = dso_ptr d" "filename e = filename d"
    "length (scn e) = length (scn d)"
proof -
  have h: "f (d\<lparr>scn := [], lastscn := 0\<rparr>) = f (e\<lparr>scn := [], lastscn := 0\<rparr>)" for f :: "dso \<Rightarrow> 'x"
    using assms by (simp add: same_shape_def)
  show "ehdr e = ehdr d" using h [of ehdr] by simp
  show "shdr e = shdr d" using h [of shdr] by simp
  show "phdr e = phdr d" using h [of phdr] by simp
  show "info e = info d" using h [of info] by simp
  show "host_lsb e = host_lsb d" using h [of host_lsb] by simp
  show "dso_ptr e = dso_ptr d" using h [of dso_ptr] by simp
  show "filename e = filename d" using h [of filename] by simp
  show "length (scn e) = length (scn d)"
    using assms map_eq_imp_length_eq by (fastforce simp: same_shape_def)
qed

lemma same_shape_touch [simp]: "same_shape d (touch d a)" "same_shape (touch d a) d"
  by (simp_all add: same_shape_def touch_def split: option.split)

text \<open>Looking an address up depends on the shape only.\<close>

lemma find_block_shape:
  assumes "map block_shape bs = map block_shape cs"
  shows "(case find_block bs a k of None \<Rightarrow> None
            | Some (i, b) \<Rightarrow> Some (i, d_type b, d_off b))
       = (case find_block cs a k of None \<Rightarrow> None
            | Some (i, b) \<Rightarrow> Some (i, d_type b, d_off b))"
  using assms
proof (induction bs arbitrary: cs k)
  case (Cons b bs)
  then obtain c cs' where "cs = c # cs'" by (cases cs) auto
  then show ?case using Cons by (auto simp: block_shape_def)
qed auto

lemma same_shape_sec_of: "same_shape d e \<Longrightarrow> sec_of e a = sec_of d a"
  by (simp add: sec_of_def same_shape_fields)

lemma same_shape_locate:
  assumes "same_shape d e" and "unat (e_shnum (ehdr d)) \<le> length (shdr d)"
    and "unat (e_shnum (ehdr d)) \<le> length (scn d)"
  shows "locate e a = locate d a"
proof (cases "sec_of d a")
  case None
  then show ?thesis using same_shape_sec_of [OF assms(1)] by (simp add: locate_def)
next
  case (Some i)
  then have i: "i < length (scn d)"
    using sec_of_Some [OF Some assms(2)] assms(3) by simp
  have "map scn_shape (scn d) ! i = map scn_shape (scn e) ! i"
    using assms(1) by (simp add: same_shape_def)
  then have "map block_shape (scn_data (scn d ! i)) = map block_shape (scn_data (scn e ! i))"
    using i same_shape_fields(8) [OF assms(1)] by (simp add: scn_shape_def)
  from find_block_shape [OF this, of "a - sh_addr (shdr d ! i)" 0] show ?thesis
    using Some same_shape_sec_of [OF assms(1)] same_shape_fields(2) [OF assms(1)]
    by (auto simp: locate_def split: option.splits)
qed

lemma wf_block_shape:
  "wf_block b \<longleftrightarrow> (case block_shape b of (_, off, sz, l) \<Rightarrow>
     unat off + unat sz < 2 ^ 64 \<and> (l = None \<or> l = Some (unat sz)))"
  by (auto simp: block_shape_def wf_block_def split: option.splits)

lemma wf_scns_shape:
  "list_all (\<lambda>sc. list_all wf_block (scn_data sc)) ss \<longleftrightarrow>
   list_all (list_all (\<lambda>(_, off, sz, l). unat off + unat sz < 2 ^ 64
     \<and> (l = None \<or> l = Some (unat sz)))) (map scn_shape ss)"
  by (simp add: wf_block_shape [abs_def] scn_shape_def [abs_def] list.pred_map comp_def)

lemma same_shape_wf:
  assumes "same_shape d e" and "wf_dso d" and "lastscn e < unat (e_shnum (ehdr d))"
  shows "wf_dso e"
  using assms same_shape_fields [OF assms(1)]
  by (simp add: wf_dso_def same_shape_def wf_scns_shape)

section \<open>Storing bytes\<close>

lemma store_shape:
  assumes "deref d p = Some bs" and "length bs' = length bs"
  shows "same_shape d (store d p bs')"
proof -
  obtain sc b buf where 1: "dp_sec p < length (scn d)" "sc = scn d ! dp_sec p"
    "dp_blk p < length (scn_data sc)" "b = scn_data sc ! dp_blk p"
    "d_buf b = Some buf" "dp_off p \<le> length buf" "bs = drop (dp_off p) buf"
    using assms(1) by (auto simp: deref_def opt_simps)
  then have "block_shape (put_bytes (dp_off p) bs' b) = block_shape b"
    using assms(2) by (simp add: block_shape_def put_bytes_def)
  then have "scn_shape (sc\<lparr>scn_data := (scn_data sc)[dp_blk p := put_bytes (dp_off p) bs' b]\<rparr>)
      = scn_shape sc"
    using 1 by (simp add: scn_shape_def map_list_update_same)
  then show ?thesis
    using 1 by (simp add: same_shape_def store_def map_list_update_same)
qed

lemma flagscn_shape [simp]: "same_shape d (elf_flagscn_dirty d s)"
  by (simp add: same_shape_def elf_flagscn_dirty_def map_list_update_same scn_shape_def)

lemma deref_flagscn [simp]: "deref (elf_flagscn_dirty d s) p = deref d p"
  by (cases "s < length (scn d)") (auto simp: deref_def elf_flagscn_dirty_def nth_opt_def nth_list_update)

lemma deref_touch [simp]: "deref (touch d a) p = deref d p"
  by (simp add: deref_def)

lemma deref_store_block:
  assumes "deref d p = Some bs"
  shows "deref (store d p bs') q =
    (if dp_sec q = dp_sec p \<and> dp_blk q = dp_blk p then
       (let buf' = take (dp_off p) (the (d_buf (scn_data (scn d ! dp_sec p) ! dp_blk p))) @ bs' in
        if dp_off q \<le> length buf' then Some (drop (dp_off q) buf') else None)
     else deref d q)"
  using assms
  by (auto simp: deref_def store_def put_bytes_def nth_opt_def nth_list_update guard_opt_def Let_def
      opt_simps split: if_splits)

lemma deref_store_same:
  assumes "deref d p = Some bs"
  shows "deref (store d p bs') p = Some bs'"
proof -
  obtain buf where "d_buf (scn_data (scn d ! dp_sec p) ! dp_blk p) = Some buf" "dp_off p \<le> length buf"
    using assms by (auto simp: deref_def opt_simps)
  then show ?thesis by (simp add: deref_store_block [OF assms] Let_def)
qed

section \<open>The image as bytes at addresses\<close>

text \<open>\<open>bytes_at d a n\<close>: the \<open>n\<close> bytes at address \<open>a\<close> with the type of their block, when they
  all lie in one block.\<close>

definition bytes_at :: "dso \<Rightarrow> u64 \<Rightarrow> nat \<Rightarrow> (elf_type \<times> u8 list) option" where
  "bytes_at d a n = do {
     p \<leftarrow> locate d a;
     bs \<leftarrow> deref d p;
     _ \<leftarrow> guard_opt (n \<le> length bs);
     Some (dp_type p, take n bs)
   }"

lemma find_block_Some:
  "find_block bs a k = Some (i, b) \<Longrightarrow>
     \<exists>m < length bs. i = k + m \<and> b = bs ! m \<and> d_off b \<le> a \<and> d_off b + d_size b > a"
proof (induction bs arbitrary: k)
  case (Cons c bs)
  show ?case
  proof (cases "d_off c \<le> a \<and> d_off c + d_size c > a")
    case True
    then show ?thesis using Cons.prems by (intro exI [of _ 0]) auto
  next
    case False
    then obtain m where "m < length bs" "i = Suc k + m" "b = bs ! m" "d_off b \<le> a"
      "d_off b + d_size b > a"
      using Cons.IH [of "Suc k"] Cons.prems by auto
    then show ?thesis by (intro exI [of _ "Suc m"]) simp
  qed
qed simp

lemma locate_off:
  assumes "wf_dso d" and "locate d a = Some p"
  shows "unat a = dp_off p + unat (sh_addr (shdr d ! dp_sec p))
     + unat (d_off (scn_data (scn d ! dp_sec p) ! dp_blk p))"
proof -
  obtain i k b where i: "sec_of d a = Some i"
    and f: "find_block (scn_data (scn d ! i)) (a - sh_addr (shdr d ! i)) 0 = Some (k, b)"
    and p: "p = \<lparr>dp_sec = i, dp_blk = k, dp_off = unat (a - sh_addr (shdr d ! i) - d_off b),
      dp_type = d_type b\<rparr>"
    using assms(2) by (auto simp: locate_def split: option.splits)
  from find_block_Some [OF f] have b: "b = scn_data (scn d ! i) ! k"
    and o: "d_off b \<le> a - sh_addr (shdr d ! i)"
    by auto
  have "sh_addr (shdr d ! i) \<le> a"
    using i assms(1) by (auto simp: sec_of_iff sec_holds_def)
  then have "unat (a - sh_addr (shdr d ! i)) = unat a - unat (sh_addr (shdr d ! i))"
    and "unat (sh_addr (shdr d ! i)) \<le> unat a"
    by (simp_all add: unat_sub word_le_nat_alt)
  moreover have "unat (a - sh_addr (shdr d ! i) - d_off b)
      = unat (a - sh_addr (shdr d ! i)) - unat (d_off b)"
    and "unat (d_off b) \<le> unat (a - sh_addr (shdr d ! i))"
    using o by (simp_all add: unat_sub word_le_nat_alt)
  ultimately show ?thesis by (simp add: p flip: b)
qed

lemma bytes_at_touch [simp]: "bytes_at (touch d b) a n = bytes_at d a n"
  by (simp add: bytes_at_def)

text \<open>Overwriting \<open>n\<close> bytes at one address leaves the bytes of a disjoint range alone.\<close>

lemma store_frame:
  assumes "wf_dso d" and p: "locate d a = Some p" and bs: "deref d p = Some bs"
    and bs': "length bs' = length bs" "drop n bs' = drop n bs"
    and loc: "locate (store d p bs') b = locate d b"
    and disj: "unat a + n \<le> unat b \<or> unat b + m \<le> unat a"
  shows "bytes_at (store d p bs') b m = bytes_at d b m"
proof (cases "locate d b")
  case None
  then show ?thesis by (simp add: bytes_at_def loc)
next
  case (Some q)
  show ?thesis
  proof (cases "dp_sec q = dp_sec p \<and> dp_blk q = dp_blk p")
    case False
    then have "deref (store d p bs') q = deref d q"
      using deref_store_block [OF bs, of bs' q] by (simp only: if_False)
    then show ?thesis by (simp add: bytes_at_def loc Some)
  next
    case True
    obtain buf where buf: "d_buf (scn_data (scn d ! dp_sec p) ! dp_blk p) = Some buf"
      "dp_off p \<le> length buf" "bs = drop (dp_off p) buf"
      using bs by (auto simp: deref_def opt_simps)
    let ?buf' = "take (dp_off p) buf @ bs'"
    have len: "length ?buf' = length buf" using buf bs'(1) by simp
    have off: "dp_off p + n \<le> dp_off q \<or> dp_off q + m \<le> dp_off p"
      using locate_off [OF assms(1) p] locate_off [OF assms(1) Some] True disj by simp
    have nth: "?buf' ! i = buf ! i" if "i < length buf" "i < dp_off p \<or> dp_off p + n \<le> i" for i
    proof (cases "i < dp_off p")
      case False
      define k where "k = i - dp_off p - n"
      have "i - dp_off p = n + k" using False that by (simp add: k_def)
      then have "bs' ! (i - dp_off p) = drop n bs' ! k" and "bs ! (i - dp_off p) = drop n bs ! k"
        using that buf bs'(1) by (simp_all add: ac_simps)
      then have "bs' ! (i - dp_off p) = bs ! (i - dp_off p)" using bs'(2) by simp
      then show ?thesis using False that buf by (simp add: nth_append)
    qed (use that buf in \<open>simp add: nth_append\<close>)
    have "take m (drop (dp_off q) ?buf') = take m (drop (dp_off q) buf)"
      using off by (intro take_drop_cong len nth) auto
    moreover have "deref d q = (if dp_off q \<le> length buf then Some (drop (dp_off q) buf) else None)"
      using bs buf True by (auto simp: deref_def opt_simps guard_opt_def)
    ultimately show ?thesis
      using True buf len
      by (auto simp: bytes_at_def loc Some deref_store_block [OF bs] Let_def guard_opt_def)
  qed
qed

section \<open>The contract of a memory cell\<close>

text \<open>
  A cell is \<open>n\<close> bytes read and written through a codec for byte sections and a codec for sections
  held in host order. The lemmas are proved once here and hold for the 8, 16, 32 and 64 bit
  accessors of either byte order.
\<close>

locale mem_cell =
  fixes n :: nat
    and enc :: "'w::zero \<Rightarrow> u8 list"
    and rd :: "u8 list \<Rightarrow> 'w option"
    and wr :: "u8 list \<Rightarrow> 'w \<Rightarrow> u8 list option"
    and henc :: "bool \<Rightarrow> 'w \<Rightarrow> u8 list"
    and ld :: "bool \<Rightarrow> u8 list \<Rightarrow> 'w option"
    and st :: "bool \<Rightarrow> u8 list \<Rightarrow> 'w \<Rightarrow> u8 list option"
  assumes tgt: "buf_codec n enc rd wr"
    and host: "buf_codec n (henc lsb) (ld lsb) (st lsb)"
begin

lemma sel: "buf_codec n (if b then enc else henc lsb) (if b then rd else ld lsb)
    (if b then wr else st lsb)"
  using tgt host by simp

lemma read_eq:
  assumes "wf_dso d"
  shows "uread rd ld d a = (case locate d a of None \<Rightarrow> Some (0, touch d a)
    | Some p \<Rightarrow> do { bs \<leftarrow> deref d p;
        v \<leftarrow> (if dp_type p = ELF_T_BYTE then rd else ld (host_lsb d)) bs; Some (v, touch d a) })"
  using assms by (auto simp: uread_def get_data_eq split: option.splits)

lemma write_eq:
  assumes "wf_dso d"
  shows "dwrite wr st d a v = (case locate d a of None \<Rightarrow> Some (- 1, touch d a)
    | Some p \<Rightarrow> do { bs \<leftarrow> deref d p;
        bs' \<leftarrow> (if dp_type p = ELF_T_BYTE then wr else st (host_lsb d)) bs v;
        Some (0, elf_flagscn_dirty (store (touch d a) p bs') (dp_sec p)) })"
  using assms by (auto simp: dwrite_def get_data_eq split: option.splits)

lemma read_keeps:
  assumes "wf_dso d" and "uread rd ld d a = Some (v, d')"
  shows "d' = touch d a \<and> wf_dso d' \<and> same_shape d d' \<and> scn d' = scn d"
  using assms by (auto simp: read_eq opt_simps split: option.splits)

lemma write_ok:
  assumes "wf_dso d" and "dwrite wr st d a v = Some (r, d')" and "locate d a = Some p"
  obtains bs bs' where "r = 0" "deref d p = Some bs" "n \<le> length bs"
    "(if dp_type p = ELF_T_BYTE then wr else st (host_lsb d)) bs v = Some bs'"
    "length bs' = length bs" "drop n bs' = drop n bs"
    "d' = elf_flagscn_dirty (store (touch d a) p bs') (dp_sec p)"
proof -
  let ?w = "if dp_type p = ELF_T_BYTE then wr else st (host_lsb d)"
  note c = sel [of "dp_type p = ELF_T_BYTE" "host_lsb d"]
  obtain bs bs' where 1: "r = 0" "deref d p = Some bs" "?w bs v = Some bs'"
    "d' = elf_flagscn_dirty (store (touch d a) p bs') (dp_sec p)"
    using assms by (auto simp: write_eq opt_simps)
  moreover have "n \<le> length bs" using 1(3) buf_codec.wr_enc [OF c, of bs v] by (auto split: if_splits)
  ultimately show thesis using that buf_codec.wr_shape [OF c 1(3)] by blast
qed

lemma write_keeps:
  assumes "wf_dso d" and "dwrite wr st d a v = Some (r, d')"
  shows "wf_dso d' \<and> same_shape d d' \<and> (r = 0 \<or> r = - 1 \<and> scn d' = scn d)"
proof (cases "locate d a")
  case None
  then show ?thesis using assms by (auto simp: write_eq)
next
  case (Some p)
  from write_ok [OF assms Some] obtain bs bs' where 1: "r = 0" "deref d p = Some bs"
    "length bs' = length bs" "d' = elf_flagscn_dirty (store (touch d a) p bs') (dp_sec p)"
    by metis
  have "same_shape (touch d a) (store (touch d a) p bs')"
    using 1 by (intro store_shape [of _ _ bs]) simp_all
  then have s: "same_shape d d'"
    unfolding 1(4)
    by (rule same_shape_trans [OF same_shape_trans [OF same_shape_touch(1)] flagscn_shape])
  have "lastscn d' = lastscn (touch d a)" by (simp add: 1(4) elf_flagscn_dirty_def store_def)
  then have "lastscn d' < unat (e_shnum (ehdr d))"
    using wf_touch [OF assms(1), of a] by (simp add: wf_dso_def)
  then show ?thesis using same_shape_wf [OF s assms(1)] s 1(1) by simp
qed

lemma write_locate:
  assumes "wf_dso d" and "dwrite wr st d a v = Some (r, d')"
  shows "locate d' b = locate d b"
  using same_shape_locate write_keeps [OF assms] assms(1) by (simp add: wf_dso_def)

lemma write_bytes:
  assumes "wf_dso d" and "dwrite wr st d a v = Some (0, d')"
  shows "\<exists>t. bytes_at d' a n = Some (t, (if t = ELF_T_BYTE then enc v else henc (host_lsb d) v))"
proof (cases "locate d a")
  case None
  then show ?thesis using assms by (auto simp: write_eq)
next
  case (Some p)
  note c = sel [of "dp_type p = ELF_T_BYTE" "host_lsb d"]
  from write_ok [OF assms Some] obtain bs bs' where 1: "deref d p = Some bs" "n \<le> length bs"
    "(if dp_type p = ELF_T_BYTE then wr else st (host_lsb d)) bs v = Some bs'"
    "length bs' = length bs" "d' = elf_flagscn_dirty (store (touch d a) p bs') (dp_sec p)"
    by metis
  have "deref d' p = Some bs'" using 1 by (simp add: deref_store_same)
  moreover have "take n bs' = (if dp_type p = ELF_T_BYTE then enc v else henc (host_lsb d) v)"
    using 1(2,3) buf_codec.wr_enc [OF c, of bs v] buf_codec.enc_length [OF c, of v] by auto
  ultimately show ?thesis
    using write_locate [OF assms, of a] Some 1(2,4) by (simp add: bytes_at_def)
qed

lemma write_frame:
  assumes "wf_dso d" and w: "dwrite wr st d a v = Some (r, d')"
    and disj: "unat a + n \<le> unat b \<or> unat b + m \<le> unat a"
  shows "bytes_at d' b m = bytes_at d b m"
proof (cases "locate d a")
  case None
  then show ?thesis using assms by (auto simp: write_eq)
next
  case (Some p)
  from write_ok [OF assms(1) w Some] obtain bs bs' where 1: "deref d p = Some bs"
    "length bs' = length bs" "drop n bs' = drop n bs"
    "d' = elf_flagscn_dirty (store (touch d a) p bs') (dp_sec p)"
    by metis
  let ?s = "store (touch d a) p bs'"
  have t: "wf_dso (touch d a)" using assms(1) by simp
  have s: "same_shape (touch d a) ?s"
    using 1 by (intro store_shape [of _ _ bs]) simp_all
  have l: "locate ?s b = locate (touch d a) b" for b
    using same_shape_locate [OF s] t by (simp add: wf_dso_def)
  have p': "locate (touch d a) a = Some p" and q: "deref (touch d a) p = Some bs"
    using Some 1(1) by simp_all
  have "bytes_at ?s b m = bytes_at (touch d a) b m"
    by (rule store_frame [OF t p' q 1(2,3) l disj])
  moreover have "locate d' b = locate ?s b"
    using l [of b] write_locate [OF assms(1) w, of b] by simp
  ultimately show ?thesis using 1(4) by (simp add: bytes_at_def)
qed

lemma read_bytes:
  assumes "wf_dso d" and "bytes_at d a n = Some (t, bs)"
  shows "uread rd ld d a = map_option (\<lambda>v. (v, touch d a))
    ((if t = ELF_T_BYTE then rd else ld (host_lsb d)) bs)"
proof -
  obtain p cs where 1: "locate d a = Some p" "deref d p = Some cs" "n \<le> length cs"
    "t = dp_type p" "bs = take n cs"
    using assms(2) by (auto simp: bytes_at_def opt_simps)
  note c = sel [of "dp_type p = ELF_T_BYTE" "host_lsb d"]
  have "(if t = ELF_T_BYTE then rd else ld (host_lsb d)) bs
      = (if dp_type p = ELF_T_BYTE then rd else ld (host_lsb d)) cs"
    using buf_codec.rd_take [OF c, of n cs] 1 by simp
  then show ?thesis using assms(1) 1 by (auto simp: read_eq bind_Some_map)
qed

lemma write_read:
  assumes "wf_dso d" and "dwrite wr st d a v = Some (0, d')"
  shows "uread rd ld d' a = Some (v, touch d' a)"
proof -
  obtain t where t: "bytes_at d' a n = Some (t, (if t = ELF_T_BYTE then enc v else henc (host_lsb d) v))"
    using write_bytes [OF assms] by blast
  have w: "wf_dso d'" and h: "host_lsb d' = host_lsb d"
    using write_keeps [OF assms] same_shape_fields by auto
  show ?thesis
    using read_bytes [OF w t] h buf_codec.rd_enc [OF tgt, of v "[]"] buf_codec.rd_enc [OF host, of _ v "[]"]
    by auto
qed

lemma read_frame:
  assumes "wf_dso d" and "wf_dso d'" and "host_lsb d' = host_lsb d"
    and "bytes_at d' a n = bytes_at d a n" and "bytes_at d a n \<noteq> None"
    and "uread rd ld d a = Some (v, e)"
  shows "uread rd ld d' a = Some (v, touch d' a)"
  using assms read_bytes [OF assms(1)] read_bytes [OF assms(2)] by auto

end

section \<open>The accessors as cells\<close>

definition host_bytes16 :: "bool \<Rightarrow> u16 \<Rightarrow> u8 list" where
  "host_bytes16 lsb v = (if lsb then le16_bytes v else rev (le16_bytes v))"
definition host_bytes32 :: "bool \<Rightarrow> u32 \<Rightarrow> u8 list" where
  "host_bytes32 lsb v = (if lsb then le32_bytes v else rev (le32_bytes v))"
definition host_bytes64 :: "bool \<Rightarrow> u64 \<Rightarrow> u8 list" where
  "host_bytes64 lsb v = (if lsb then le64_bytes v else rev (le64_bytes v))"

lemma host_codec8: "buf_codec 1 u8_bytes (host_ld8 lsb) (host_st8 lsb)"
  unfolding host_ld8_def host_st8_def by (rule b8.buf_codec_axioms)

lemma host_codec16: "buf_codec 2 (host_bytes16 lsb) (host_ld16 lsb) (host_st16 lsb)"
  by (cases lsb) (simp_all add: host_ld16_def host_st16_def host_bytes16_def [abs_def]
      le16.buf_codec_axioms be16.buf_codec_axioms)

lemma host_codec32: "buf_codec 4 (host_bytes32 lsb) (host_ld32 lsb) (host_st32 lsb)"
  by (cases lsb) (simp_all add: host_ld32_def host_st32_def host_bytes32_def [abs_def]
      le32.buf_codec_axioms be32.buf_codec_axioms)

lemma host_codec64: "buf_codec 8 (host_bytes64 lsb) (host_ld64 lsb) (host_st64 lsb)"
  by (cases lsb) (simp_all add: host_ld64_def host_st64_def host_bytes64_def [abs_def]
      le64.buf_codec_axioms be64.buf_codec_axioms)

interpretation m8: mem_cell 1 u8_bytes buf_read_u8 buf_write_8 "\<lambda>_. u8_bytes" host_ld8 host_st8
  by (intro mem_cell.intro b8.buf_codec_axioms host_codec8)

interpretation mle16: mem_cell 2 le16_bytes buf_read_ule16 buf_write_le16
    host_bytes16 host_ld16 host_st16
  by (intro mem_cell.intro le16.buf_codec_axioms host_codec16)

interpretation mbe16: mem_cell 2 "\<lambda>v. rev (le16_bytes v)" buf_read_ube16 buf_write_be16
    host_bytes16 host_ld16 host_st16
  by (intro mem_cell.intro be16.buf_codec_axioms host_codec16)

interpretation mle32: mem_cell 4 le32_bytes buf_read_ule32 buf_write_le32
    host_bytes32 host_ld32 host_st32
  by (intro mem_cell.intro le32.buf_codec_axioms host_codec32)

interpretation mbe32: mem_cell 4 "\<lambda>v. rev (le32_bytes v)" buf_read_ube32 buf_write_be32
    host_bytes32 host_ld32 host_st32
  by (intro mem_cell.intro be32.buf_codec_axioms host_codec32)

interpretation mle64: mem_cell 8 le64_bytes buf_read_ule64 buf_write_le64
    host_bytes64 host_ld64 host_st64
  by (intro mem_cell.intro le64.buf_codec_axioms host_codec64)

interpretation mbe64: mem_cell 8 "\<lambda>v. rev (le64_bytes v)" buf_read_ube64 buf_write_be64
    host_bytes64 host_ld64 host_st64
  by (intro mem_cell.intro be64.buf_codec_axioms host_codec64)

end
