(* ===== verification/Sample.thy ===== *)
theory Sample
  imports ElfData
begin

text \<open>
  One small well-formed 64-bit little-endian object, on which the properties of the other theories
  are evaluated: a \<^verbatim>\<open>.plt\<close> at \<^term>\<open>0x400 :: u64\<close>, a \<^verbatim>\<open>.got.plt\<close> of eight words at
  \<^term>\<open>0x1000 :: u64\<close>, a \<^verbatim>\<open>.dynamic\<close> at \<^term>\<open>0x2000 :: u64\<close> and a section name table.
\<close>

definition sample_bytes :: "string \<Rightarrow> u8 list" where
  "sample_bytes cs = map of_char cs"

definition sample_shstrtab :: "u8 list" where
  "sample_shstrtab = 0 # sample_bytes ''.plt'' @ 0 # sample_bytes ''.got.plt''
     @ 0 # sample_bytes ''.dynamic'' @ [0]"

definition sample_shdr :: "u32 \<Rightarrow> u32 \<Rightarrow> u64 \<Rightarrow> u64 \<Rightarrow> u64 \<Rightarrow> elf_shdr" where
  "sample_shdr nm ty fl addr sz = \<lparr>sh_name = nm, sh_type = ty, sh_flags = fl, sh_addr = addr,
     sh_offset = addr, sh_size = sz, sh_link = 0, sh_info = 0, sh_addralign = 8, sh_entsize = 0\<rparr>"

definition sample_scn :: "u8 list \<Rightarrow> elf_scn" where
  "sample_scn bs = \<lparr>scn_data = [\<lparr>d_type = ELF_T_BYTE, d_off = 0, d_size = of_nat (length bs),
     d_buf = Some bs\<rparr>], scn_dirty = False\<rparr>"

definition sample_ehdr :: "elf_ehdr" where
  "sample_ehdr = \<lparr>ei_class = ELFCLASS64, ei_data = ELFDATA2LSB, e_type = ET_DYN, e_machine = 62,
     e_entry = 0, e_phoff = 0, e_shoff = 0, e_flags = 0, e_phnum = 0, e_shnum = 5,
     e_shstrndx = 4\<rparr>"

definition sample_dso :: dso where
  "sample_dso = \<lparr>dso_ptr = 0x10, host_lsb = True, ehdr = sample_ehdr, phdr = [],
     scn = [\<lparr>scn_data = [], scn_dirty = False\<rparr>, sample_scn (replicate 64 0x90),
            sample_scn (replicate 64 0), sample_scn (replicate 32 0), sample_scn sample_shstrtab],
     shdr = [sample_shdr 0 0 0 0 0, sample_shdr 1 1 6 0x400 64, sample_shdr 6 1 3 0x1000 64,
             sample_shdr 15 6 3 0x2000 32, sample_shdr 0 3 0 0 24],
     dso_base = 0, dso_end = 0x3000, dso_align = 0x1000, info = (\<lambda>_. 0)(3 := 0x1000),
     info_DT_GNU_PRELINKED = 0, info_DT_CHECKSUM = 0, info_DT_VERNEED = 0, info_DT_VERDEF = 0,
     info_DT_VERSYM = 0, info_DT_GNU_HASH = 0, info_DT_TLSDESC_PLT = 0,
     info_DT_MIPS_LOCAL_GOTNO = 0, info_DT_MIPS_GOTSYM = 0, info_DT_MIPS_SYMTABNO = 0,
     info_DT_MIPS_PLTGOT = 0, info_set_mask = 8, lastscn = 0, dynamic = 3,
     filename = ''sample'', adjust = None, permissive = False\<rparr>"

lemmas sample_defs =
  sample_bytes_def sample_shstrtab_def sample_shdr_def sample_scn_def sample_ehdr_def sample_dso_def

lemma sample_upt: "[0..<5] = [0, 1, 2, 3, 4 :: nat]"
  by code_simp

lemma sample_shnum [simp]: "e_shnum (ehdr sample_dso) = 5"
  by (simp add: sample_defs)

lemma wf_sample_dso [simp]: "wf_dso sample_dso"
  by (simp add: wf_dso_def sample_upt sample_defs sec_disj_def sec_live_def RELOCATE_SCN_def
      elf_consts wf_block_def)

end
