(* ===== verification/DataProps.thy ===== *)
theory DataProps
  imports Sample
begin

text \<open>
  The properties of the image accessors of \<^verbatim>\<open>src/data.c\<close> and of \<^verbatim>\<open>addr_to_sec\<close>, with their
  evaluations on the sample object.
\<close>

lemmas access_exec =
  dwrite_def uread_def get_data_def addr_to_sec_def sec_holds_def RELOCATE_SCN_def elf_consts
  nth_opt_def guard_opt_def deref_def store_def put_bytes_def elf_flagscn_dirty_def
  buf_write_defs buf_read_defs sample_defs

section \<open>Reads and writes in the byte order of the object\<close>

lemma read_ne_unfold:
  "read_une32 d a = uread (if ei_data (ehdr d) = ELFDATA2LSB then buf_read_ule32 else buf_read_ube32)
     host_ld32 d a"
  "read_une64 d a = uread (if ei_data (ehdr d) = ELFDATA2LSB then buf_read_ule64 else buf_read_ube64)
     host_ld64 d a"
  by (simp_all add: read_une32_def read_une64_def read_ule32_def read_ube32_def read_ule64_def
      read_ube64_def)

lemma write_ne_unfold:
  "write_ne32 d a v = dwrite (if ei_data (ehdr d) = ELFDATA2LSB then buf_write_le32 else buf_write_be32)
     host_st32 d a v"
  "write_ne64 d a w = dwrite (if ei_data (ehdr d) = ELFDATA2LSB then buf_write_le64 else buf_write_be64)
     host_st64 d a w"
  by (simp_all add: write_ne32_def write_ne64_def write_le32_def write_be32_def write_le64_def
      write_be64_def)

lemma cell_ne32: "mem_cell 4 (\<lambda>v. if lsb then le32_bytes v else rev (le32_bytes v))
    (if lsb then buf_read_ule32 else buf_read_ube32) (if lsb then buf_write_le32 else buf_write_be32)
    host_bytes32 host_ld32 host_st32"
  using mle32.mem_cell_axioms mbe32.mem_cell_axioms by simp

lemma cell_ne64: "mem_cell 8 (\<lambda>v. if lsb then le64_bytes v else rev (le64_bytes v))
    (if lsb then buf_read_ule64 else buf_read_ube64) (if lsb then buf_write_le64 else buf_write_be64)
    host_bytes64 host_ld64 host_st64"
  using mle64.mem_cell_axioms mbe64.mem_cell_axioms by simp

text \<open>C5: for every address of a well-formed object, \<^verbatim>\<open>addr_to_sec\<close> returns the unique section of
  the section table that holds the address and -1 exactly when there is none, whatever the
  \<^verbatim>\<open>lastscn\<close> cache held before; it changes nothing but the cache, and keeps the object well formed.\<close>

theorem addr_to_sec_correct:
  assumes "wf_dso d"
  shows "\<exists>sec d'. addr_to_sec d addr = Some (sec, d')
     \<and> (\<forall>i. sec = Some i \<longleftrightarrow> i < unat (e_shnum (ehdr d)) \<and> sec_holds (shdr d ! i) addr)
     \<and> d' = d\<lparr>lastscn := (case sec of None \<Rightarrow> lastscn d | Some i \<Rightarrow> i)\<rparr> \<and> wf_dso d'"
proof (intro exI conjI allI)
  show "addr_to_sec d addr = Some (sec_of d addr, touch d addr)"
    using assms by (rule addr_to_sec_eq)
  show "sec_of d addr = Some i \<longleftrightarrow> i < unat (e_shnum (ehdr d)) \<and> sec_holds (shdr d ! i) addr" for i
    using assms by (rule sec_of_iff)
  show "touch d addr = d\<lparr>lastscn := (case sec_of d addr of None \<Rightarrow> lastscn d | Some i \<Rightarrow> i)\<rparr>"
    by (simp add: touch_def split: option.split)
  show "wf_dso (touch d addr)" using assms by (rule wf_touch)
qed

theorem addr_to_sec_correct_witness:
  "\<exists>d'. addr_to_sec sample_dso 0x1008 = Some (Some 2, d') \<and> lastscn d' = 2 \<and> wf_dso d'"
proof -
  obtain sec d' where "addr_to_sec sample_dso 0x1008 = Some (sec, d')"
    "sec = Some 2 \<longleftrightarrow> 2 < unat (e_shnum (ehdr sample_dso)) \<and> sec_holds (shdr sample_dso ! 2) 0x1008"
    "d' = sample_dso\<lparr>lastscn := (case sec of None \<Rightarrow> lastscn sample_dso | Some i \<Rightarrow> i)\<rparr>" "wf_dso d'"
    using addr_to_sec_correct [OF wf_sample_dso, where addr = "0x1008"] by blast
  then show ?thesis by (auto simp: sec_holds_def RELOCATE_SCN_def elf_consts sample_defs)
qed

text \<open>C6: a 64-bit write in the byte order of the object that reports success is read back at the
  same address with the written value; every range of bytes disjoint from the eight written ones
  keeps its contents, no header or block boundary changes, and the object stays well formed. A
  write that reports failure changes no byte at all.\<close>

theorem write_ne64_correct:
  assumes "wf_dso d" and "write_ne64 d a v = Some (r, d')"
  shows "wf_dso d' \<and> same_shape d d' \<and> (r = 0 \<or> r = - 1 \<and> scn d' = scn d)
     \<and> (r = 0 \<longrightarrow> (\<exists>d''. read_une64 d' a = Some (v, d'')))
     \<and> (\<forall>b m. unat a + 8 \<le> unat b \<or> unat b + m \<le> unat a \<longrightarrow> bytes_at d' b m = bytes_at d b m)"
proof -
  note w = assms(2) [unfolded write_ne_unfold]
  note c = cell_ne64 [of "ei_data (ehdr d) = ELFDATA2LSB"]
  have k: "wf_dso d' \<and> same_shape d d' \<and> (r = 0 \<or> r = - 1 \<and> scn d' = scn d)"
    by (rule mem_cell.write_keeps [OF c assms(1) w])
  then have "ehdr d' = ehdr d" by (simp add: same_shape_fields)
  then have "\<exists>d''. read_une64 d' a = Some (v, d'')" if "r = 0"
    using mem_cell.write_read [OF c assms(1) w [unfolded that]] by (simp add: read_ne_unfold)
  then show ?thesis using k mem_cell.write_frame [OF c assms(1) w] by blast
qed

theorem write_ne64_correct_witness:
  "\<exists>d' d''. write_ne64 sample_dso 0x1008 0x1122334455667788 = Some (0, d')
     \<and> read_une64 d' 0x1008 = Some (0x1122334455667788, d'')
     \<and> bytes_at d' 0x1010 8 = bytes_at sample_dso 0x1010 8"
proof -
  obtain d' where w: "write_ne64 sample_dso 0x1008 0x1122334455667788 = Some (0, d')"
    by (simp add: write_ne64_def write_le64_def access_exec)
  from write_ne64_correct [OF wf_sample_dso w] w show ?thesis by auto
qed

text \<open>The same for 32-bit writes.\<close>

theorem write_ne32_correct:
  assumes "wf_dso d" and "write_ne32 d a v = Some (r, d')"
  shows "wf_dso d' \<and> same_shape d d' \<and> (r = 0 \<or> r = - 1 \<and> scn d' = scn d)
     \<and> (r = 0 \<longrightarrow> (\<exists>d''. read_une32 d' a = Some (v, d'')))
     \<and> (\<forall>b m. unat a + 4 \<le> unat b \<or> unat b + m \<le> unat a \<longrightarrow> bytes_at d' b m = bytes_at d b m)"
proof -
  note w = assms(2) [unfolded write_ne_unfold]
  note c = cell_ne32 [of "ei_data (ehdr d) = ELFDATA2LSB"]
  have k: "wf_dso d' \<and> same_shape d d' \<and> (r = 0 \<or> r = - 1 \<and> scn d' = scn d)"
    by (rule mem_cell.write_keeps [OF c assms(1) w])
  then have "ehdr d' = ehdr d" by (simp add: same_shape_fields)
  then have "\<exists>d''. read_une32 d' a = Some (v, d'')" if "r = 0"
    using mem_cell.write_read [OF c assms(1) w [unfolded that]] by (simp add: read_ne_unfold)
  then show ?thesis using k mem_cell.write_frame [OF c assms(1) w] by blast
qed

theorem write_ne32_correct_witness:
  "\<exists>d' d''. write_ne32 sample_dso 0x1004 0x11223344 = Some (0, d')
     \<and> read_une32 d' 0x1004 = Some (0x11223344, d'')
     \<and> bytes_at d' 0x1000 4 = bytes_at sample_dso 0x1000 4"
proof -
  obtain d' where w: "write_ne32 sample_dso 0x1004 0x11223344 = Some (0, d')"
    by (simp add: write_ne32_def write_le32_def access_exec)
  from write_ne32_correct [OF wf_sample_dso w] w show ?thesis by auto
qed

section \<open>The data iterator\<close>

text \<open>A live iterator stands at the offset of its address in the section of its block.\<close>

definition it_ok :: "dso \<Rightarrow> data_iterator \<Rightarrow> bool" where
  "it_ok d it \<longleftrightarrow> (case it_data it of None \<Rightarrow> True | Some k \<Rightarrow>
     (case it_sec it of None \<Rightarrow> False | Some sec \<Rightarrow>
        sec < length (scn d) \<and> sec < length (shdr d) \<and> k < length (scn_data (scn d ! sec))
        \<and> sh_addr (shdr d ! sec) \<le> it_addr it
        \<and> it_sec_offset it = it_addr it - sh_addr (shdr d ! sec)))"

lemma skip_blocks_Some:
  "skip_blocks bs off k = Some i \<Longrightarrow> k \<le> i \<and> i < k + length bs"
  by (induction bs arbitrary: k) (fastforce split: if_splits)+

lemma it_leave_block_ok:
  assumes "it_ok d it"
  shows "\<exists>it'. it_leave_block d it = Some it' \<and> it_ok d it' \<and> it_addr it' = it_addr it"
  using assms
  by (auto simp: it_ok_def it_leave_block_def elf_nextdata_def Let_def split: option.splits)

lemma it_find_block_ok:
  assumes "wf_dso d" and "it_ok d it" and "it_find_block d it = Some (f, it', d')"
  shows "it_ok d' it' \<and> it_addr it' = it_addr it \<and> shdr d' = shdr d \<and> scn d' = scn d \<and> wf_dso d'"
proof (cases "it_data it")
  case (Some k)
  then show ?thesis using assms by (auto simp: it_find_block_def)
next
  case None
  show ?thesis
  proof (cases "sec_of d (it_addr it)")
    case None': None
    then show ?thesis
      using assms None by (auto simp: it_find_block_def addr_to_sec_eq it_ok_def)
  next
    case (Some i)
    then have i: "i < length (shdr d)" "i < length (scn d)" "sh_addr (shdr d ! i) \<le> it_addr it"
      using sec_of_iff [OF assms(1)] assms(1) by (auto simp: wf_dso_def sec_holds_def)
    then show ?thesis
      using assms None Some
      by (auto dest!: skip_blocks_Some simp: it_find_block_def addr_to_sec_eq it_ok_def Let_def split: option.splits)
  qed
qed



end
