(* ===== verification/RelocInfo.thy ===== *)
theory RelocInfo
  imports Sample
begin

text \<open>
  Relocation records and \<^verbatim>\<open>src/reloc-info.c\<close>: the packing of symbol index and relocation types in
  \<^verbatim>\<open>r_info\<close>, which on 64-bit MIPS is a structure of bytes and everywhere else the generic ELF
  64-bit form. The lemmas show that what is packed is what is read back, for every class, machine
  and byte order.
\<close>

section \<open>Relocation records\<close>

record elf_rel =
  r_offset :: u64
  r_info :: u64

record elf_rela =
  ra_offset :: u64
  ra_info :: u64
  ra_addend :: u64

definition GELF_R_SYM :: "u64 \<Rightarrow> u64" where
  "GELF_R_SYM i = drop_bit 32 i"

definition GELF_R_TYPE :: "u64 \<Rightarrow> u64" where
  "GELF_R_TYPE i = i AND 0xffffffff"

definition GELF_R_INFO :: "u64 \<Rightarrow> u64 \<Rightarrow> u64" where
  "GELF_R_INFO s t = push_bit 32 s + t"

definition EM_MIPS :: u16 where "EM_MIPS = 8"
definition RSS_UNDEF :: u8 where "RSS_UNDEF = 0"
definition R_MIPS_NONE :: u8 where "R_MIPS_NONE = 0"
definition R_MIPS_REL32 :: u32 where "R_MIPS_REL32 = 3"
definition R_MIPS_64 :: u8 where "R_MIPS_64 = 18"
definition R_MIPS_GLOB_DAT :: u32 where "R_MIPS_GLOB_DAT = 51"

section \<open>The 64-bit MIPS form\<close>

text \<open>The eight bytes of \<^verbatim>\<open>union mips64_r_info\<close>: four of \<^verbatim>\<open>r_sym\<close>, then \<^verbatim>\<open>r_ssym\<close>, \<^verbatim>\<open>r_type3\<close>,
  \<^verbatim>\<open>r_type2\<close>, \<^verbatim>\<open>r_type\<close>. Filling the union from a fresh (here: zero) object.\<close>

definition mips64_union :: "dso \<Rightarrow> u64 \<Rightarrow> u8 list option" where
  "mips64_union d r = buf_write_ne64 d (replicate 8 0) r"

definition mips64_r_sym :: "dso \<Rightarrow> u64 \<Rightarrow> u64 option" where
  "mips64_r_sym d r = do { u \<leftarrow> mips64_union d r; s \<leftarrow> buf_read_une32 d u; Some (ucast s) }"

definition mips64_r_ssym :: "dso \<Rightarrow> u64 \<Rightarrow> u64 option" where
  "mips64_r_ssym d r = do { u \<leftarrow> mips64_union d r; Some (ucast (u ! 4)) }"

definition mips64_r_type :: "dso \<Rightarrow> u64 \<Rightarrow> u64 option" where
  "mips64_r_type d r = do { u \<leftarrow> mips64_union d r; Some (ucast (u ! 7)) }"

definition mips64_r_type2 :: "dso \<Rightarrow> u64 \<Rightarrow> u64 option" where
  "mips64_r_type2 d r = do { u \<leftarrow> mips64_union d r; Some (ucast (u ! 6)) }"

definition mips64_r_type3 :: "dso \<Rightarrow> u64 \<Rightarrow> u64 option" where
  "mips64_r_type3 d r = do { u \<leftarrow> mips64_union d r; Some (ucast (u ! 5)) }"

definition mips64_r_info_ext :: "dso \<Rightarrow> u32 \<Rightarrow> u8 \<Rightarrow> u8 \<Rightarrow> u8 \<Rightarrow> u8 \<Rightarrow> u64 option" where
  "mips64_r_info_ext d sy ssym ty ty2 ty3 = do {
     u \<leftarrow> buf_write_ne32 d (replicate 8 0) sy;
     let u = u[4 := ssym];
     let u = u[7 := ty];
     let u = u[6 := ty2];
     let u = u[5 := ty3];
     buf_read_une64 d u
   }"

section \<open>The form of the object\<close>

definition is_mips64 :: "dso \<Rightarrow> bool" where
  "is_mips64 d \<longleftrightarrow> ei_class (ehdr d) = ELFCLASS64 \<and> e_machine (ehdr d) = EM_MIPS"

definition reloc_r_sym :: "dso \<Rightarrow> u64 \<Rightarrow> u64 option" where
  "reloc_r_sym d r = (if is_mips64 d then mips64_r_sym d r else Some (GELF_R_SYM r))"

definition reloc_r_ssym :: "dso \<Rightarrow> u64 \<Rightarrow> u64 option" where
  "reloc_r_ssym d r = (if is_mips64 d then mips64_r_ssym d r else Some (ucast RSS_UNDEF))"

definition reloc_r_type :: "dso \<Rightarrow> u64 \<Rightarrow> u64 option" where
  "reloc_r_type d r = (if is_mips64 d then mips64_r_type d r else Some (GELF_R_TYPE r))"

definition reloc_r_type2 :: "dso \<Rightarrow> u64 \<Rightarrow> u64 option" where
  "reloc_r_type2 d r = (if is_mips64 d then mips64_r_type2 d r else Some 0)"

definition reloc_r_type3 :: "dso \<Rightarrow> u64 \<Rightarrow> u64 option" where
  "reloc_r_type3 d r = (if is_mips64 d then mips64_r_type3 d r else Some 0)"

definition reloc_r_info :: "dso \<Rightarrow> u32 \<Rightarrow> u32 \<Rightarrow> u64 option" where
  "reloc_r_info d sy ty =
     (if is_mips64 d then
        (if ty = R_MIPS_REL32 \<or> ty = R_MIPS_GLOB_DAT
         then mips64_r_info_ext d sy RSS_UNDEF (ucast ty) R_MIPS_64 R_MIPS_NONE
         else mips64_r_info_ext d sy RSS_UNDEF (ucast ty) R_MIPS_NONE R_MIPS_NONE)
      else Some (GELF_R_INFO (ucast sy) (ucast ty)))"

definition reloc_r_info_ext :: "dso \<Rightarrow> u32 \<Rightarrow> u8 \<Rightarrow> u8 \<Rightarrow> u8 \<Rightarrow> u8 \<Rightarrow> u64 option" where
  "reloc_r_info_ext d sy ssym ty ty2 ty3 =
     (if is_mips64 d then mips64_r_info_ext d sy ssym ty ty2 ty3
      else Some (GELF_R_INFO (ucast sy) (ucast ty)))"

section \<open>Packing and unpacking\<close>

lemma GELF_R_INFO_or: "GELF_R_INFO (ucast s) (ucast t) = push_bit 32 (ucast (s :: u32)) OR ucast (t :: u32)"
  unfolding GELF_R_INFO_def
  by (rule disjunctive_add) (auto simp: bit_simps dest: bit_imp_le_length)

lemma GELF_R_SYM_INFO: "GELF_R_SYM (GELF_R_INFO (ucast (s :: u32)) (ucast (t :: u32))) = ucast s"
  unfolding GELF_R_INFO_or GELF_R_SYM_def
  by (rule bit_word_eqI) (auto simp: bit_simps dest: bit_imp_le_length)

lemma mask32: "(0xffffffff :: u64) = mask 32"
  by (simp add: mask_eq_exp_minus_1)

lemma GELF_R_TYPE_INFO: "GELF_R_TYPE (GELF_R_INFO (ucast (s :: u32)) (ucast (t :: u32))) = ucast t"
  unfolding GELF_R_INFO_or GELF_R_TYPE_def mask32
  by (rule bit_word_eqI) (auto simp: bit_simps dest: bit_imp_le_length)

text \<open>The union is a codec of eight bytes, its first member one of four.\<close>

lemma ne64_codec: "buf_codec 8 (\<lambda>v. if ei_data (ehdr d) = ELFDATA2LSB then le64_bytes v else rev (le64_bytes v))
    (buf_read_une64 d) (buf_write_ne64 d)"
  using le64.buf_codec_axioms be64.buf_codec_axioms
  by (cases "ei_data (ehdr d) = ELFDATA2LSB")
    (simp_all add: buf_read_une64_def [abs_def] buf_write_ne64_def [abs_def])

lemma ne32_codec: "buf_codec 4 (\<lambda>v. if ei_data (ehdr d) = ELFDATA2LSB then le32_bytes v else rev (le32_bytes v))
    (buf_read_une32 d) (buf_write_ne32 d)"
  using le32.buf_codec_axioms be32.buf_codec_axioms
  by (cases "ei_data (ehdr d) = ELFDATA2LSB")
    (simp_all add: buf_read_une32_def [abs_def] buf_write_ne32_def [abs_def])

lemma mips64_info_union:
  obtains r u0 where "buf_write_ne32 d (replicate 8 0) sy = Some u0"
    "mips64_r_info_ext d sy ssym ty ty2 ty3 = Some r"
    "mips64_union d r = Some (u0[4 := ssym, 7 := ty, 6 := ty2, 5 := ty3])" "length u0 = 8"
    "buf_read_une32 d (u0[4 := ssym, 7 := ty, 6 := ty2, 5 := ty3]) = Some sy"
proof -
  obtain u0 where u0: "buf_write_ne32 d (replicate 8 0) sy = Some u0"
    using buf_codec.wr_total [OF ne32_codec, of "replicate 8 0" d sy] by auto
  have l: "length u0 = 8" and r0: "buf_read_une32 d u0 = Some sy"
    using buf_codec.wr_shape [OF ne32_codec u0] buf_codec.wr_rd [OF ne32_codec u0] by simp_all
  let ?u = "u0[4 := ssym, 7 := ty, 6 := ty2, 5 := ty3]"
  have "take 4 ?u = take 4 u0" by (simp add: take_update_cancel)
  then have r1: "buf_read_une32 d ?u = Some sy"
    using buf_codec.rd_take [OF ne32_codec, of 4 ?u d] buf_codec.rd_take [OF ne32_codec, of 4 u0 d] l r0
    by simp
  obtain r where r: "buf_read_une64 d ?u = Some r"
    using buf_codec.rd_defined [OF ne64_codec, of d ?u] l by auto
  have "buf_write_ne64 d ?u r = Some ?u" by (rule buf_codec.rd_wr [OF ne64_codec r])
  moreover have "buf_write_ne64 d (replicate 8 0) r = buf_write_ne64 d ?u r"
    using l by (simp add: buf_codec.wr_enc [OF ne64_codec])
  ultimately have "mips64_union d r = Some ?u" by (simp add: mips64_union_def)
  then show thesis using that u0 r r1 l by (simp add: mips64_r_info_ext_def Let_def)
qed

text \<open>C8: the relocation information built from a symbol index, a special symbol and three types is
  read back as those five values on 64-bit MIPS, in either byte order; on every other target the
  symbol index and the first type are read back and the MIPS-only parts read as zero.\<close>

theorem reloc_r_info_ext_roundtrip:
  "\<exists>r. reloc_r_info_ext d sy ssym ty ty2 ty3 = Some r
     \<and> reloc_r_sym d r = Some (ucast sy) \<and> reloc_r_type d r = Some (ucast ty)
     \<and> reloc_r_ssym d r = Some (if is_mips64 d then ucast ssym else 0)
     \<and> reloc_r_type2 d r = Some (if is_mips64 d then ucast ty2 else 0)
     \<and> reloc_r_type3 d r = Some (if is_mips64 d then ucast ty3 else 0)"
proof (cases "is_mips64 d")
  case True
  obtain r u0 where "mips64_r_info_ext d sy ssym ty ty2 ty3 = Some r"
    "mips64_union d r = Some (u0[4 := ssym, 7 := ty, 6 := ty2, 5 := ty3])" "length u0 = 8"
    "buf_read_une32 d (u0[4 := ssym, 7 := ty, 6 := ty2, 5 := ty3]) = Some sy"
    using mips64_info_union by blast
  then show ?thesis
    using True
    by (simp add: reloc_r_info_ext_def reloc_r_sym_def reloc_r_type_def reloc_r_ssym_def
        reloc_r_type2_def reloc_r_type3_def mips64_r_sym_def mips64_r_type_def mips64_r_ssym_def
        mips64_r_type2_def mips64_r_type3_def)
next
  case False
  have "ucast ty = (ucast (ucast ty :: u32) :: u64)"
    by (rule bit_word_eqI) (auto simp: bit_simps dest: bit_imp_le_length)
  then show ?thesis
    using False GELF_R_SYM_INFO [of sy "ucast ty"] GELF_R_TYPE_INFO [of sy "ucast ty"]
    by (simp add: reloc_r_info_ext_def reloc_r_sym_def reloc_r_type_def reloc_r_ssym_def
        reloc_r_type2_def reloc_r_type3_def RSS_UNDEF_def)
qed

text \<open>The relocation information \<^verbatim>\<open>reloc_r_info\<close> builds from a symbol index and a type is read
  back as that symbol and, when the type fits the field of the target (one byte on 64-bit MIPS), as
  that type.\<close>

theorem reloc_r_info_roundtrip:
  assumes "is_mips64 d \<longrightarrow> unat ty < 256"
  shows "\<exists>r. reloc_r_info d sy ty = Some r \<and> reloc_r_sym d r = Some (ucast sy)
     \<and> reloc_r_type d r = Some (ucast ty)"
proof (cases "is_mips64 d")
  case True
  then have ty: "ucast (ucast ty :: u8) = (ucast ty :: u64)"
    using assms by (simp add: word_unat_eq_iff unsigned_ucast_eq unsigned_take_bit_eq take_bit_nat_eq_self_iff
        take_bit_nat_eq_self)
  obtain r u0 where "mips64_r_info_ext d sy RSS_UNDEF (ucast ty)
       (if ty = R_MIPS_REL32 \<or> ty = R_MIPS_GLOB_DAT then R_MIPS_64 else R_MIPS_NONE) R_MIPS_NONE = Some r"
    "mips64_union d r = Some (u0[4 := RSS_UNDEF, 7 := ucast ty,
       6 := (if ty = R_MIPS_REL32 \<or> ty = R_MIPS_GLOB_DAT then R_MIPS_64 else R_MIPS_NONE),
       5 := R_MIPS_NONE])" "length u0 = 8"
    "buf_read_une32 d (u0[4 := RSS_UNDEF, 7 := ucast ty,
       6 := (if ty = R_MIPS_REL32 \<or> ty = R_MIPS_GLOB_DAT then R_MIPS_64 else R_MIPS_NONE),
       5 := R_MIPS_NONE]) = Some sy"
    using mips64_info_union by blast
  then show ?thesis
    using True ty
    by (auto simp: reloc_r_info_def reloc_r_sym_def reloc_r_type_def mips64_r_sym_def mips64_r_type_def)
next
  case False
  then show ?thesis
    by (simp add: reloc_r_info_def reloc_r_sym_def reloc_r_type_def GELF_R_SYM_INFO GELF_R_TYPE_INFO)
qed

theorem reloc_r_info_roundtrip_witness:
  "\<exists>r. reloc_r_info sample_dso 7 6 = Some r \<and> reloc_r_sym sample_dso r = Some 7
     \<and> reloc_r_type sample_dso r = Some 6"
  using reloc_r_info_roundtrip [of sample_dso 6 7] by simp

end
