(* ===== verification/Conflict.thy ===== *)
theory Conflict
  imports RelocInfo
begin

text \<open>
  The state shared by the relocation passes (\<^verbatim>\<open>struct prelink_info\<close> of \<^verbatim>\<open>src/prelink.h\<close>) and the part
  of \<^verbatim>\<open>src/conflict.c\<close> the architecture code calls: the lookup \<^verbatim>\<open>prelink_conflict\<close> in the table of
  conflicts, the growth of the \<^verbatim>\<open>.gnu.conflict\<close> image by \<^verbatim>\<open>prelink_conflict_add_rela\<close>, and the
  orders by which relocations are sorted.

  The members of the unions \<^verbatim>\<open>lookup\<close> and \<^verbatim>\<open>conflict\<close> are pointers; \<open>ent_base\<close> and \<open>tls_at\<close> are
  the stores they point into. The callback \<^verbatim>\<open>info->resolve\<close> is the field \<open>resolve\<close>: the value it
  returns and the \<^verbatim>\<open>resolvetls\<close> it leaves. \<open>realloc_ok\<close> says whether \<^verbatim>\<open>realloc\<close> grants a number of
  elements.

  The lemmas: the hashed table finds exactly what a search of the whole list finds; adding a
  relocation appends one zeroed entry, keeps the earlier ones and stays within the allocation.
\<close>

section \<open>State\<close>

definition RTYPE_CLASS_VALID :: int where "RTYPE_CLASS_VALID = 8"
definition RTYPE_CLASS_PLT :: int where "RTYPE_CLASS_PLT = 9"
definition RTYPE_CLASS_COPY :: int where "RTYPE_CLASS_COPY = 10"
definition RTYPE_CLASS_TLS :: int where "RTYPE_CLASS_TLS = 12"

lemmas rtype_consts =
  RTYPE_CLASS_VALID_def RTYPE_CLASS_PLT_def RTYPE_CLASS_COPY_def RTYPE_CLASS_TLS_def

record pl_tls =
  modid :: u64
  tls_offset :: u64

record pl_conflict =
  cf_lookup :: u64
  cf_conflict :: u64
  symoff :: u64
  lookupval :: u64
  conflictval :: u64
  reloc_class :: int
  used :: bool
  ifunc :: bool

text \<open>\<open>cf_hashed\<close>: \<^verbatim>\<open>hash\<close> is a table of 251 chains and not just the address of \<^verbatim>\<open>first\<close>.\<close>

record pl_conflicts =
  cf_hashed :: bool
  cf_chains :: "pl_conflict list list"

record pl_info =
  info_dso :: u64
  resolve :: "u64 \<Rightarrow> u64 \<Rightarrow> u64 \<times> pl_tls option"
  curconflicts :: pl_conflicts
  curtls :: u64
  ent_base :: "u64 \<rightharpoonup> u64"
  tls_at :: "u64 \<rightharpoonup> pl_tls"
  symtab_start :: u64
  symtab_entsize :: u64
  conflict_rela :: "elf_rela list option"
  conflict_rela_alloced :: nat
  conflict_rela_size :: nat
  realloc_ok :: "nat \<Rightarrow> bool"

section \<open>Looking a conflict up\<close>

fun mark_conflict :: "u64 \<Rightarrow> int \<Rightarrow> pl_conflict list \<Rightarrow> (pl_conflict option \<times> pl_conflict list)" where
  "mark_conflict so rc [] = (None, [])"
| "mark_conflict so rc (c # cs) =
     (if symoff c = so \<and> reloc_class c = rc then (Some (c\<lparr>used := True\<rparr>), c\<lparr>used := True\<rparr> # cs)
      else (let (r, cs') = mark_conflict so rc cs in (r, c # cs')))"

text \<open>The local variable \<^verbatim>\<open>symoff\<close> is a 32-bit \<^verbatim>\<open>GElf_Word\<close>. \<open>rclass\<close> is
  \<^verbatim>\<open>info->dso->arch->reloc_class\<close>.\<close>

definition conflict_symoff :: "pl_info \<Rightarrow> u32 \<Rightarrow> u32" where
  "conflict_symoff pi r_sym = ucast (symtab_start pi + ucast r_sym * symtab_entsize pi)"

definition prelink_conflict ::
  "(u64 \<Rightarrow> int) \<Rightarrow> pl_info \<Rightarrow> u32 \<Rightarrow> u64 \<Rightarrow> (pl_conflict option \<times> pl_info) option" where
  "prelink_conflict rclass pi r_sym reloc_type = (
     let so = conflict_symoff pi r_sym;
         idx = (if cf_hashed (curconflicts pi) then unat (so mod 251) else 0)
     in do {
       chain \<leftarrow> nth_opt (cf_chains (curconflicts pi)) idx;
       let (r, chain') = mark_conflict (ucast so) (rclass reloc_type) chain;
       Some (r, pi\<lparr>curconflicts := (curconflicts pi)
         \<lparr>cf_chains := (cf_chains (curconflicts pi))[idx := chain']\<rparr>\<rparr>)
     })"

definition conflict_lookup_value :: "pl_info \<Rightarrow> pl_conflict \<Rightarrow> u64 option" where
  "conflict_lookup_value pi c =
     (if reloc_class c \<noteq> RTYPE_CLASS_TLS
      then do { base \<leftarrow> ent_base pi (cf_lookup c); Some (base + lookupval c) }
      else Some (lookupval c))"

text \<open>The decision every architecture takes between the lookup and the recording of a conflict, from
  the kind of the relocation: \<open>tls_local\<close> for the module id and thread offset types, \<open>irelative\<close> for the
  indirect type, \<open>dtpoff\<close> for the offset in a TLS block. The result is the value of the relocation's
  symbol, or no value when there is nothing to record.\<close>

definition conflict_value ::
  "dso \<Rightarrow> pl_info \<Rightarrow> pl_conflict option \<Rightarrow> bool \<Rightarrow> bool \<Rightarrow> bool \<Rightarrow> u64 option option" where
  "conflict_value d pi conflict tls_local irelative dtpoff =
     (case conflict of
        None \<Rightarrow>
          (if tls_local then
             (if curtls pi = 0 \<or> info_dso pi = dso_ptr d then Some None else Some (Some 0))
           else if irelative then Some (Some 0)
           else Some None)
      | Some c \<Rightarrow>
          (if info_dso pi = dso_ptr d \<and> \<not> ifunc c then Some None
           else if dtpoff \<and> cf_lookup c = cf_conflict c \<and> lookupval c = conflictval c then Some None
           else map_option Some (conflict_lookup_value pi c)))"

section \<open>Growing the conflict image\<close>

definition zero_rela :: elf_rela where
  "zero_rela = \<lparr>ra_offset = 0, ra_info = 0, ra_addend = 0\<rparr>"

text \<open>The result is the index of the new entry, or no entry when memory ran out.\<close>

definition prelink_conflict_add_rela :: "pl_info \<Rightarrow> (nat option \<times> pl_info) option" where
  "prelink_conflict_add_rela pi =
     (if conflict_rela_alloced pi = conflict_rela_size pi
      then let n = conflict_rela_alloced pi + 10 in
        if realloc_ok pi n
        then let old = (case conflict_rela pi of None \<Rightarrow> [] | Some rs \<Rightarrow> rs) in
          Some (Some (conflict_rela_size pi),
            pi\<lparr>conflict_rela_alloced := n, conflict_rela := Some (old @ [zero_rela]),
                 conflict_rela_size := conflict_rela_size pi + 1\<rparr>)
        else Some (None, pi\<lparr>conflict_rela_alloced := n, conflict_rela := None\<rparr>)
      else do {
        rs \<leftarrow> conflict_rela pi;
        Some (Some (conflict_rela_size pi),
          pi\<lparr>conflict_rela := Some (rs @ [zero_rela]),
               conflict_rela_size := conflict_rela_size pi + 1\<rparr>)
      })"

definition set_conflict_rela :: "pl_info \<Rightarrow> nat \<Rightarrow> elf_rela \<Rightarrow> pl_info" where
  "set_conflict_rela pi i r = pi\<lparr>conflict_rela := map_option (\<lambda>rs. rs[i := r]) (conflict_rela pi)\<rparr>"

text \<open>The tail of every \<^verbatim>\<open>prelink_conflict_rel\<close> and \<^verbatim>\<open>prelink_conflict_rela\<close> handler: obtain an entry and
  fill it; \<open>entry\<close> is the handler's final \<^verbatim>\<open>switch\<close>, which may read the object.\<close>

definition record_conflict ::
  "'d \<Rightarrow> pl_info \<Rightarrow> (pl_info \<Rightarrow> (int \<times> elf_rela \<times> 'd) option) \<Rightarrow> (int \<times> 'd \<times> pl_info) option" where
  "record_conflict d pi entry = do {
     (ret, pi) \<leftarrow> prelink_conflict_add_rela pi;
     case ret of
       None \<Rightarrow> Some (1, d, pi)
     | Some i \<Rightarrow> do {
         (rc, e, d) \<leftarrow> entry pi;
         Some (rc, d, set_conflict_rela pi i e)
       }
   }"

section \<open>Orders\<close>

definition rela_cmp :: "elf_rela \<Rightarrow> elf_rela \<Rightarrow> int" where
  "rela_cmp a b = (if ra_offset a < ra_offset b then - 1 else if ra_offset a > ra_offset b then 1 else 0)"

definition conflict_rela_cmp :: "dso \<Rightarrow> elf_rela \<Rightarrow> elf_rela \<Rightarrow> int option" where
  "conflict_rela_cmp d a b = do {
     sa \<leftarrow> reloc_r_sym d (ra_info a);
     sb \<leftarrow> reloc_r_sym d (ra_info b);
     Some (if sa < sb then - 1 else if sa > sb then 1
           else if ra_offset a < ra_offset b then - 1 else if ra_offset a > ra_offset b then 1 else 0)
   }"

section \<open>The table finds what the list holds\<close>

text \<open>A table is well formed if it has a chain for every bucket and every conflict is in the chain
  of its symbol offset.\<close>

definition wf_conflicts :: "pl_conflicts \<Rightarrow> bool" where
  "wf_conflicts t \<longleftrightarrow>
     (if cf_hashed t
      then length (cf_chains t) = 251
        \<and> list_all (\<lambda>i. list_all (\<lambda>c. symoff c mod 251 = of_nat i) (cf_chains t ! i)) [0..<251]
      else cf_chains t \<noteq> [] \<and> tl (cf_chains t) = [])"

definition same_conflict :: "pl_conflict \<Rightarrow> pl_conflict \<Rightarrow> bool" where
  "same_conflict c c' \<longleftrightarrow> c' = c\<lparr>used := used c'\<rparr>"

lemma same_conflict_refl [simp]: "same_conflict c c"
  by (simp add: same_conflict_def)

lemma list_all2_update_right:
  "(\<And>x. R x x) \<Longrightarrow> R (xs ! i) y \<Longrightarrow> list_all2 R xs (xs[i := y])"
  by (auto simp: list_all2_conv_all_nth) (metis nth_list_update_eq nth_list_update_neq)

lemma mark_conflict_fst:
  "fst (mark_conflict so rc cs) =
     map_option (\<lambda>c. c\<lparr>used := True\<rparr>) (find (\<lambda>c. symoff c = so \<and> reloc_class c = rc) cs)"
  by (induction cs) (auto simp: Let_def split: prod.splits)

lemma mark_conflict_same: "list_all2 same_conflict cs (snd (mark_conflict so rc cs))"
  by (induction cs) (auto simp: same_conflict_def Let_def list.rel_refl split: prod.splits)

lemma u32_mod_251: "unat (so mod (251 :: u32)) < 251"
  by (simp add: unat_mod)

lemma ucast_mod_251: "(ucast (so :: u32) :: u64) mod 251 = of_nat (unat (so mod 251))"
proof -
  have "unat so < 2 ^ 32" using unsigned_less [of so] by simp
  then have "unat (ucast so :: u64) = unat so"
    by (simp add: unsigned_ucast_eq take_bit_nat_eq_self)
  then show ?thesis
    by (simp add: word_unat_eq_iff unat_mod unat_of_nat take_bit_nat_eq_self)
qed

lemma chain_find:
  assumes wf: "wf_conflicts t" and so: "so' = ucast (so :: u32)"
    and idx: "idx = (if cf_hashed t then unat (so mod 251) else 0)"
  shows "idx < length (cf_chains t) \<and>
     ((\<exists>c \<in> set (cf_chains t ! idx). symoff c = so' \<and> reloc_class c = rc) \<longleftrightarrow>
      (\<exists>c \<in> set (concat (cf_chains t)). symoff c = so' \<and> reloc_class c = rc))"
proof (cases "cf_hashed t")
  case False
  then obtain ch where "cf_chains t = [ch]"
    using wf by (cases "cf_chains t") (auto simp: wf_conflicts_def)
  then show ?thesis using False idx by simp
next
  case True
  then have len: "length (cf_chains t) = 251"
    and bucket: "\<And>i c. i < 251 \<Longrightarrow> c \<in> set (cf_chains t ! i) \<Longrightarrow> symoff c mod 251 = of_nat i"
    using wf by (auto simp: wf_conflicts_def list_all_iff)
  have i: "idx < 251" using True idx u32_mod_251 by simp
  have "j = idx" if "j < 251" "c \<in> set (cf_chains t ! j)" "symoff c = so'" for j c
  proof -
    have "(of_nat j :: u64) = of_nat idx"
      using bucket [OF that(1,2)] that(3) True idx so by (simp add: ucast_mod_251)
    then show ?thesis using that(1) i by (simp add: word_unat_eq_iff unat_of_nat take_bit_nat_eq_self)
  qed
  then have "c \<in> set (cf_chains t ! idx)"
    if "c \<in> set (concat (cf_chains t))" "symoff c = so'" for c
    using that len by (auto simp: in_set_conv_nth [of _ "cf_chains t"])
  moreover have "cf_chains t ! idx \<in> set (cf_chains t)" using i len by simp
  ultimately show ?thesis using i len by auto
qed



text \<open>A table of one unhashed chain with one conflict.\<close>

definition sample_conflict :: pl_conflict where
  "sample_conflict = \<lparr>cf_lookup = 1, cf_conflict = 2, symoff = 0x348, lookupval = 0x10,
     conflictval = 0x20, reloc_class = 8, used = False, ifunc = False\<rparr>"

definition sample_info :: pl_info where
  "sample_info = \<lparr>info_dso = 0x10, resolve = (\<lambda>i ty. (0x2000 + i, None)),
     curconflicts = \<lparr>cf_hashed = False, cf_chains = [[sample_conflict]]\<rparr>, curtls = 0,
     ent_base = [1 \<mapsto> 0x30000, 2 \<mapsto> 0x40000], tls_at = Map.empty, symtab_start = 0x300,
     symtab_entsize = 24, conflict_rela = Some [], conflict_rela_alloced = 10,
     conflict_rela_size = 0, realloc_ok = (\<lambda>n. n \<le> 100)\<rparr>"

lemma wf_sample_info [simp]: "wf_conflicts (curconflicts sample_info)"
  by (simp add: sample_info_def wf_conflicts_def)


text \<open>The invariant of the image: never more entries than allocated.\<close>

definition wf_conflict_rela :: "pl_info \<Rightarrow> bool" where
  "wf_conflict_rela pi \<longleftrightarrow> conflict_rela_size pi \<le> conflict_rela_alloced pi
     \<and> (case conflict_rela pi of None \<Rightarrow> conflict_rela_alloced pi = 0
        | Some rs \<Rightarrow> length rs = conflict_rela_size pi)"

text \<open>When the image of \<^verbatim>\<open>.gnu.conflict\<close> is consistent, \<^verbatim>\<open>prelink_conflict_add_rela\<close> either appends
  exactly one zeroed entry behind the existing ones, returns its index and keeps the image
  consistent, or returns null, and the latter only when the image was full and memory ran out.\<close>

theorem prelink_conflict_add_rela_correct:
  assumes "wf_conflict_rela pi"
  shows "\<exists>r pi'. prelink_conflict_add_rela pi = Some (r, pi')
     \<and> (case r of
          Some i \<Rightarrow> wf_conflict_rela pi' \<and> i = conflict_rela_size pi
            \<and> conflict_rela_size pi' = conflict_rela_size pi + 1
            \<and> conflict_rela pi' = Some (case_option [] id (conflict_rela pi) @ [zero_rela])
        | None \<Rightarrow> conflict_rela_alloced pi = conflict_rela_size pi
            \<and> \<not> realloc_ok pi (conflict_rela_alloced pi + 10))"
  using assms
  by (auto simp: prelink_conflict_add_rela_def wf_conflict_rela_def Let_def split: option.splits)

theorem prelink_conflict_add_rela_correct_witness:
  "\<exists>pi'. prelink_conflict_add_rela sample_info = Some (Some 0, pi')
     \<and> conflict_rela pi' = Some [zero_rela] \<and> wf_conflict_rela pi'"
proof -
  have "wf_conflict_rela sample_info" by (simp add: wf_conflict_rela_def sample_info_def)
  from prelink_conflict_add_rela_correct [OF this] show ?thesis
    by (auto simp: prelink_conflict_add_rela_def sample_info_def)
qed

section \<open>Recording a conflict\<close>

lemma prelink_conflict_keeps:
  "prelink_conflict rclass pi r_sym t = Some (c, pi') \<Longrightarrow> \<exists>tb. pi' = pi\<lparr>curconflicts := tb\<rparr>"
  by (auto simp: prelink_conflict_def Let_def opt_simps split: prod.splits)

lemma add_then_set:
  assumes "wf_conflict_rela pi" and "prelink_conflict_add_rela pi = Some (Some i, pi')"
  shows "conflict_rela (set_conflict_rela pi' i e) = Some (case_option [] id (conflict_rela pi) @ [e])"
  using assms
  by (auto simp: prelink_conflict_add_rela_def wf_conflict_rela_def set_conflict_rela_def Let_def
      opt_simps list_update_append split: if_splits option.splits)

lemma record_conflict_Some:
  assumes "record_conflict d pi entry = Some (0, d', pi2)"
  obtains i pi' e where "prelink_conflict_add_rela pi = Some (Some i, pi')"
    "entry pi' = Some (0, e, d')" "pi2 = set_conflict_rela pi' i e"
proof -
  obtain q where q: "prelink_conflict_add_rela pi = Some q"
    using assms by (cases "prelink_conflict_add_rela pi") (simp_all add: record_conflict_def)
  obtain i where i: "fst q = Some i"
    using assms q by (cases "fst q") (simp_all add: record_conflict_def split_beta)
  obtain x where "entry (snd q) = Some x"
    using assms q i by (cases "entry (snd q)") (simp_all add: record_conflict_def split_beta)
  then show thesis
    using that [of i "snd q" "fst (snd x)"] assms q i
    by (simp add: record_conflict_def split_beta prod_eq_iff)
qed

lemma record_conflict_entry:
  assumes "wf_conflict_rela pi" and "record_conflict d pi entry = Some (0, d', pi2)"
  obtains pi' e where "entry pi' = Some (0, e, d')"
    "conflict_rela pi2 = Some (case_option [] id (conflict_rela pi) @ [e])"
  using record_conflict_Some [OF assms(2)] add_then_set [OF assms(1)] by metis

end
