(* ===== verification/Arch.thy ===== *)
theory Arch
  imports Conflict DataProps
begin

text \<open>
  The interface between the generic passes and the architecture files: \<^verbatim>\<open>struct PLArch\<close> of
  \<^verbatim>\<open>src/prelink.h\<close> as a record of handlers, and what the passes rely on.

  A handler gets the objects the C function reaches through its pointers and returns the C return
  code with the objects it may have changed; where a handler is given a \<^verbatim>\<open>prelink_info\<close> only, the
  object \<^verbatim>\<open>info->dso\<close> is the separate argument behind it.

  \<open>only_cell d d' a n\<close> says that \<open>d'\<close> differs from \<open>d\<close> in at most the \<open>n\<close> bytes at address \<open>a\<close>, in
  no header, and in no section outside the loaded image. \<open>img\<close> is the whole contents of an object and
  \<open>patch\<close> the replacement of some bytes in it, by which the effects of two handlers are compared.
\<close>

section \<open>The handlers of an architecture\<close>

record elf_dyn =
  d_tag :: u64
  d_ptr :: u64

definition DT_PLTGOT :: nat where "DT_PLTGOT = 3"

record pl_arch =
  arch_name :: string
  arch_class :: u8
  arch_machine :: u16
  alternate_machine :: "u16 list"
  max_reloc_size :: nat
  dynamic_linker :: string
  R_COPY :: u64
  R_JMP_SLOT :: u64
  R_RELATIVE :: u64
  rtype_class_valid :: int
  arch_adjust :: "(dso \<Rightarrow> u64 \<Rightarrow> u64 \<Rightarrow> (int \<times> dso) option) option"
  adjust_section :: "(dso \<Rightarrow> nat \<Rightarrow> u64 \<Rightarrow> u64 \<Rightarrow> (int \<times> dso) option) option"
  adjust_dyn :: "dso \<Rightarrow> nat \<Rightarrow> elf_dyn \<Rightarrow> u64 \<Rightarrow> u64 \<Rightarrow> (int \<times> elf_dyn \<times> dso) option"
  adjust_rel :: "dso \<Rightarrow> elf_rel \<Rightarrow> u64 \<Rightarrow> u64 \<Rightarrow> (int \<times> elf_rel \<times> dso) option"
  adjust_rela :: "dso \<Rightarrow> elf_rela \<Rightarrow> u64 \<Rightarrow> u64 \<Rightarrow> (int \<times> elf_rela \<times> dso) option"
  prelink_rel :: "pl_info \<Rightarrow> dso \<Rightarrow> elf_rel \<Rightarrow> u64 \<Rightarrow> (int \<times> elf_rel \<times> dso) option"
  prelink_rela :: "pl_info \<Rightarrow> dso \<Rightarrow> elf_rela \<Rightarrow> u64 \<Rightarrow> (int \<times> elf_rela \<times> dso) option"
  prelink_conflict_rel :: "dso \<Rightarrow> pl_info \<Rightarrow> elf_rel \<Rightarrow> u64 \<Rightarrow> (int \<times> dso \<times> pl_info) option"
  prelink_conflict_rela :: "dso \<Rightarrow> pl_info \<Rightarrow> elf_rela \<Rightarrow> u64 \<Rightarrow> (int \<times> dso \<times> pl_info) option"
  apply_conflict_rela :: "pl_info \<Rightarrow> dso \<Rightarrow> elf_rela \<Rightarrow> u8 list \<Rightarrow> u64 \<Rightarrow> (int \<times> u8 list \<times> pl_info) option"
  apply_rel :: "pl_info \<Rightarrow> dso \<Rightarrow> elf_rel \<Rightarrow> u8 list \<Rightarrow> (int \<times> u8 list \<times> dso) option"
  apply_rela :: "pl_info \<Rightarrow> dso \<Rightarrow> elf_rela \<Rightarrow> u8 list \<Rightarrow> (int \<times> u8 list \<times> dso) option"
  rel_to_rela :: "dso \<Rightarrow> elf_rel \<Rightarrow> elf_rela \<Rightarrow> (int \<times> elf_rela \<times> dso) option"
  rela_to_rel :: "(dso \<Rightarrow> elf_rela \<Rightarrow> elf_rel \<Rightarrow> (int \<times> elf_rel \<times> dso) option) option"
  need_rel_to_rela :: "dso \<Rightarrow> nat \<Rightarrow> nat \<Rightarrow> (int \<times> dso) option"
  reloc_size :: "u64 \<Rightarrow> int option"
  arch_reloc_class :: "u64 \<Rightarrow> int"
  arch_prelink :: "pl_info \<Rightarrow> dso \<Rightarrow> (int \<times> dso) option"
  arch_undo_prelink :: "dso \<Rightarrow> (int \<times> dso) option"
  undo_prelink_rel :: "(dso \<Rightarrow> elf_rel \<Rightarrow> u64 \<Rightarrow> (int \<times> elf_rel \<times> dso) option) option"
  undo_prelink_rela :: "(dso \<Rightarrow> elf_rela \<Rightarrow> u64 \<Rightarrow> (int \<times> elf_rela \<times> dso) option) option"
  mmap_base :: u64
  mmap_end :: u64
  max_page_size :: u64
  page_size :: u64

section \<open>Searching the section table by name\<close>

text \<open>The loop, repeated in the architecture files, that leaves \<^verbatim>\<open>i\<close> at the first section from \<open>i\<close> on
  with type \<^verbatim>\<open>SHT_PROGBITS\<close> and a given name, or at \<^verbatim>\<open>e_shnum\<close>.\<close>

function find_progbits :: "dso \<Rightarrow> string \<Rightarrow> nat \<Rightarrow> nat option" where
  "find_progbits d nm i =
     (if i < unat (e_shnum (ehdr d)) then do {
        s \<leftarrow> nth_opt (shdr d) i;
        if sh_type s = SHT_PROGBITS then do {
          b \<leftarrow> sec_name_is d i nm;
          if b then Some i else find_progbits d nm (Suc i)
        } else find_progbits d nm (Suc i)
      } else Some i)"
  by pat_completeness auto
termination
  by (relation "measure (\<lambda>(d, nm, i). unat (e_shnum (ehdr d)) - i)") auto

declare find_progbits.simps [simp del]

section \<open>Changes confined to one cell\<close>

definition nonalloc_eq :: "dso \<Rightarrow> dso \<Rightarrow> bool" where
  "nonalloc_eq d d' \<longleftrightarrow>
     (\<forall>i < length (shdr d). \<not> RELOCATE_SCN (sh_flags (shdr d ! i)) \<longrightarrow> scn d' ! i = scn d ! i)"

definition only_cell :: "dso \<Rightarrow> dso \<Rightarrow> u64 \<Rightarrow> nat \<Rightarrow> bool" where
  "only_cell d d' a n \<longleftrightarrow> wf_dso d' \<and> same_shape d d'
     \<and> (\<forall>i. sec_of d a \<noteq> Some i \<longrightarrow> scn d' ! i = scn d ! i)
     \<and> (\<forall>b m. unat a + n \<le> unat b \<or> unat b + m \<le> unat a \<longrightarrow> bytes_at d' b m = bytes_at d b m)"

lemma only_cell_refl [simp, intro]: "wf_dso d \<Longrightarrow> only_cell d d a n"
  by (simp add: only_cell_def)

lemma only_cell_touch [simp, intro]: "wf_dso d \<Longrightarrow> only_cell d (touch d b) a n"
  by (simp add: only_cell_def)

lemma only_cell_trans [trans]:
  assumes "only_cell d d' a n" and "only_cell d' d'' a n"
  shows "only_cell d d'' a n"
  using assms same_shape_trans [of d d' d''] same_shape_sec_of [of d d' a]
  by (auto simp: only_cell_def)

lemma only_cell_mono: "only_cell d d' a m \<Longrightarrow> m \<le> n \<Longrightarrow> only_cell d d' a n"
  by (auto simp: only_cell_def)

lemma only_cell_wf: "only_cell d d' a n \<Longrightarrow> wf_dso d'"
  by (simp add: only_cell_def)

lemma only_cell_shape: "only_cell d d' a n \<Longrightarrow> same_shape d d'"
  by (simp add: only_cell_def)

lemma only_cell_nonalloc: "wf_dso d \<Longrightarrow> only_cell d d' a n \<Longrightarrow> nonalloc_eq d d'"
  by (auto simp: only_cell_def nonalloc_eq_def sec_of_iff sec_holds_def)

lemma addr_to_sec_only_cell: "wf_dso d \<Longrightarrow> addr_to_sec d b = Some (r, d') \<Longrightarrow> only_cell d d' a n"
  by (auto simp: addr_to_sec_eq)

section \<open>The contents of an object\<close>

type_synonym image = "elf_data list list"

definition img :: "dso \<Rightarrow> image" where
  "img d = map scn_data (scn d)"

definition patch :: "data_ptr \<Rightarrow> u8 list \<Rightarrow> image \<Rightarrow> image" where
  "patch p bs im = im[dp_sec p := (im ! dp_sec p)[dp_blk p :=
     (im ! dp_sec p ! dp_blk p)\<lparr>d_buf := map_option (overwrite (dp_off p) bs) (d_buf (im ! dp_sec p ! dp_blk p))\<rparr>]]"

definition room :: "dso \<Rightarrow> data_ptr \<Rightarrow> nat \<Rightarrow> bool" where
  "room d p n \<longleftrightarrow> (case deref d p of None \<Rightarrow> False | Some bs \<Rightarrow> n \<le> length bs)"

lemma img_touch [simp]: "img (touch d a) = img d"
  by (simp add: img_def)

lemma overwrite_overwrite:
  assumes "length ys \<le> length zs" and "i + length zs \<le> length xs"
  shows "overwrite i zs (overwrite i ys xs) = overwrite i zs xs"
  using assms by (intro nth_equalityI) (auto simp: nth_overwrite)


lemma room_iff:
  "room d p n \<longleftrightarrow> dp_sec p < length (scn d) \<and> dp_blk p < length (img d ! dp_sec p)
     \<and> (case map_option length (d_buf (img d ! dp_sec p ! dp_blk p)) of None \<Rightarrow> False
        | Some l \<Rightarrow> dp_off p + n \<le> l)"
  by (auto simp: room_def deref_def img_def nth_opt_def guard_opt_def split: option.splits bind_splits)

lemma patch_patch:
  assumes "room d p (length zs)" and "length ys \<le> length zs"
  shows "patch p zs (patch p ys (img d)) = patch p zs (img d)"
  using assms by (auto simp: room_iff patch_def img_def overwrite_overwrite split: option.splits)

lemma same_shape_img:
  assumes "same_shape d e" and "i < length (scn d)"
  shows "map block_shape (img e ! i) = map block_shape (img d ! i)"
proof -
  have "map scn_shape (scn d) ! i = map scn_shape (scn e) ! i"
    using assms(1) by (simp add: same_shape_def)
  then show ?thesis
    using assms(2) same_shape_fields(8) [OF assms(1)] by (simp add: scn_shape_def img_def)
qed

lemma same_shape_room:
  assumes "same_shape d e"
  shows "room e p n \<longleftrightarrow> room d p n"
proof (cases "dp_sec p < length (scn d) \<and> dp_blk p < length (img d ! dp_sec p)")
  case True
  let ?b = "\<lambda>d. img d ! dp_sec p ! dp_blk p"
  have m: "map block_shape (img e ! dp_sec p) = map block_shape (img d ! dp_sec p)"
    using same_shape_img [OF assms] True by simp
  then have l: "length (img e ! dp_sec p) = length (img d ! dp_sec p)"
    using map_eq_imp_length_eq by blast
  have "map block_shape (img e ! dp_sec p) ! dp_blk p = map block_shape (img d ! dp_sec p) ! dp_blk p"
    using m by simp
  then have "block_shape (?b e) = block_shape (?b d)" using True l by simp
  then have "map_option length (d_buf (?b e)) = map_option length (d_buf (?b d))"
    by (simp add: block_shape_def)
  then show ?thesis using l same_shape_fields(8) [OF assms] by (simp add: room_iff)
next
  case False
  moreover have "length (img e ! dp_sec p) = length (img d ! dp_sec p)" if "dp_sec p < length (scn d)"
    using same_shape_img [OF assms that] map_eq_imp_length_eq by blast
  ultimately show ?thesis using same_shape_fields(8) [OF assms] by (auto simp: room_iff)
qed

lemma flagscn_img [simp]: "img (elf_flagscn_dirty d i) = img d"
  by (simp add: img_def elf_flagscn_dirty_def map_list_update_same)

lemma store_img:
  assumes "deref d p = Some bs" and "length ys \<le> length bs"
  shows "img (store d p (ys @ drop (length ys) bs)) = patch p ys (img d)"
proof -
  obtain buf where 1: "dp_sec p < length (scn d)" "dp_blk p < length (scn_data (scn d ! dp_sec p))"
    "d_buf (scn_data (scn d ! dp_sec p) ! dp_blk p) = Some buf" "bs = drop (dp_off p) buf"
    using assms(1) by (auto simp: deref_def opt_simps)
  then show ?thesis
    by (simp add: img_def store_def patch_def put_bytes_def map_update overwrite_def ac_simps)
qed

context mem_cell
begin

lemma write_only:
  assumes "wf_dso d" and "dwrite wr st d a v = Some (r, d')"
  shows "only_cell d d' a n"
proof -
  have "scn d' ! i = scn d ! i" if i: "sec_of d a \<noteq> Some i" for i
  proof (cases "locate d a")
    case None
    then show ?thesis using assms by (auto simp: write_eq)
  next
    case (Some p)
    then have "i \<noteq> dp_sec p" using i by (auto simp: locate_def split: option.splits)
    moreover from write_ok [OF assms Some] obtain bs' where
      "d' = elf_flagscn_dirty (store (touch d a) p bs') (dp_sec p)"
      by metis
    ultimately show ?thesis by (simp add: elf_flagscn_dirty_def store_def)
  qed
  then show ?thesis using write_keeps [OF assms] write_frame [OF assms] by (simp add: only_cell_def)
qed

lemma read_only:
  assumes "wf_dso d" and "uread rd ld d a = Some (v, d')"
  shows "only_cell d d' b m"
  using read_keeps [OF assms] assms(1) by auto

lemma write_img:
  assumes "wf_dso d" and "dwrite wr st d a v = Some (0, d')"
  obtains p where "locate d a = Some p" "room d p n"
    "img d' = patch p (if dp_type p = ELF_T_BYTE then enc v else henc (host_lsb d) v) (img d)"
proof (cases "locate d a")
  case None
  then show thesis using assms by (auto simp: write_eq)
next
  case (Some p)
  note c = sel [of "dp_type p = ELF_T_BYTE" "host_lsb d"]
  from write_ok [OF assms Some] obtain bs bs' where 1: "deref d p = Some bs" "n \<le> length bs"
    "(if dp_type p = ELF_T_BYTE then wr else st (host_lsb d)) bs v = Some bs'"
    "d' = elf_flagscn_dirty (store (touch d a) p bs') (dp_sec p)"
    by metis
  let ?e = "if dp_type p = ELF_T_BYTE then enc v else henc (host_lsb d) v"
  have e: "bs' = ?e @ drop n bs" "length ?e = n"
    using 1(2,3) buf_codec.wr_enc [OF c, of bs v] buf_codec.enc_length [OF c, of v] by auto
  have "room d p n" using 1(1,2) by (simp add: room_def)
  moreover have "img d' = patch p ?e (img d)"
    using store_img [of "touch d a" p bs ?e] 1(1,2) e by (simp add: 1(4))
  ultimately show thesis using that Some by blast
qed

lemma write_total:
  assumes "wf_dso d" and "locate d a = Some p" and "room d p n"
  obtains d' where "dwrite wr st d a v = Some (0, d')"
proof -
  note c = sel [of "dp_type p = ELF_T_BYTE" "host_lsb d"]
  obtain bs where "deref d p = Some bs" "n \<le> length bs"
    using assms(3) by (auto simp: room_def split: option.splits)
  moreover obtain bs' where "(if dp_type p = ELF_T_BYTE then wr else st (host_lsb d)) bs v = Some bs'"
    using buf_codec.wr_total [OF c calculation(2)] by auto
  ultimately show thesis using that assms(1,2) by (simp add: write_eq)
qed

end


section \<open>Handlers that keep to their cell\<close>

text \<open>\<open>keeps d a n S m\<close>: if \<open>m\<close> returns, the object \<open>S\<close> selects from its result differs from \<open>d\<close> in the
  cell only. The rules follow the structure of a handler.\<close>

definition keeps :: "dso \<Rightarrow> u64 \<Rightarrow> nat \<Rightarrow> ('r \<Rightarrow> dso) \<Rightarrow> 'r option \<Rightarrow> bool" where
  "keeps d a n S m \<longleftrightarrow> (\<forall>r. m = Some r \<longrightarrow> only_cell d (S r) a n)"

named_theorems keeps_rules \<open>structural rules for handlers that keep to their cell\<close>

lemma keeps_None [keeps_rules]: "keeps d a n S None"
  by (simp add: keeps_def)

lemma keeps_Some [keeps_rules]: "only_cell d (S r) a n \<Longrightarrow> keeps d a n S (Some r)"
  by (simp add: keeps_def)

lemma keeps_if [keeps_rules]:
  "(b \<Longrightarrow> keeps d a n S x) \<Longrightarrow> (\<not> b \<Longrightarrow> keeps d a n S y) \<Longrightarrow> keeps d a n S (if b then x else y)"
  by simp

lemma keeps_Let [keeps_rules]: "(\<And>v. keeps d a n S (f v)) \<Longrightarrow> keeps d a n S (Let v f)"
  by simp

lemma keeps_prod [keeps_rules]:
  "(\<And>x y. z = (x, y) \<Longrightarrow> keeps d a n S (f x y)) \<Longrightarrow> keeps d a n S (case z of (x, y) \<Rightarrow> f x y)"
  by (cases z) simp

lemma keeps_option [keeps_rules]:
  "keeps d a n S u \<Longrightarrow> (\<And>x. z = Some x \<Longrightarrow> keeps d a n S (f x)) \<Longrightarrow>
   keeps d a n S (case z of None \<Rightarrow> u | Some x \<Rightarrow> f x)"
  by (cases z) simp_all

lemma keeps_bind [keeps_rules]:
  assumes "keeps d a n snd m" and "\<And>v d'. only_cell d d' a n \<Longrightarrow> keeps d a n S (f (v, d'))"
  shows "keeps d a n S (m \<bind> f)"
  using assms by (cases m) (auto simp: keeps_def)

lemma keeps_bind_any:
  "(\<And>x. m = Some x \<Longrightarrow> keeps d a n S (f x)) \<Longrightarrow> keeps d a n S (m \<bind> f)"
  by (cases m) (auto simp: keeps_def)

lemma keeps_map_fst [keeps_rules]:
  "keeps d a n snd m \<Longrightarrow> keeps d a n snd (map_option (\<lambda>(v, d). (f v, d)) m)"
  by (auto simp: keeps_def)

lemma keepsD: "keeps d a n S m \<Longrightarrow> m = Some r \<Longrightarrow> only_cell d (S r) a n"
  by (simp add: keeps_def)

lemma keeps_addr_to_sec [keeps_rules]: "only_cell d e a n \<Longrightarrow> keeps d a n snd (addr_to_sec e b)"
  using addr_to_sec_only_cell only_cell_wf only_cell_trans unfolding keeps_def
  by (metis prod.collapse)

context mem_cell
begin

lemma keeps_read: "only_cell d e a m \<Longrightarrow> keeps d a m snd (uread rd ld e b)"
  using read_only only_cell_wf only_cell_trans unfolding keeps_def by (metis prod.collapse)

lemma keeps_write: "only_cell d e a m \<Longrightarrow> n \<le> m \<Longrightarrow> keeps d a m snd (dwrite wr st e a v)"
  using write_only only_cell_wf only_cell_trans only_cell_mono unfolding keeps_def
  by (metis prod.collapse)

end

lemmas keeps_reads [keeps_rules] =
  mle32.keeps_read [folded read_ule32_def] mbe32.keeps_read [folded read_ube32_def]
  mle64.keeps_read [folded read_ule64_def] mbe64.keeps_read [folded read_ube64_def]

lemmas keeps_writes [keeps_rules] =
  mle32.keeps_write [folded write_le32_def] mbe32.keeps_write [folded write_be32_def]
  mle64.keeps_write [folded write_le64_def] mbe64.keeps_write [folded write_be64_def]

section \<open>Overwriting what a handler wrote\<close>

text \<open>\<open>within d d' a n\<close>: the image of \<open>d'\<close> is that of \<open>d\<close> with at most \<open>n\<close> bytes replaced from address \<open>a\<close>
  on. A write of \<open>n\<close> bytes there makes the two equal again.\<close>

definition within :: "dso \<Rightarrow> dso \<Rightarrow> u64 \<Rightarrow> nat \<Rightarrow> bool" where
  "within d d' a n \<longleftrightarrow> wf_dso d' \<and> same_shape d d' \<and>
     (img d' = img d \<or> (\<exists>p bs. locate d a = Some p \<and> length bs \<le> n \<and> img d' = patch p bs (img d)))"

definition same_img :: "dso \<Rightarrow> dso \<Rightarrow> bool" where
  "same_img d e \<longleftrightarrow> same_shape d e \<and> img d = img e"

lemma within_refl [simp, intro]: "wf_dso d \<Longrightarrow> within d d a n"
  by (simp add: within_def)

lemma within_touch: "within d d' a n \<Longrightarrow> within (touch d b) (touch d' c) a n"
  unfolding within_def
  by (metis img_touch locate_touch same_shape_touch same_shape_trans wf_touch)

lemma within_img: "within d d' a n \<Longrightarrow> wf_dso d' \<and> same_shape d d'"
  by (simp add: within_def)

lemma wf_locate: "wf_dso d \<Longrightarrow> same_shape d e \<Longrightarrow> locate e a = locate d a"
  by (simp add: same_shape_locate wf_dso_def)

lemma sec_name_is_cong:
  assumes "same_shape d e" and "nonalloc_eq d e"
    and "\<not> RELOCATE_SCN (sh_flags (shdr d ! unat (e_shstrndx (ehdr d))))"
  shows "sec_name_is e i nm = sec_name_is d i nm"
proof (cases "unat (e_shstrndx (ehdr d)) < length (shdr d)")
  case True
  then have "scn e ! unat (e_shstrndx (ehdr d)) = scn d ! unat (e_shstrndx (ehdr d))"
    using assms(2,3) by (simp add: nonalloc_eq_def)
  then have "nth_opt (scn e) (unat (e_shstrndx (ehdr d))) = nth_opt (scn d) (unat (e_shstrndx (ehdr d)))"
    using same_shape_fields(8) [OF assms(1)] by (simp add: nth_opt_def)
  then show ?thesis by (simp add: sec_name_is_def strptr_def same_shape_fields [OF assms(1)])
next
  case False
  then have "nth_opt (shdr d) (unat (e_shstrndx (ehdr d))) = None" by (simp add: nth_opt_def)
  then show ?thesis
    by (auto simp: sec_name_is_def strptr_def same_shape_fields [OF assms(1)] nth_opt_def)
qed

context mem_cell
begin

lemma write_within:
  assumes "wf_dso d" and "dwrite wr st d a v = Some (r, d')"
  shows "within d d' a n"
proof -
  note k = write_keeps [OF assms]
  have "img d' = img d \<or> (\<exists>p bs. locate d a = Some p \<and> length bs \<le> n \<and> img d' = patch p bs (img d))"
  proof (cases "r = 0")
    case True
    from write_img [OF assms(1) assms(2) [unfolded True]] obtain p where
      "locate d a = Some p"
      "img d' = patch p (if dp_type p = ELF_T_BYTE then enc v else henc (host_lsb d) v) (img d)"
      by blast
    then show ?thesis
      using buf_codec.enc_length [OF tgt] buf_codec.enc_length [OF host] by fastforce
  qed (use k in \<open>auto simp: img_def\<close>)
  then show ?thesis using k by (simp add: within_def)
qed

lemma write_replace:
  assumes "wf_dso d" and "dwrite wr st d a v = Some (r, e)" and "within d d1 a n"
  shows "\<exists>e1. dwrite wr st d1 a v = Some (r, e1) \<and> same_img e e1 \<and> wf_dso e1"
proof -
  have d1: "wf_dso d1" "same_shape d d1" using assms(3) by (simp_all add: within_def)
  have l: "locate d1 a = locate d a" using wf_locate assms(1) d1(2) .
  show ?thesis
  proof (cases "locate d a")
    case None
    then have "img d1 = img d" using assms(3) by (auto simp: within_def)
    moreover have "r = - 1" "e = touch d a" using None assms(1,2) by (auto simp: write_eq)
    moreover have "dwrite wr st d1 a v = Some (- 1, touch d1 a)" using None l d1(1) by (simp add: write_eq)
    moreover have "same_shape (touch d a) (touch d1 a)"
      using d1(2) same_shape_trans same_shape_touch by blast
    ultimately show ?thesis using d1(1) by (simp add: same_img_def)
  next
    case (Some p)
    let ?e = "if dp_type p = ELF_T_BYTE then enc v else henc (host_lsb d) v"
    have len: "length ?e = n"
      using buf_codec.enc_length [OF tgt] buf_codec.enc_length [OF host] by simp
    have r0: "r = 0" by (rule write_ok [OF assms(1,2) Some])
    have e: "room d p n" "img e = patch p ?e (img d)"
      by (rule write_img [OF assms(1) assms(2) [unfolded r0]]; use Some in simp)+
    then have "room d1 p n" using same_shape_room [OF d1(2)] by simp
    then obtain e1 where e1: "dwrite wr st d1 a v = Some (0, e1)"
      using write_total d1(1) l Some by metis
    have "host_lsb d1 = host_lsb d" using same_shape_fields [OF d1(2)] by simp
    then have "img e1 = patch p ?e (img d1)"
      by - (rule write_img [OF d1(1) e1]; use l Some in simp)
    also have "\<dots> = patch p ?e (img d)"
      using assms(3) Some e(1) len patch_patch [of d p ?e] by (auto simp: within_def)
    finally have "img e1 = img e" using e(2) by simp
    moreover have "same_shape e e1"
      using write_keeps [OF assms(1,2)] write_keeps [OF d1(1) e1] d1(2)
      by (meson same_shape_sym same_shape_trans)
    ultimately show ?thesis
      using e1 r0 write_keeps [OF d1(1) e1] by (auto simp: same_img_def)
  qed
qed

lemma read_within:
  assumes "wf_dso d" and "only_cell d d1 a m" and "unat a + m \<le> unat b \<or> unat b + n \<le> unat a"
    and "uread rd ld d b = Some (v, e)"
  shows "uread rd ld d1 b = Some (v, touch d1 b) \<and> e = touch d b"
proof -
  have d1: "wf_dso d1" "same_shape d d1" "bytes_at d1 b n = bytes_at d b n"
    using assms(2,3) by (auto simp: only_cell_def)
  have l: "locate d1 b = locate d b" using wf_locate assms(1) d1(2) .
  have e: "e = touch d b" using read_keeps [OF assms(1,4)] by simp
  show ?thesis
  proof (cases "bytes_at d b n")
    case (Some x)
    then show ?thesis
      using read_frame [OF assms(1) d1(1) _ d1(3) _ assms(4)] same_shape_fields [OF d1(2)] e by simp
  next
    case None
    have "locate d b = None"
    proof (rule ccontr)
      assume "locate d b \<noteq> None"
      then obtain p where p: "locate d b = Some p" by blast
      note c = sel [of "dp_type p = ELF_T_BYTE" "host_lsb d"]
      obtain bs where bs: "deref d p = Some bs"
        "(if dp_type p = ELF_T_BYTE then rd else ld (host_lsb d)) bs = Some v"
        using assms(1,4) p by (auto simp: read_eq opt_simps)
      then have "n \<le> length bs" using buf_codec.rd_defined [OF c, of bs] by auto
      then show False using None p bs by (simp add: bytes_at_def)
    qed
    then show ?thesis using l assms(1,4) d1(1) e by (simp add: read_eq)
  qed
qed

end

lemma find_progbits_cong:
  assumes "same_shape d e" and "nonalloc_eq d e"
    and "\<not> RELOCATE_SCN (sh_flags (shdr d ! unat (e_shstrndx (ehdr d))))"
  shows "find_progbits e nm i = find_progbits d nm i"
  using assms
proof (induction d nm i rule: find_progbits.induct)
  case (1 d nm i)
  note f = same_shape_fields [OF 1(3)] sec_name_is_cong [OF 1(3-5)]
  show ?case
    by (subst find_progbits.simps, subst (3) find_progbits.simps)
      (use 1 f in \<open>auto intro!: Option.bind_cong\<close>)
qed

context mem_cell
begin

lemma read_patch:
  assumes "wf_dso d" and "uread rd ld d a = Some (v, e)" and "locate d a = Some p"
  shows "room d p n \<and>
    patch p (if dp_type p = ELF_T_BYTE then enc v else henc (host_lsb d) v) (img d) = img d"
proof -
  note c = sel [of "dp_type p = ELF_T_BYTE" "host_lsb d"]
  obtain bs where bs: "deref d p = Some bs"
    "(if dp_type p = ELF_T_BYTE then rd else ld (host_lsb d)) bs = Some v"
    using assms by (auto simp: read_eq opt_simps)
  then have n: "n \<le> length bs" using buf_codec.rd_defined [OF c, of bs] by auto
  have e: "take n bs = (if dp_type p = ELF_T_BYTE then enc v else henc (host_lsb d) v)"
    using buf_codec.enc_rd [OF c bs(2)] by (simp split: if_splits)
  have "patch p (take n bs) (img d) = img d"
  proof -
    obtain buf where b: "dp_sec p < length (scn d)" "dp_blk p < length (scn_data (scn d ! dp_sec p))"
      "d_buf (scn_data (scn d ! dp_sec p) ! dp_blk p) = Some buf" "bs = drop (dp_off p) buf"
      "dp_off p \<le> length buf"
      using bs(1) by (auto simp: deref_def opt_simps)
    then have "overwrite (dp_off p) (take n bs) buf = buf"
      using overwrite_same [of "dp_off p" n buf] n by simp
    moreover have u: "(scn_data (scn d ! dp_sec p) ! dp_blk p)\<lparr>d_buf := Some buf\<rparr>
        = scn_data (scn d ! dp_sec p) ! dp_blk p"
      using b(3) by (cases "scn_data (scn d ! dp_sec p) ! dp_blk p") simp
    ultimately show ?thesis using b by (simp add: patch_def img_def u list_update_same_conv)
  qed
  then show ?thesis using bs(1) n e by (simp add: room_def)
qed

end

end
