(* ===== verification/Gelf.thy ===== *)
theory Gelf
  imports Arch
begin

text \<open>
  \<^verbatim>\<open>gelf/gelf.c\<close>: reading and updating the entries of symbol, dynamic and relocation sections, whose
  data libelf holds as arrays of C structures in host order. An entry of a 32-bit object is widened
  on reading and narrowed on writing.

  A getter returns \<^term>\<open>Some None\<close> where the C function returns a null pointer; an update returns the C
  result, 1 for success, with the changed descriptor.

  The lemmas are the contract \<open>entry_table\<close> of an array: an update succeeds exactly where a read does, is
  read back (up to the narrowing), and leaves the other entries alone.
\<close>

section \<open>Members of a structure\<close>

definition peek :: "(u8 list \<Rightarrow> 'w option) \<Rightarrow> nat \<Rightarrow> u8 list \<Rightarrow> 'w option" where
  "peek ld off buf = ld (drop off buf)"

definition poke :: "(u8 list \<Rightarrow> 'w \<Rightarrow> u8 list option) \<Rightarrow> nat \<Rightarrow> 'w \<Rightarrow> u8 list \<Rightarrow> u8 list option" where
  "poke st off v buf = do { t \<leftarrow> st (drop off buf) v; Some (take off buf @ t) }"

definition ELF32_R_SYM :: "u32 \<Rightarrow> u32" where
  "ELF32_R_SYM i = drop_bit 8 i"

definition ELF32_R_TYPE :: "u32 \<Rightarrow> u32" where
  "ELF32_R_TYPE i = i AND 0xff"

definition ELF32_R_INFO :: "u64 \<Rightarrow> u64 \<Rightarrow> u32" where
  "ELF32_R_INFO s t = ucast (push_bit 8 s + (t AND 0xff))"

section \<open>Symbols\<close>

record elf_sym =
  st_name :: u32
  st_info :: u8
  st_other :: u8
  st_shndx :: u16
  st_value :: u64
  st_size :: u64

definition gelfx_getsym :: "u8 \<Rightarrow> bool \<Rightarrow> elf_data \<Rightarrow> nat \<Rightarrow> elf_sym option option" where
  "gelfx_getsym cls lsb data ndx =
     (if d_type data \<noteq> ELF_T_SYM then Some None
      else if cls = ELFCLASS32 then
        (if (ndx + 1) * 16 > unat (d_size data) then Some None
         else do {
           buf \<leftarrow> d_buf data;
           nm \<leftarrow> peek (host_ld32 lsb) (ndx * 16) buf;
           inf \<leftarrow> peek (host_ld8 lsb) (ndx * 16 + 12) buf;
           oth \<leftarrow> peek (host_ld8 lsb) (ndx * 16 + 13) buf;
           shn \<leftarrow> peek (host_ld16 lsb) (ndx * 16 + 14) buf;
           val \<leftarrow> peek (host_ld32 lsb) (ndx * 16 + 4) buf;
           siz \<leftarrow> peek (host_ld32 lsb) (ndx * 16 + 8) buf;
           Some (Some \<lparr>st_name = nm, st_info = inf, st_other = oth, st_shndx = shn,
             st_value = ucast val, st_size = ucast siz\<rparr>)
         })
      else if cls = ELFCLASS64 then
        (if (ndx + 1) * 24 > unat (d_size data) then Some None
         else do {
           buf \<leftarrow> d_buf data;
           nm \<leftarrow> peek (host_ld32 lsb) (ndx * 24) buf;
           inf \<leftarrow> peek (host_ld8 lsb) (ndx * 24 + 4) buf;
           oth \<leftarrow> peek (host_ld8 lsb) (ndx * 24 + 5) buf;
           shn \<leftarrow> peek (host_ld16 lsb) (ndx * 24 + 6) buf;
           val \<leftarrow> peek (host_ld64 lsb) (ndx * 24 + 8) buf;
           siz \<leftarrow> peek (host_ld64 lsb) (ndx * 24 + 16) buf;
           Some (Some \<lparr>st_name = nm, st_info = inf, st_other = oth, st_shndx = shn,
             st_value = val, st_size = siz\<rparr>)
         })
      else Some None)"

definition gelfx_update_sym :: "u8 \<Rightarrow> bool \<Rightarrow> elf_data \<Rightarrow> nat \<Rightarrow> elf_sym \<Rightarrow> (int \<times> elf_data) option" where
  "gelfx_update_sym cls lsb data ndx src =
     (if d_type data \<noteq> ELF_T_SYM then Some (0, data)
      else if cls = ELFCLASS32 then
        (if (ndx + 1) * 16 > unat (d_size data) then Some (0, data)
         else do {
           buf \<leftarrow> d_buf data;
           buf \<leftarrow> poke (host_st32 lsb) (ndx * 16) (st_name src) buf;
           buf \<leftarrow> poke (host_st8 lsb) (ndx * 16 + 12) (st_info src) buf;
           buf \<leftarrow> poke (host_st8 lsb) (ndx * 16 + 13) (st_other src) buf;
           buf \<leftarrow> poke (host_st16 lsb) (ndx * 16 + 14) (st_shndx src) buf;
           buf \<leftarrow> poke (host_st32 lsb) (ndx * 16 + 4) (ucast (st_value src)) buf;
           buf \<leftarrow> poke (host_st32 lsb) (ndx * 16 + 8) (ucast (st_size src)) buf;
           Some (1, data\<lparr>d_buf := Some buf\<rparr>)
         })
      else if cls = ELFCLASS64 then
        (if (ndx + 1) * 24 > unat (d_size data) then Some (0, data)
         else do {
           buf \<leftarrow> d_buf data;
           buf \<leftarrow> poke (host_st32 lsb) (ndx * 24) (st_name src) buf;
           buf \<leftarrow> poke (host_st8 lsb) (ndx * 24 + 4) (st_info src) buf;
           buf \<leftarrow> poke (host_st8 lsb) (ndx * 24 + 5) (st_other src) buf;
           buf \<leftarrow> poke (host_st16 lsb) (ndx * 24 + 6) (st_shndx src) buf;
           buf \<leftarrow> poke (host_st64 lsb) (ndx * 24 + 8) (st_value src) buf;
           buf \<leftarrow> poke (host_st64 lsb) (ndx * 24 + 16) (st_size src) buf;
           Some (1, data\<lparr>d_buf := Some buf\<rparr>)
         })
      else Some (0, data))"

text \<open>\<^verbatim>\<open>get_sym_from_iterator\<close> of \<^verbatim>\<open>src/data.c\<close>: the return code, the symbol if one was stored, and the
  iterator and object afterwards. \<^verbatim>\<open>gelf_fsize\<close> of a symbol is 16 or 24 by class.\<close>

definition gelf_fsize_sym :: "dso \<Rightarrow> u64" where
  "gelf_fsize_sym d = (if ei_class (ehdr d) = ELFCLASS32 then 16
     else if ei_class (ehdr d) = ELFCLASS64 then 24 else 0)"

definition get_sym_from_iterator ::
  "dso \<Rightarrow> data_iterator \<Rightarrow> (int \<times> elf_sym option \<times> data_iterator \<times> dso) option" where
  "get_sym_from_iterator d it = (
     let siz = gelf_fsize_sym d in do {
       (ptr, it, d) \<leftarrow> get_data_from_iterator d it siz;
       case ptr of
         None \<Rightarrow> Some (0, None, it, d)
       | Some (sec, k, offset) \<Rightarrow>
           (if siz = 0 then None
            else if offset mod siz = 0 then do {
              sc \<leftarrow> nth_opt (scn d) sec;
              b \<leftarrow> nth_opt (scn_data sc) k;
              sy \<leftarrow> gelfx_getsym (ei_class (ehdr d)) (host_lsb d) b (unat (offset div siz));
              Some (1, sy, it, d)
            } else Some (0, None, it, d))
     })"

section \<open>Relocations without addend\<close>

definition gelfx_getrel :: "u8 \<Rightarrow> bool \<Rightarrow> elf_data \<Rightarrow> nat \<Rightarrow> elf_rel option option" where
  "gelfx_getrel cls lsb data ndx =
     (if d_type data \<noteq> ELF_T_REL then Some None
      else if cls = ELFCLASS32 then
        (if (ndx + 1) * 8 > unat (d_size data) then Some None
         else do {
           buf \<leftarrow> d_buf data;
           off \<leftarrow> peek (host_ld32 lsb) (ndx * 8) buf;
           inf \<leftarrow> peek (host_ld32 lsb) (ndx * 8 + 4) buf;
           Some (Some \<lparr>r_offset = ucast off,
             r_info = GELF_R_INFO (ucast (ELF32_R_SYM inf)) (ucast (ELF32_R_TYPE inf))\<rparr>)
         })
      else if cls = ELFCLASS64 then
        (if (ndx + 1) * 16 > unat (d_size data) then Some None
         else do {
           buf \<leftarrow> d_buf data;
           off \<leftarrow> peek (host_ld64 lsb) (ndx * 16) buf;
           inf \<leftarrow> peek (host_ld64 lsb) (ndx * 16 + 8) buf;
           Some (Some \<lparr>r_offset = off, r_info = inf\<rparr>)
         })
      else Some None)"

definition gelfx_update_rel :: "u8 \<Rightarrow> bool \<Rightarrow> elf_data \<Rightarrow> nat \<Rightarrow> elf_rel \<Rightarrow> (int \<times> elf_data) option" where
  "gelfx_update_rel cls lsb data ndx src =
     (if d_type data \<noteq> ELF_T_REL then Some (0, data)
      else if cls = ELFCLASS32 then
        (if (ndx + 1) * 8 > unat (d_size data) then Some (0, data)
         else do {
           buf \<leftarrow> d_buf data;
           buf \<leftarrow> poke (host_st32 lsb) (ndx * 8) (ucast (r_offset src)) buf;
           buf \<leftarrow> poke (host_st32 lsb) (ndx * 8 + 4)
             (ELF32_R_INFO (GELF_R_SYM (r_info src)) (GELF_R_TYPE (r_info src))) buf;
           Some (1, data\<lparr>d_buf := Some buf\<rparr>)
         })
      else if cls = ELFCLASS64 then
        (if (ndx + 1) * 16 > unat (d_size data) then Some (0, data)
         else do {
           buf \<leftarrow> d_buf data;
           buf \<leftarrow> poke (host_st64 lsb) (ndx * 16) (r_offset src) buf;
           buf \<leftarrow> poke (host_st64 lsb) (ndx * 16 + 8) (r_info src) buf;
           Some (1, data\<lparr>d_buf := Some buf\<rparr>)
         })
      else Some (0, data))"

section \<open>Relocations with addend\<close>

definition gelfx_getrela :: "u8 \<Rightarrow> bool \<Rightarrow> elf_data \<Rightarrow> nat \<Rightarrow> elf_rela option option" where
  "gelfx_getrela cls lsb data ndx =
     (if d_type data \<noteq> ELF_T_RELA then Some None
      else if cls = ELFCLASS32 then
        (if (ndx + 1) * 12 > unat (d_size data) then Some None
         else do {
           buf \<leftarrow> d_buf data;
           off \<leftarrow> peek (host_ld32 lsb) (ndx * 12) buf;
           inf \<leftarrow> peek (host_ld32 lsb) (ndx * 12 + 4) buf;
           add \<leftarrow> peek (host_ld32 lsb) (ndx * 12 + 8) buf;
           Some (Some \<lparr>ra_offset = ucast off,
             ra_info = GELF_R_INFO (ucast (ELF32_R_SYM inf)) (ucast (ELF32_R_TYPE inf)),
             ra_addend = scast add\<rparr>)
         })
      else if cls = ELFCLASS64 then
        (if (ndx + 1) * 24 > unat (d_size data) then Some None
         else do {
           buf \<leftarrow> d_buf data;
           off \<leftarrow> peek (host_ld64 lsb) (ndx * 24) buf;
           inf \<leftarrow> peek (host_ld64 lsb) (ndx * 24 + 8) buf;
           add \<leftarrow> peek (host_ld64 lsb) (ndx * 24 + 16) buf;
           Some (Some \<lparr>ra_offset = off, ra_info = inf, ra_addend = add\<rparr>)
         })
      else Some None)"

definition gelfx_update_rela :: "u8 \<Rightarrow> bool \<Rightarrow> elf_data \<Rightarrow> nat \<Rightarrow> elf_rela \<Rightarrow> (int \<times> elf_data) option" where
  "gelfx_update_rela cls lsb data ndx src =
     (if d_type data \<noteq> ELF_T_RELA then Some (0, data)
      else if cls = ELFCLASS32 then
        (if (ndx + 1) * 12 > unat (d_size data) then Some (0, data)
         else do {
           buf \<leftarrow> d_buf data;
           buf \<leftarrow> poke (host_st32 lsb) (ndx * 12) (ucast (ra_offset src)) buf;
           buf \<leftarrow> poke (host_st32 lsb) (ndx * 12 + 4)
             (ELF32_R_INFO (GELF_R_SYM (ra_info src)) (GELF_R_TYPE (ra_info src))) buf;
           buf \<leftarrow> poke (host_st32 lsb) (ndx * 12 + 8) (ucast (ra_addend src)) buf;
           Some (1, data\<lparr>d_buf := Some buf\<rparr>)
         })
      else if cls = ELFCLASS64 then
        (if (ndx + 1) * 24 > unat (d_size data) then Some (0, data)
         else do {
           buf \<leftarrow> d_buf data;
           buf \<leftarrow> poke (host_st64 lsb) (ndx * 24) (ra_offset src) buf;
           buf \<leftarrow> poke (host_st64 lsb) (ndx * 24 + 8) (ra_info src) buf;
           buf \<leftarrow> poke (host_st64 lsb) (ndx * 24 + 16) (ra_addend src) buf;
           Some (1, data\<lparr>d_buf := Some buf\<rparr>)
         })
      else Some (0, data))"

section \<open>Dynamic entries\<close>

definition gelfx_getdyn :: "u8 \<Rightarrow> bool \<Rightarrow> elf_data \<Rightarrow> nat \<Rightarrow> elf_dyn option option" where
  "gelfx_getdyn cls lsb data ndx =
     (if d_type data \<noteq> ELF_T_DYN then Some None
      else if cls = ELFCLASS32 then
        (if (ndx + 1) * 8 > unat (d_size data) then Some None
         else do {
           buf \<leftarrow> d_buf data;
           tag \<leftarrow> peek (host_ld32 lsb) (ndx * 8) buf;
           v \<leftarrow> peek (host_ld32 lsb) (ndx * 8 + 4) buf;
           Some (Some \<lparr>d_tag = scast tag, d_ptr = ucast v\<rparr>)
         })
      else if cls = ELFCLASS64 then
        (if (ndx + 1) * 16 > unat (d_size data) then Some None
         else do {
           buf \<leftarrow> d_buf data;
           tag \<leftarrow> peek (host_ld64 lsb) (ndx * 16) buf;
           v \<leftarrow> peek (host_ld64 lsb) (ndx * 16 + 8) buf;
           Some (Some \<lparr>d_tag = tag, d_ptr = v\<rparr>)
         })
      else Some None)"

definition gelfx_update_dyn :: "u8 \<Rightarrow> bool \<Rightarrow> elf_data \<Rightarrow> nat \<Rightarrow> elf_dyn \<Rightarrow> (int \<times> elf_data) option" where
  "gelfx_update_dyn cls lsb data ndx src =
     (if d_type data \<noteq> ELF_T_DYN then Some (0, data)
      else if cls = ELFCLASS32 then
        (if (ndx + 1) * 8 > unat (d_size data) then Some (0, data)
         else do {
           buf \<leftarrow> d_buf data;
           buf \<leftarrow> poke (host_st32 lsb) (ndx * 8) (ucast (d_tag src)) buf;
           buf \<leftarrow> poke (host_st32 lsb) (ndx * 8 + 4) (ucast (d_ptr src)) buf;
           Some (1, data\<lparr>d_buf := Some buf\<rparr>)
         })
      else if cls = ELFCLASS64 then
        (if (ndx + 1) * 16 > unat (d_size data) then Some (0, data)
         else do {
           buf \<leftarrow> d_buf data;
           buf \<leftarrow> poke (host_st64 lsb) (ndx * 16) (d_tag src) buf;
           buf \<leftarrow> poke (host_st64 lsb) (ndx * 16 + 8) (d_ptr src) buf;
           Some (1, data\<lparr>d_buf := Some buf\<rparr>)
         })
      else Some (0, data))"


section \<open>Reading members of an overwritten structure\<close>

lemma drop_overwrite_in:
  "i \<le> j \<Longrightarrow> j \<le> i + length ys \<Longrightarrow> i \<le> length xs \<Longrightarrow>
   drop j (overwrite i ys xs) = drop (j - i) ys @ drop (i + length ys) xs"
  by (simp add: overwrite_def)

lemma take_drop_overwrite_out:
  assumes "i + length ys \<le> length xs" and "j + n \<le> i \<or> i + length ys \<le> j"
  shows "take n (drop j (overwrite i ys xs)) = take n (drop j xs)"
  using assms by (intro take_drop_cong) (auto simp: nth_overwrite)

lemma overwrite_in:
  assumes "i \<le> j" and "j + length zs \<le> i + length ys" and "i + length ys \<le> length xs"
  shows "overwrite j zs (overwrite i ys xs) = overwrite i (overwrite (j - i) zs ys) xs"
  using assms by (intro nth_equalityI) (auto simp: nth_overwrite)

context buf_codec
begin

lemma poke_eq:
  "0 < n \<Longrightarrow> poke wr off v buf = (if off + n \<le> length buf then Some (overwrite off (enc v) buf) else None)"
  by (auto simp: poke_def wr_enc overwrite_def enc_length ac_simps)

lemma peek_defined: "0 < n \<Longrightarrow> off + n \<le> length buf \<Longrightarrow> \<exists>v. peek rd off buf = Some v"
  using rd_defined [of "drop off buf"] by (auto simp: peek_def)

lemma peek_take:
  assumes "0 < n" and "off + n \<le> length buf" and "length buf' = length buf"
    and "take n (drop off buf') = take n (drop off buf)"
  shows "peek rd off buf' = peek rd off buf"
  using rd_take [of n "drop off buf"] rd_take [of n "drop off buf'"] assms by (simp add: peek_def)

lemma peek_out:
  assumes "0 < n" and "off + n \<le> length buf" and "i + length ys \<le> length buf"
    and "off + n \<le> i \<or> i + length ys \<le> off"
  shows "peek rd off (overwrite i ys buf) = peek rd off buf"
  using assms by (intro peek_take take_drop_overwrite_out) auto

lemma peek_same:
  assumes "0 < n" and "off + n \<le> length buf"
  shows "peek rd off (overwrite off (enc v) buf) = Some v"
  using assms rd_enc by (simp add: peek_def drop_overwrite)

end


lemma host_bytes_length [simp]:
  "length (u8_bytes b) = 1" "length (host_bytes16 lsb h) = 2" "length (host_bytes32 lsb w) = 4"
  "length (host_bytes64 lsb x) = 8"
  using b8.enc_length buf_codec.enc_length [OF host_codec16] buf_codec.enc_length [OF host_codec32]
    buf_codec.enc_length [OF host_codec64] by simp_all

lemmas poke_simps =
  buf_codec.poke_eq [OF host_codec8, simplified] buf_codec.poke_eq [OF host_codec16, simplified]
  buf_codec.poke_eq [OF host_codec32, simplified] buf_codec.poke_eq [OF host_codec64, simplified]

lemmas peek_simps =
  buf_codec.peek_same [OF host_codec8, simplified] buf_codec.peek_out [OF host_codec8, simplified]
  buf_codec.peek_same [OF host_codec16, simplified] buf_codec.peek_out [OF host_codec16, simplified]
  buf_codec.peek_same [OF host_codec32, simplified] buf_codec.peek_out [OF host_codec32, simplified]
  buf_codec.peek_same [OF host_codec64, simplified] buf_codec.peek_out [OF host_codec64, simplified]

section \<open>The contract of an array of entries\<close>

text \<open>\<open>narrow\<close> is what a class keeps of an entry.\<close>

locale entry_table =
  fixes narrow :: "u8 \<Rightarrow> 'r \<Rightarrow> 'r"
    and get :: "u8 \<Rightarrow> bool \<Rightarrow> elf_data \<Rightarrow> nat \<Rightarrow> 'r option option"
    and upd :: "u8 \<Rightarrow> bool \<Rightarrow> elf_data \<Rightarrow> nat \<Rightarrow> 'r \<Rightarrow> (int \<times> elf_data) option"
  assumes upd_shape: "wf_block b \<Longrightarrow> upd c l b i r = Some (rc, b') \<Longrightarrow>
      block_shape b' = block_shape b \<and> (rc = 0 \<and> b' = b \<or> rc = 1)"
    and upd_get: "wf_block b \<Longrightarrow> upd c l b i r = Some (1, b') \<Longrightarrow> get c l b' i = Some (Some (narrow c r))"
    and upd_other: "wf_block b \<Longrightarrow> upd c l b i r = Some (1, b') \<Longrightarrow> j \<noteq> i \<Longrightarrow> get c l b' j = get c l b j"
    and get_upd: "wf_block b \<Longrightarrow> get c l b i = Some (Some s) \<Longrightarrow> \<exists>b'. upd c l b i r = Some (1, b')"
begin

lemma upd_wf: "wf_block b \<Longrightarrow> upd c l b i r = Some (rc, b') \<Longrightarrow> wf_block b'"
  using upd_shape [of b c l i r rc b'] by (simp add: wf_block_shape)

lemma upd_lookup:
  assumes "wf_block b" and "upd c l b i r = Some (1, b')"
  shows "get c l b' j = (if j = i then Some (Some (narrow c r)) else get c l b j)"
  using upd_get [OF assms] upd_other [OF assms, of j] by simp

end

definition narrow_info :: "u64 \<Rightarrow> u64" where
  "narrow_info i = GELF_R_INFO (take_bit 24 (GELF_R_SYM i)) (take_bit 8 (GELF_R_TYPE i))"

definition narrow_rela :: "u8 \<Rightarrow> elf_rela \<Rightarrow> elf_rela" where
  "narrow_rela cls r = (if cls = ELFCLASS32
     then \<lparr>ra_offset = take_bit 32 (ra_offset r), ra_info = narrow_info (ra_info r),
           ra_addend = signed_take_bit 31 (ra_addend r)\<rparr> else r)"

lemma ELF32_info:
  "GELF_R_INFO (ucast (ELF32_R_SYM (ELF32_R_INFO (GELF_R_SYM i) (GELF_R_TYPE i))))
     (ucast (ELF32_R_TYPE (ELF32_R_INFO (GELF_R_SYM i) (GELF_R_TYPE i)))) = narrow_info i"
proof -
  let ?s = "GELF_R_SYM i" and ?t = "GELF_R_TYPE i"
  have m: "(0xff :: u64) = mask 8" "(0xff :: u32) = mask 8" by (simp_all add: mask_eq_exp_minus_1)
  have "push_bit 8 ?s + (?t AND 0xff) = push_bit 8 ?s OR take_bit 8 ?t"
    unfolding m by (simp add: take_bit_eq_mask [symmetric] and.commute disjunctive_add bit_simps)
  then have e: "ELF32_R_INFO ?s ?t = ucast (push_bit 8 ?s OR take_bit 8 ?t)"
    by (simp add: ELF32_R_INFO_def)
  have "ucast (ELF32_R_SYM (ELF32_R_INFO ?s ?t)) = take_bit 24 ?s"
    unfolding e ELF32_R_SYM_def
    by (rule bit_word_eqI) (auto simp: bit_simps)
  moreover have "ucast (ELF32_R_TYPE (ELF32_R_INFO ?s ?t)) = take_bit 8 ?t"
    unfolding e ELF32_R_TYPE_def m by (rule bit_word_eqI) (auto simp: bit_simps)
  ultimately show ?thesis by (simp add: narrow_info_def)
qed

lemma u64_via_u32: "ucast (ucast (v :: u64) :: u32) = take_bit 32 v"
  "scast (ucast (v :: u64) :: u32) = signed_take_bit 31 v"
  by (rule bit_word_eqI; auto simp: bit_simps min_def)+


lemma update_rela_eq:
  assumes "wf_block b"
  shows "gelfx_update_rela c l b i r =
    (if d_type b \<noteq> ELF_T_RELA \<or> c \<noteq> ELFCLASS32 \<and> c \<noteq> ELFCLASS64
        \<or> (i + 1) * (if c = ELFCLASS32 then 12 else 24) > unat (d_size b) then Some (0, b)
     else map_option (\<lambda>buf. (1, b\<lparr>d_buf := Some
       (if c = ELFCLASS32 then
          overwrite (i * 12 + 8) (host_bytes32 l (ucast (ra_addend r)))
            (overwrite (i * 12 + 4) (host_bytes32 l (ELF32_R_INFO (GELF_R_SYM (ra_info r)) (GELF_R_TYPE (ra_info r))))
              (overwrite (i * 12) (host_bytes32 l (ucast (ra_offset r))) buf))
        else overwrite (i * 24 + 16) (host_bytes64 l (ra_addend r))
            (overwrite (i * 24 + 8) (host_bytes64 l (ra_info r))
              (overwrite (i * 24) (host_bytes64 l (ra_offset r)) buf)))\<rparr>)) (d_buf b))"
  using assms
  by (cases "d_buf b") (auto simp: gelfx_update_rela_def poke_simps wf_block_def ELFCLASS32_def ELFCLASS64_def)

interpretation rela_entry: entry_table narrow_rela gelfx_getrela gelfx_update_rela
proof
  fix b c l i r rc b'
  assume b: "wf_block b" and u: "gelfx_update_rela c l b i r = Some (rc, b')"
  show "block_shape b' = block_shape b \<and> (rc = 0 \<and> b' = b \<or> rc = 1)"
    using u b by (auto simp: update_rela_eq [OF b] block_shape_def wf_block_def split: if_splits)
next
  fix b c l i r b'
  assume b: "wf_block b" and u: "gelfx_update_rela c l b i r = Some (1, b')"
  show "gelfx_getrela c l b' i = Some (Some (narrow_rela c r))"
    using u b
    by (auto simp: update_rela_eq [OF b] gelfx_getrela_def wf_block_def peek_simps narrow_rela_def ELF32_info u64_via_u32
        ELFCLASS32_def ELFCLASS64_def split: if_splits)
  fix j :: nat
  assume "j \<noteq> i"
  then have "j < i \<or> i < j" by auto
  then show "gelfx_getrela c l b' j = gelfx_getrela c l b j"
    using u b 
    by (auto simp: update_rela_eq [OF b] gelfx_getrela_def wf_block_def peek_simps 
        ELFCLASS32_def ELFCLASS64_def split: if_splits)
next
  fix b c l i s r
  assume b: "wf_block b" and "gelfx_getrela c l b i = Some (Some s)"
  then show "\<exists>b'. gelfx_update_rela c l b i r = Some (1, b')"
    by (auto simp: update_rela_eq [OF b] gelfx_getrela_def opt_simps split: if_splits)
qed


definition narrow_rel :: "u8 \<Rightarrow> elf_rel \<Rightarrow> elf_rel" where
  "narrow_rel cls r = (if cls = ELFCLASS32
     then \<lparr>r_offset = take_bit 32 (r_offset r), r_info = narrow_info (r_info r)\<rparr> else r)"

definition narrow_dyn :: "u8 \<Rightarrow> elf_dyn \<Rightarrow> elf_dyn" where
  "narrow_dyn cls r = (if cls = ELFCLASS32
     then \<lparr>d_tag = signed_take_bit 31 (d_tag r), d_ptr = take_bit 32 (d_ptr r)\<rparr> else r)"

definition narrow_sym :: "u8 \<Rightarrow> elf_sym \<Rightarrow> elf_sym" where
  "narrow_sym cls r = (if cls = ELFCLASS32
     then r\<lparr>st_value := take_bit 32 (st_value r), st_size := take_bit 32 (st_size r)\<rparr> else r)"

lemma update_rel_eq:
  assumes "wf_block b"
  shows "gelfx_update_rel c l b i r =
    (if d_type b \<noteq> ELF_T_REL \<or> c \<noteq> ELFCLASS32 \<and> c \<noteq> ELFCLASS64
        \<or> (i + 1) * (if c = ELFCLASS32 then 8 else 16) > unat (d_size b) then Some (0, b)
     else map_option (\<lambda>buf. (1, b\<lparr>d_buf := Some
       (if c = ELFCLASS32
        then overwrite (i * 8 + 4) (host_bytes32 l (ELF32_R_INFO (GELF_R_SYM (r_info r)) (GELF_R_TYPE (r_info r)))) (overwrite (i * 8) (host_bytes32 l (ucast (r_offset r))) buf)
        else overwrite (i * 16 + 8) (host_bytes64 l (r_info r)) (overwrite (i * 16) (host_bytes64 l (r_offset r)) buf))\<rparr>)) (d_buf b))"
  using assms
  by (cases "d_buf b") (auto simp: gelfx_update_rel_def poke_simps wf_block_def ELFCLASS32_def ELFCLASS64_def)

interpretation rel_entry: entry_table narrow_rel gelfx_getrel gelfx_update_rel
proof
  fix b c l i r rc b'
  assume b: "wf_block b" and u: "gelfx_update_rel c l b i r = Some (rc, b')"
  show "block_shape b' = block_shape b \<and> (rc = 0 \<and> b' = b \<or> rc = 1)"
    using u b by (auto simp: update_rel_eq [OF b] block_shape_def wf_block_def split: if_splits)
next
  fix b c l i r b'
  assume b: "wf_block b" and u: "gelfx_update_rel c l b i r = Some (1, b')"
  show "gelfx_getrel c l b' i = Some (Some (narrow_rel c r))"
    using u b
    by (auto simp: update_rel_eq [OF b] gelfx_getrel_def wf_block_def peek_simps narrow_rel_def ELF32_info u64_via_u32
        ELFCLASS32_def ELFCLASS64_def split: if_splits)
  fix j :: nat
  assume "j \<noteq> i"
  then have "j < i \<or> i < j" by auto
  then show "gelfx_getrel c l b' j = gelfx_getrel c l b j"
    using u b
    by (auto simp: update_rel_eq [OF b] gelfx_getrel_def wf_block_def peek_simps
        ELFCLASS32_def ELFCLASS64_def split: if_splits)
next
  fix b c l i s r
  assume b: "wf_block b" and "gelfx_getrel c l b i = Some (Some s)"
  then show "\<exists>b'. gelfx_update_rel c l b i r = Some (1, b')"
    by (auto simp: update_rel_eq [OF b] gelfx_getrel_def opt_simps split: if_splits)
qed

lemma update_dyn_eq:
  assumes "wf_block b"
  shows "gelfx_update_dyn c l b i r =
    (if d_type b \<noteq> ELF_T_DYN \<or> c \<noteq> ELFCLASS32 \<and> c \<noteq> ELFCLASS64
        \<or> (i + 1) * (if c = ELFCLASS32 then 8 else 16) > unat (d_size b) then Some (0, b)
     else map_option (\<lambda>buf. (1, b\<lparr>d_buf := Some
       (if c = ELFCLASS32
        then overwrite (i * 8 + 4) (host_bytes32 l (ucast (d_ptr r))) (overwrite (i * 8) (host_bytes32 l (ucast (d_tag r))) buf)
        else overwrite (i * 16 + 8) (host_bytes64 l (d_ptr r)) (overwrite (i * 16) (host_bytes64 l (d_tag r)) buf))\<rparr>)) (d_buf b))"
  using assms
  by (cases "d_buf b") (auto simp: gelfx_update_dyn_def poke_simps wf_block_def ELFCLASS32_def ELFCLASS64_def)

interpretation dyn_entry: entry_table narrow_dyn gelfx_getdyn gelfx_update_dyn
proof
  fix b c l i r rc b'
  assume b: "wf_block b" and u: "gelfx_update_dyn c l b i r = Some (rc, b')"
  show "block_shape b' = block_shape b \<and> (rc = 0 \<and> b' = b \<or> rc = 1)"
    using u b by (auto simp: update_dyn_eq [OF b] block_shape_def wf_block_def split: if_splits)
next
  fix b c l i r b'
  assume b: "wf_block b" and u: "gelfx_update_dyn c l b i r = Some (1, b')"
  show "gelfx_getdyn c l b' i = Some (Some (narrow_dyn c r))"
    using u b
    by (auto simp: update_dyn_eq [OF b] gelfx_getdyn_def wf_block_def peek_simps narrow_dyn_def u64_via_u32
        ELFCLASS32_def ELFCLASS64_def split: if_splits)
  fix j :: nat
  assume "j \<noteq> i"
  then have "j < i \<or> i < j" by auto
  then show "gelfx_getdyn c l b' j = gelfx_getdyn c l b j"
    using u b
    by (auto simp: update_dyn_eq [OF b] gelfx_getdyn_def wf_block_def peek_simps
        ELFCLASS32_def ELFCLASS64_def split: if_splits)
next
  fix b c l i s r
  assume b: "wf_block b" and "gelfx_getdyn c l b i = Some (Some s)"
  then show "\<exists>b'. gelfx_update_dyn c l b i r = Some (1, b')"
    by (auto simp: update_dyn_eq [OF b] gelfx_getdyn_def opt_simps split: if_splits)
qed

lemma update_sym_eq:
  assumes "wf_block b"
  shows "gelfx_update_sym c l b i r =
    (if d_type b \<noteq> ELF_T_SYM \<or> c \<noteq> ELFCLASS32 \<and> c \<noteq> ELFCLASS64
        \<or> (i + 1) * (if c = ELFCLASS32 then 16 else 24) > unat (d_size b) then Some (0, b)
     else map_option (\<lambda>buf. (1, b\<lparr>d_buf := Some
       (if c = ELFCLASS32
        then overwrite (i * 16 + 8) (host_bytes32 l (ucast (st_size r))) (overwrite (i * 16 + 4) (host_bytes32 l (ucast (st_value r))) (overwrite (i * 16 + 14) (host_bytes16 l (st_shndx r)) (overwrite (i * 16 + 13) (u8_bytes (st_other r)) (overwrite (i * 16 + 12) (u8_bytes (st_info r)) (overwrite (i * 16) (host_bytes32 l (st_name r)) buf)))))
        else overwrite (i * 24 + 16) (host_bytes64 l (st_size r)) (overwrite (i * 24 + 8) (host_bytes64 l (st_value r)) (overwrite (i * 24 + 6) (host_bytes16 l (st_shndx r)) (overwrite (i * 24 + 5) (u8_bytes (st_other r)) (overwrite (i * 24 + 4) (u8_bytes (st_info r)) (overwrite (i * 24) (host_bytes32 l (st_name r)) buf))))))\<rparr>)) (d_buf b))"
  using assms
  by (cases "d_buf b") (auto simp: gelfx_update_sym_def poke_simps wf_block_def ELFCLASS32_def ELFCLASS64_def)

interpretation sym_entry: entry_table narrow_sym gelfx_getsym gelfx_update_sym
proof
  fix b c l i r rc b'
  assume b: "wf_block b" and u: "gelfx_update_sym c l b i r = Some (rc, b')"
  show "block_shape b' = block_shape b \<and> (rc = 0 \<and> b' = b \<or> rc = 1)"
    using u b by (auto simp: update_sym_eq [OF b] block_shape_def wf_block_def split: if_splits)
next
  fix b c l i r b'
  assume b: "wf_block b" and u: "gelfx_update_sym c l b i r = Some (1, b')"
  show "gelfx_getsym c l b' i = Some (Some (narrow_sym c r))"
    using u b
    by (auto simp: update_sym_eq [OF b] gelfx_getsym_def wf_block_def peek_simps narrow_sym_def u64_via_u32
        ELFCLASS32_def ELFCLASS64_def split: if_splits)
  fix j :: nat
  assume "j \<noteq> i"
  then have "j < i \<or> i < j" by auto
  then show "gelfx_getsym c l b' j = gelfx_getsym c l b j"
    using u b
    by (auto simp: update_sym_eq [OF b] gelfx_getsym_def wf_block_def peek_simps
        ELFCLASS32_def ELFCLASS64_def split: if_splits)
next
  fix b c l i s r
  assume b: "wf_block b" and "gelfx_getsym c l b i = Some (Some s)"
  then show "\<exists>b'. gelfx_update_sym c l b i r = Some (1, b')"
    by (auto simp: update_sym_eq [OF b] gelfx_getsym_def opt_simps split: if_splits)
qed


section \<open>Round trips\<close>

text \<open>C25: wherever a relocation with addend can be read from a section, it can be replaced; the section
  then holds the new one at that index, unchanged in a 64-bit object and cut to the 32-bit fields in a
  32-bit one, and every other entry as before.\<close>

theorem gelfx_rela_update_lookup:
  assumes "wf_block b" and "gelfx_getrela c l b i = Some (Some s)"
  shows "\<exists>b'. gelfx_update_rela c l b i r = Some (1, b') \<and> wf_block b'
     \<and> (\<forall>j. gelfx_getrela c l b' j = (if j = i then Some (Some (narrow_rela c r)) else gelfx_getrela c l b j))"
proof -
  obtain b' where "gelfx_update_rela c l b i r = Some (1, b')" using rela_entry.get_upd [OF assms] ..
  then show ?thesis
    using rela_entry.upd_wf [OF assms(1)] rela_entry.upd_lookup [OF assms(1)] by blast
qed

definition sample_rela_block :: elf_data where
  "sample_rela_block = \<lparr>d_type = ELF_T_RELA, d_off = 0, d_size = 24, d_buf = Some (replicate 24 0)\<rparr>"

theorem gelfx_rela_update_lookup_witness:
  "\<exists>b'. gelfx_update_rela ELFCLASS64 True sample_rela_block 0 \<lparr>ra_offset = 0x1018, ra_info = 7, ra_addend = 4\<rparr>
       = Some (1, b')
     \<and> gelfx_getrela ELFCLASS64 True b' 0 = Some (Some \<lparr>ra_offset = 0x1018, ra_info = 7, ra_addend = 4\<rparr>)"
proof -
  have "wf_block sample_rela_block" by (simp add: sample_rela_block_def wf_block_def)
  moreover have "gelfx_getrela ELFCLASS64 True sample_rela_block 0
      = Some (Some \<lparr>ra_offset = 0, ra_info = 0, ra_addend = 0\<rparr>)"
    by (simp add: gelfx_getrela_def sample_rela_block_def elf_consts peek_def host_ld64_def buf_read_defs)
  ultimately show ?thesis
    using gelfx_rela_update_lookup [where r = "\<lparr>ra_offset = 0x1018, ra_info = 7, ra_addend = 4\<rparr>"]
    by (fastforce simp: narrow_rela_def elf_consts)
qed

text \<open>The same for symbols.\<close>

theorem gelfx_sym_update_lookup:
  assumes "wf_block b" and "gelfx_getsym c l b i = Some (Some s)"
  shows "\<exists>b'. gelfx_update_sym c l b i r = Some (1, b') \<and> wf_block b'
     \<and> (\<forall>j. gelfx_getsym c l b' j = (if j = i then Some (Some (narrow_sym c r)) else gelfx_getsym c l b j))"
proof -
  obtain b' where "gelfx_update_sym c l b i r = Some (1, b')" using sym_entry.get_upd [OF assms] ..
  then show ?thesis
    using sym_entry.upd_wf [OF assms(1)] sym_entry.upd_lookup [OF assms(1)] by blast
qed

definition sample_sym_block :: elf_data where
  "sample_sym_block = \<lparr>d_type = ELF_T_SYM, d_off = 0, d_size = 16, d_buf = Some (replicate 16 0)\<rparr>"

theorem gelfx_sym_update_lookup_witness:
  "\<exists>b'. gelfx_update_sym ELFCLASS32 False sample_sym_block 0
       \<lparr>st_name = 1, st_info = 0x12, st_other = 0, st_shndx = 2, st_value = 0x100001000, st_size = 8\<rparr>
       = Some (1, b')
     \<and> gelfx_getsym ELFCLASS32 False b' 0 = Some (Some
       \<lparr>st_name = 1, st_info = 0x12, st_other = 0, st_shndx = 2, st_value = 0x1000, st_size = 8\<rparr>)"
proof -
  have "wf_block sample_sym_block" by (simp add: sample_sym_block_def wf_block_def)
  moreover have "\<exists>s. gelfx_getsym ELFCLASS32 False sample_sym_block 0 = Some (Some s)"
    by (simp add: gelfx_getsym_def sample_sym_block_def elf_consts peek_def host_ld32_def host_ld16_def
        host_ld8_def buf_read_defs)
  ultimately show ?thesis
    using gelfx_sym_update_lookup [where r = "\<lparr>st_name = 1, st_info = 0x12, st_other = 0, st_shndx = 2,
      st_value = 0x100001000, st_size = 8\<rparr>"]
    by (fastforce simp: narrow_sym_def elf_consts)
qed

end
