(* ===== verification/Passes.thy ===== *)
theory Passes
  imports Gelf
begin

text \<open>
  The passes over the relocation sections of an object: \<^verbatim>\<open>prelink_rel\<close> and \<^verbatim>\<open>prelink_rela\<close> of
  \<^verbatim>\<open>src/prelink.c\<close>, \<^verbatim>\<open>undo_prelink_rel\<close> and \<^verbatim>\<open>undo_prelink_rela\<close> of \<^verbatim>\<open>src/undo.c\<close>, \<^verbatim>\<open>adjust_rel\<close> and
  \<^verbatim>\<open>adjust_rela\<close> of \<^verbatim>\<open>src/dso.c\<close>, \<^verbatim>\<open>prelink_conflict_rel\<close> and \<^verbatim>\<open>prelink_conflict_rela\<close> of \<^verbatim>\<open>src/conflict.c\<close>.
  The handlers are those of a \<open>pl_arch\<close>.

  A record that cannot be read leaves the C variable uninitialised; the pass stops there
  (\<^term>\<open>None\<close>).

  The lemmas: under the contract \<open>rela_target\<close> of an architecture, which is interpreted in the
  theories of the architectures, a pass keeps the object well formed, changes no header and no byte
  outside the cells of the relocations it visits.
\<close>

section \<open>Loops\<close>

text \<open>Run \<open>step\<close> for the \<open>n\<close> indices from \<open>i\<close> on, until one reports an error.\<close>

fun for_ndx :: "(nat \<Rightarrow> 's \<Rightarrow> (int \<times> 's) option) \<Rightarrow> nat \<Rightarrow> nat \<Rightarrow> 's \<Rightarrow> (int \<times> 's) option" where
  "for_ndx step i 0 s = Some (0, s)"
| "for_ndx step i (Suc n) s = do {
     (rc, s) \<leftarrow> step i s;
     if rc \<noteq> 0 then Some (1, s) else for_ndx step (Suc i) n s
   }"

text \<open>\<^verbatim>\<open>maxndx = data->d_size / dso->shdr[n].sh_entsize\<close>, an \<^verbatim>\<open>int\<close>.\<close>

definition max_ndx :: "elf_data \<Rightarrow> elf_shdr \<Rightarrow> nat option" where
  "max_ndx b s = (if sh_entsize s = 0 then None
     else Some (nat (sint (ucast (d_size b div sh_entsize s) :: u32))))"

definition block_at :: "dso \<Rightarrow> nat \<Rightarrow> nat \<Rightarrow> elf_data option" where
  "block_at d n k = do { sc \<leftarrow> nth_opt (scn d) n; nth_opt (scn_data sc) k }"

definition set_block :: "dso \<Rightarrow> nat \<Rightarrow> nat \<Rightarrow> elf_data \<Rightarrow> dso" where
  "set_block d n k b = d\<lparr>scn := (scn d)[n := (scn d ! n)\<lparr>scn_data := (scn_data (scn d ! n))[k := b]\<rparr>]\<rparr>"

text \<open>The two nested loops over the blocks of section \<open>n\<close> and the entries of each block.\<close>

definition each_entry ::
  "('s \<Rightarrow> dso) \<Rightarrow> nat \<Rightarrow> (nat \<Rightarrow> nat \<Rightarrow> u64 \<Rightarrow> 's \<Rightarrow> (int \<times> 's) option) \<Rightarrow> 's \<Rightarrow> (int \<times> 's) option" where
  "each_entry obj n step s = do {
     sh \<leftarrow> nth_opt (shdr (obj s)) n;
     sc \<leftarrow> nth_opt (scn (obj s)) n;
     for_ndx (\<lambda>k s. do {
       b \<leftarrow> block_at (obj s) n k;
       m \<leftarrow> max_ndx b sh;
       for_ndx (\<lambda>ndx s. step k ndx (sh_addr sh + d_off b + of_nat ndx * sh_entsize sh) s) 0 m s
     }) 0 (length (scn_data sc)) s
   }"

section \<open>Access to the entries of an object\<close>

definition dso_getrel :: "dso \<Rightarrow> nat \<Rightarrow> nat \<Rightarrow> nat \<Rightarrow> elf_rel option" where
  "dso_getrel d n k ndx = do {
     b \<leftarrow> block_at d n k;
     r \<leftarrow> gelfx_getrel (ei_class (ehdr d)) (host_lsb d) b ndx;
     r
   }"

definition dso_update_rel :: "dso \<Rightarrow> nat \<Rightarrow> nat \<Rightarrow> nat \<Rightarrow> elf_rel \<Rightarrow> dso option" where
  "dso_update_rel d n k ndx rel = do {
     b \<leftarrow> block_at d n k;
     (_, b) \<leftarrow> gelfx_update_rel (ei_class (ehdr d)) (host_lsb d) b ndx rel;
     Some (set_block d n k b)
   }"

definition dso_getrela :: "dso \<Rightarrow> nat \<Rightarrow> nat \<Rightarrow> nat \<Rightarrow> elf_rela option" where
  "dso_getrela d n k ndx = do {
     b \<leftarrow> block_at d n k;
     r \<leftarrow> gelfx_getrela (ei_class (ehdr d)) (host_lsb d) b ndx;
     r
   }"

definition dso_update_rela :: "dso \<Rightarrow> nat \<Rightarrow> nat \<Rightarrow> nat \<Rightarrow> elf_rela \<Rightarrow> dso option" where
  "dso_update_rela d n k ndx rela = do {
     b \<leftarrow> block_at d n k;
     (_, b) \<leftarrow> gelfx_update_rela (ei_class (ehdr d)) (host_lsb d) b ndx rela;
     Some (set_block d n k b)
   }"

section \<open>Prelink and undo\<close>

text \<open>The body of the loops of \<^verbatim>\<open>prelink_rel\<close> and \<^verbatim>\<open>undo_prelink_rel\<close>, with the handler they call.\<close>

definition rel_step ::
  "(dso \<Rightarrow> elf_rel \<Rightarrow> u64 \<Rightarrow> (int \<times> elf_rel \<times> dso) option) \<Rightarrow> nat \<Rightarrow> nat \<Rightarrow> nat \<Rightarrow> u64 \<Rightarrow> dso
   \<Rightarrow> (int \<times> dso) option" where
  "rel_step handler n k ndx addr d = do {
     rel \<leftarrow> dso_getrel d n k ndx;
     (sec, d) \<leftarrow> addr_to_sec d (r_offset rel);
     if sec = None then Some (0, d)
     else do {
       (rc, rel, d) \<leftarrow> handler d rel addr;
       if rc = 2 then do { d \<leftarrow> dso_update_rel d n k ndx rel; Some (0, d) }
       else if rc = 0 then Some (0, d)
       else Some (1, d)
     }
   }"

definition rela_step ::
  "(dso \<Rightarrow> elf_rela \<Rightarrow> u64 \<Rightarrow> (int \<times> elf_rela \<times> dso) option) \<Rightarrow> nat \<Rightarrow> nat \<Rightarrow> nat \<Rightarrow> u64 \<Rightarrow> dso
   \<Rightarrow> (int \<times> dso) option" where
  "rela_step handler n k ndx addr d = do {
     rela \<leftarrow> dso_getrela d n k ndx;
     (sec, d) \<leftarrow> addr_to_sec d (ra_offset rela);
     if sec = None then Some (0, d)
     else do {
       (rc, rela, d) \<leftarrow> handler d rela addr;
       if rc = 2 then do { d \<leftarrow> dso_update_rela d n k ndx rela; Some (0, d) }
       else if rc = 0 then Some (0, d)
       else Some (1, d)
     }
   }"

definition prelink_rel_pass :: "pl_arch \<Rightarrow> pl_info \<Rightarrow> dso \<Rightarrow> nat \<Rightarrow> (int \<times> dso) option" where
  "prelink_rel_pass A pi d n = each_entry id n (rel_step (prelink_rel A pi) n) d"

definition prelink_rela_pass :: "pl_arch \<Rightarrow> pl_info \<Rightarrow> dso \<Rightarrow> nat \<Rightarrow> (int \<times> dso) option" where
  "prelink_rela_pass A pi d n = each_entry id n (rela_step (prelink_rela A pi) n) d"

definition undo_prelink_rel_pass :: "pl_arch \<Rightarrow> dso \<Rightarrow> nat \<Rightarrow> (int \<times> dso) option" where
  "undo_prelink_rel_pass A d n = (case undo_prelink_rel A of
     None \<Rightarrow> Some (0, d) | Some h \<Rightarrow> each_entry id n (rel_step h n) d)"

definition undo_prelink_rela_pass :: "pl_arch \<Rightarrow> dso \<Rightarrow> nat \<Rightarrow> (int \<times> dso) option" where
  "undo_prelink_rela_pass A d n = (case undo_prelink_rela A of
     None \<Rightarrow> Some (0, d) | Some h \<Rightarrow> each_entry id n (rela_step h n) d)"

section \<open>Adjusting\<close>

definition adjust_rel_pass :: "pl_arch \<Rightarrow> dso \<Rightarrow> nat \<Rightarrow> u64 \<Rightarrow> u64 \<Rightarrow> (int \<times> dso) option" where
  "adjust_rel_pass A d n start adj = do {
     (_, d) \<leftarrow> each_entry id n (\<lambda>k ndx _ d. do {
       rel \<leftarrow> dso_getrel d n k ndx;
       (sec, d) \<leftarrow> addr_to_sec d (r_offset rel);
       if sec = None then Some (0, d)
       else do {
         (_, rel, d) \<leftarrow> adjust_rel A d rel start adj;
         d \<leftarrow> dso_update_rel d n k ndx (rel\<lparr>r_offset := addr_adjust (r_offset rel) start adj\<rparr>);
         Some (0, d)
       }
     }) d;
     Some (0, elf_flagscn_dirty d n)
   }"

definition adjust_rela_pass :: "pl_arch \<Rightarrow> dso \<Rightarrow> nat \<Rightarrow> u64 \<Rightarrow> u64 \<Rightarrow> (int \<times> dso) option" where
  "adjust_rela_pass A d n start adj = do {
     (_, d) \<leftarrow> each_entry id n (\<lambda>k ndx _ d. do {
       rela \<leftarrow> dso_getrela d n k ndx;
       (sec, d) \<leftarrow> addr_to_sec d (ra_offset rela);
       if sec = None then Some (0, d)
       else do {
         (_, rela, d) \<leftarrow> adjust_rela A d rela start adj;
         d \<leftarrow> dso_update_rela d n k ndx (rela\<lparr>ra_offset := addr_adjust (ra_offset rela) start adj\<rparr>);
         Some (0, d)
       }
     }) d;
     Some (0, elf_flagscn_dirty d n)
   }"

section \<open>Conflicts\<close>

text \<open>The state of these passes is the object with the \<^verbatim>\<open>prelink_info\<close>.\<close>

definition prelink_conflict_rel_pass ::
  "pl_arch \<Rightarrow> dso \<Rightarrow> nat \<Rightarrow> pl_info \<Rightarrow> (int \<times> dso \<times> pl_info) option" where
  "prelink_conflict_rel_pass A d n pi = each_entry fst n (\<lambda>k ndx addr (d, pi). do {
     rel \<leftarrow> dso_getrel d n k ndx;
     (sec, d) \<leftarrow> addr_to_sec d (r_offset rel);
     if sec = None then Some (0, d, pi)
     else do {
       (rc, d, pi) \<leftarrow> prelink_conflict_rel A d pi rel addr;
       Some (if rc \<noteq> 0 then 1 else 0, d, pi)
     }
   }) (d, pi)"

definition prelink_conflict_rela_pass ::
  "pl_arch \<Rightarrow> dso \<Rightarrow> nat \<Rightarrow> pl_info \<Rightarrow> (int \<times> dso \<times> pl_info) option" where
  "prelink_conflict_rela_pass A d n pi = each_entry fst n (\<lambda>k ndx addr (d, pi). do {
     rela \<leftarrow> dso_getrela d n k ndx;
     (sec, d) \<leftarrow> addr_to_sec d (ra_offset rela);
     if sec = None then Some (0, d, pi)
     else do {
       (rc, d, pi) \<leftarrow> prelink_conflict_rela A d pi rela addr;
       Some (if rc \<noteq> 0 then 1 else 0, d, pi)
     }
   }) (d, pi)"


section \<open>What a pass changes\<close>

lemma for_ndx_invariant:
  assumes step: "\<And>i s rc s'. I s \<Longrightarrow> step i s = Some (rc, s') \<Longrightarrow> I s'"
  shows "I s \<Longrightarrow> for_ndx step i n s = Some (rc, s') \<Longrightarrow> I s'"
proof (induction n arbitrary: i s)
  case (Suc n)
  then obtain rc0 s0 where "step i s = Some (rc0, s0)" and
    "(if rc0 \<noteq> 0 then Some (1, s0) else for_ndx step (Suc i) n s0) = Some (rc, s')"
    by (auto simp: bind_eq_Some)
  then show ?case using Suc.IH [of s0 "Suc i"] step [OF Suc.prems(1)] by (auto split: if_splits)
qed simp

lemma each_entry_invariant:
  assumes "\<And>k ndx a s rc s'. I s \<Longrightarrow> step k ndx a s = Some (rc, s') \<Longrightarrow> I s'"
    and "I s" and "each_entry obj n step s = Some (rc, s')"
  shows "I s'"
proof -
  have inner: "I s'" if "I s" "do { b \<leftarrow> block_at (obj s) n k; m \<leftarrow> max_ndx b sh;
      for_ndx (\<lambda>ndx s. step k ndx (sh_addr sh + d_off b + of_nat ndx * sh_entsize sh) s) 0 m s }
      = Some (rc, s')" for sh k s rc s'
    using that by (auto simp: bind_eq_Some intro: for_ndx_invariant [of I] assms(1))
  obtain sh and sc :: elf_scn where o: "for_ndx (\<lambda>k s. do { b \<leftarrow> block_at (obj s) n k; m \<leftarrow> max_ndx b sh;
      for_ndx (\<lambda>ndx s. step k ndx (sh_addr sh + d_off b + of_nat ndx * sh_entsize sh) s) 0 m s })
      0 (length (scn_data sc)) s = Some (rc, s')"
    using assms(3) unfolding each_entry_def bind_eq_Some by blast
  show ?thesis by (rule for_ndx_invariant [of I, OF inner assms(2) o])
qed

text \<open>The cells of the relocations in section \<open>n\<close>, of \<open>z\<close> bytes each, lie in other sections and do not meet
  the \<open>m\<close> bytes at \<open>b\<close>.\<close>

definition cells_clear :: "dso \<Rightarrow> nat \<Rightarrow> nat \<Rightarrow> u64 \<Rightarrow> nat \<Rightarrow> bool" where
  "cells_clear d n z b m \<longleftrightarrow> (\<forall>k ndx r. dso_getrela d n k ndx = Some r \<longrightarrow>
     sec_of d (ra_offset r) \<noteq> Some n
     \<and> (unat (ra_offset r) + z \<le> unat b \<or> unat b + m \<le> unat (ra_offset r)))"

definition outside_same :: "dso \<Rightarrow> nat \<Rightarrow> u64 \<Rightarrow> nat \<Rightarrow> dso \<Rightarrow> bool" where
  "outside_same d n b m d' \<longleftrightarrow> wf_dso d' \<and> same_shape d d' \<and> scn d' ! n = scn d ! n
     \<and> bytes_at d' b m = bytes_at d b m"

lemma outside_same_getrela:
  assumes "outside_same d n b m d'"
  shows "dso_getrela d' n k ndx = dso_getrela d n k ndx"
proof -
  have "same_shape d d'" "scn d' ! n = scn d ! n" using assms by (simp_all add: outside_same_def)
  then show ?thesis
    using same_shape_fields [of d d'] by (simp add: dso_getrela_def block_at_def nth_opt_def)
qed

locale rela_target =
  fixes z :: nat
    and handler :: "dso \<Rightarrow> elf_rela \<Rightarrow> u64 \<Rightarrow> (int \<times> elf_rela \<times> dso) option"
  assumes handler_keeps: "wf_dso d \<Longrightarrow> keeps d (ra_offset r) z (\<lambda>x. snd (snd x)) (handler d r a)"
    and no_rewrite: "handler d r a = Some (rc, r', d') \<Longrightarrow> rc \<noteq> 2"
begin

lemma step_outside:
  assumes clear: "cells_clear d n z b m" and I: "outside_same d n b m d1"
    and s: "rela_step handler n k ndx a d1 = Some (rc, d2)"
  shows "outside_same d n b m d2"
proof -
  have d1: "wf_dso d1" "same_shape d d1" "scn d1 ! n = scn d ! n" "bytes_at d1 b m = bytes_at d b m"
    using I by (simp_all add: outside_same_def)
  obtain r where r: "dso_getrela d n k ndx = Some r"
    using s outside_same_getrela [OF I] by (cases "dso_getrela d n k ndx") (simp_all add: rela_step_def)
  let ?t = "touch d1 (ra_offset r)"
  consider "d2 = ?t" | rc' r' where "handler ?t r a = Some (rc', r', d2)"
    using s r d1(1)
    by (auto simp: rela_step_def outside_same_getrela [OF I] addr_to_sec_eq bind_eq_Some
        dest: no_rewrite split: if_splits)
  then have "only_cell d1 d2 (ra_offset r) z"
  proof cases
    case 1
    then show ?thesis using d1(1) by simp
  next
    case 2
    have "only_cell ?t d2 (ra_offset r) z" using keepsD [OF handler_keeps 2] d1(1) by simp
    then show ?thesis using only_cell_trans [OF only_cell_touch [OF d1(1)]] by blast
  qed
  moreover have "sec_of d1 (ra_offset r) \<noteq> Some n"
    "unat (ra_offset r) + z \<le> unat b \<or> unat b + m \<le> unat (ra_offset r)"
    using clear r same_shape_sec_of [OF d1(2)] by (auto simp: cells_clear_def)
  ultimately show ?thesis
    using d1 same_shape_trans [OF d1(2)] by (auto simp: outside_same_def only_cell_def)
qed

lemma pass_outside:
  assumes "wf_dso d" and "cells_clear d n z b m" and "each_entry id n (rela_step handler n) d = Some (rc, d')"
  shows "outside_same d n b m d'"
proof (rule each_entry_invariant [OF _ _ assms(3)])
  show "outside_same d n b m d2"
    if "outside_same d n b m d1" "rela_step handler n k ndx a d1 = Some (rc, d2)" for k ndx a d1 rc d2
    using step_outside [OF assms(2) that] .
  show "outside_same d n b m d" using assms(1) by (simp add: outside_same_def)
qed

end

end
