(* ===== verification/ArchLib.thy ===== *)
theory ArchLib
  imports Passes
begin

text \<open>
  What the theories of the architecture files share: the laws of the 32- and 64-bit cells of an object,
  writing back what was read, resetting the GOT (\<open>word_cell\<close>), replaying conflicts (\<open>conflict_target\<close>), the buffers
  of the apply handlers, and the sample objects.
\<close>

section \<open>The PLT in the GOT header\<close>

text \<open>The search of \<^verbatim>\<open>adjust_dyn\<close> in the x86 files: is \<open>data\<close> the address 0x16 behind the start of a \<^verbatim>\<open>.plt\<close>?\<close>

function is_plt_16 :: "dso \<Rightarrow> u64 \<Rightarrow> nat \<Rightarrow> bool option" where
  "is_plt_16 d data i =
     (if i < unat (e_shnum (ehdr d)) then do {
        s \<leftarrow> nth_opt (shdr d) i;
        if data = sh_addr s + 0x16 \<and> sh_type s = SHT_PROGBITS then do {
          b \<leftarrow> sec_name_is d i ''.plt'';
          if b then Some True else is_plt_16 d data (Suc i)
        } else is_plt_16 d data (Suc i)
      } else Some False)"
  by pat_completeness auto
termination
  by (relation "measure (\<lambda>(d, data, i). unat (e_shnum (ehdr d)) - i)") auto

declare is_plt_16.simps [simp del]

section \<open>Cells\<close>

lemmas le_within = mle32.write_within [folded write_le32_def] mle64.write_within [folded write_le64_def]
lemmas le_replace = mle32.write_replace [folded write_le32_def] mle64.write_replace [folded write_le64_def]
lemmas le_only = mle32.write_only [folded write_le32_def] mle64.write_only [folded write_le64_def]
lemmas le_read_within = mle32.read_within [folded read_ule32_def] mle64.read_within [folded read_ule64_def]

text \<open>The section names lie outside the loaded image and no section starts in its last 24 bytes.\<close>

definition undo_ready :: "dso \<Rightarrow> bool" where
  "undo_ready d \<longleftrightarrow> \<not> RELOCATE_SCN (sh_flags (shdr d ! unat (e_shstrndx (ehdr d))))
     \<and> list_all (\<lambda>s. unat (sh_addr s) + 24 < 2 ^ 64) (shdr d)"

lemma only_cell_touch_both:
  assumes "only_cell d d1 a n"
  shows "only_cell (touch d b) (touch d1 c) a n"
proof -
  have "same_shape (touch d b) (touch d1 c)"
    using only_cell_shape [OF assms] same_shape_trans same_shape_touch by blast
  then show ?thesis using assms by (simp add: only_cell_def)
qed

definition sample_rel :: "u64 \<Rightarrow> u64 \<Rightarrow> elf_rel" where
  "sample_rel t a = \<lparr>r_offset = a, r_info = t\<rparr>"

definition sample_rela :: "u64 \<Rightarrow> u64 \<Rightarrow> elf_rela" where
  "sample_rela t a = \<lparr>ra_offset = a, ra_info = t, ra_addend = 4\<rparr>"

lemma undo_ready_sample: "undo_ready sample_dso"
  by (simp add: undo_ready_def sample_defs RELOCATE_SCN_def elf_consts)

lemma le_write_byte_block:
  assumes "wf_dso d" and "locate d a = Some p" and "dp_type p = ELF_T_BYTE"
  shows "write_le32 d a v = Some (r, d') \<Longrightarrow> bytes_at d' a 4 = Some (ELF_T_BYTE, le32_bytes v)"
    and "write_le64 d a w = Some (r, d') \<Longrightarrow> bytes_at d' a 8 = Some (ELF_T_BYTE, le64_bytes w)"
proof -
  have t: "t = ELF_T_BYTE" if "bytes_at d' a n = Some (t, bs)" "locate d' a = locate d a" for d' n t bs
    using that assms(2,3) by (auto simp: bytes_at_def opt_simps)
  show "bytes_at d' a 4 = Some (ELF_T_BYTE, le32_bytes v)" if "write_le32 d a v = Some (r, d')" for r d'
  proof -
    note w = that [unfolded write_le32_def]
    have "r = 0" by (rule mle32.write_ok [OF assms(1) w assms(2)])
    with w show ?thesis
      using mle32.write_bytes [OF assms(1), of a v d'] mle32.write_locate [OF assms(1) w, of a] t by auto
  qed
  show "bytes_at d' a 8 = Some (ELF_T_BYTE, le64_bytes w)" if "write_le64 d a w = Some (r, d')" for r d'
  proof -
    note x = that [unfolded write_le64_def]
    have "r = 0" by (rule mle64.write_ok [OF assms(1) x assms(2)])
    with x show ?thesis
      using mle64.write_bytes [OF assms(1), of a w d'] mle64.write_locate [OF assms(1) x, of a] t by auto
  qed
qed

lemma le_buf_write:
  "buf_write_le32 buf v = Some buf' \<Longrightarrow> take 4 buf' = le32_bytes v \<and> drop 4 buf' = drop 4 buf"
  "buf_write_le64 buf w = Some buf' \<Longrightarrow> take 8 buf' = le64_bytes w \<and> drop 8 buf' = drop 8 buf"
  using le32.wr_enc [of buf v] le32.enc_length [of v] le64.wr_enc [of buf w] le64.enc_length [of w]
  by (auto split: if_splits)

lemma le_write_apply:
  assumes "wf_dso d" and "locate d a = Some p" and "dp_type p = ELF_T_BYTE"
  shows "write_le32 d a v = Some (r, d') \<Longrightarrow> buf_write_le32 buf v = Some buf' \<Longrightarrow>
      bytes_at d' a 4 = Some (ELF_T_BYTE, take 4 buf')"
    and "write_le64 d a w = Some (r, d') \<Longrightarrow> buf_write_le64 buf w = Some buf' \<Longrightarrow>
      bytes_at d' a 8 = Some (ELF_T_BYTE, take 8 buf')"
  using le_write_byte_block [OF assms] le_buf_write by metis+

lemma GELF_R_TYPE_INFO0: "t < 0x100000000 \<Longrightarrow> GELF_R_TYPE (GELF_R_INFO 0 t) = t"
  by (simp add: GELF_R_TYPE_def GELF_R_INFO_def mask32 word_unat_eq_iff unsigned_take_bit_eq
      take_bit_nat_eq_self_iff word_less_nat_alt flip: take_bit_eq_mask)

text \<open>The buffer a handler leaves, beside its return code.\<close>

definition buf_result :: "(int \<times> u8 list \<times> 'a) option \<Rightarrow> (int \<times> u8 list) option" where
  "buf_result = map_option (\<lambda>(rc, buf, _). (rc, buf))"

lemma read_ule64_touch:
  "wf_dso d \<Longrightarrow> read_ule64 (touch d b) a = map_option (\<lambda>(v, _). (v, touch (touch d b) a)) (read_ule64 d a)"
  by (auto simp: read_ule64_def mle64.read_eq option.map_comp comp_def map_option_bind intro!: Option.bind_cong
      split: option.split)

context mem_cell
begin

lemma write_back:
  assumes "wf_dso d" and "uread rd ld d a = Some (v, d0)"
  shows "\<exists>x e. dwrite wr st d a v = Some (x, e) \<and> same_img d e"
proof (cases "locate d a")
  case None
  then show ?thesis using assms(1) by (simp add: write_eq same_img_def)
next
  case (Some p)
  note r = read_patch [OF assms Some]
  then obtain e where e: "dwrite wr st d a v = Some (0, e)"
    using write_total [OF assms(1) Some] by blast
  then have "img e = img d" by - (rule write_img [OF assms(1) e]; use r Some in simp)
  then show ?thesis using e write_keeps [OF assms(1) e] by (auto simp: same_img_def)
qed

end

lemmas write_back_ule32 = mle32.write_back [folded read_ule32_def write_le32_def]
lemmas write_back_ule64 = mle64.write_back [folded read_ule64_def write_le64_def]

lemma within_touch_right: "within d d' a n \<Longrightarrow> within d (touch d' c) a n"
  unfolding within_def by (metis img_touch same_shape_touch(1) same_shape_trans wf_touch)

lemma same_img_trans: "same_img d e \<Longrightarrow> same_img e f \<Longrightarrow> same_img d f"
  by (metis same_img_def same_shape_trans)

lemma ucast_u32_u64: "unat (v :: u64) < 2 ^ 32 \<Longrightarrow> ucast (ucast v :: u32) = v"
  by (simp add: word_unat_eq_iff unsigned_ucast_eq unsigned_take_bit_eq take_bit_nat_eq_self_iff
      take_bit_nat_eq_self)

lemma locate_sample: "locate sample_dso 0x1018
    = Some \<lparr>dp_sec = 2, dp_blk = 0, dp_off = 0x18, dp_type = ELF_T_BYTE\<rparr>"
  by (simp add: locate_def sec_of_def sec_holds_def RELOCATE_SCN_def elf_consts sample_defs)

lemma read_ule32_touch:
  "wf_dso d \<Longrightarrow> read_ule32 (touch d b) a = map_option (\<lambda>(v, _). (v, touch (touch d b) a)) (read_ule32 d a)"
  by (auto simp: read_ule32_def mle32.read_eq option.map_comp comp_def map_option_bind intro!: Option.bind_cong
      split: option.split)

lemma within_touch_left: "within (touch d b) d1 a n \<Longrightarrow> within d d1 a n"
  unfolding within_def by (metis img_touch locate_touch same_shape_touch(1) same_shape_trans)

lemma GELF_R_INFO_split: "GELF_R_INFO (GELF_R_SYM i) (GELF_R_TYPE i) = i"
proof -
  have "GELF_R_TYPE i = take_bit 32 i" by (simp add: GELF_R_TYPE_def mask32 flip: take_bit_eq_mask)
  then show ?thesis
    using bits_ident [of 32 i] by (simp add: GELF_R_INFO_def GELF_R_SYM_def)
qed

lemma GELF_R_retype:
  assumes "unat t < 2 ^ 32"
  shows "GELF_R_TYPE (GELF_R_INFO (GELF_R_SYM i) t) = t"
    and "GELF_R_SYM (GELF_R_INFO (GELF_R_SYM i) t) = GELF_R_SYM i"
proof -
  have "unat i < 2 ^ 64" using unsigned_less [of i] by simp
  then have "unat (GELF_R_SYM i) < 2 ^ 32"
    by (simp add: GELF_R_SYM_def drop_bit_eq_div unat_div_distrib)
  then have "GELF_R_SYM i = ucast (ucast (GELF_R_SYM i) :: u32)" "t = ucast (ucast t :: u32)"
    using assms by (simp_all add: ucast_u32_u64)
  then show "GELF_R_TYPE (GELF_R_INFO (GELF_R_SYM i) t) = t"
    "GELF_R_SYM (GELF_R_INFO (GELF_R_SYM i) t) = GELF_R_SYM i"
    using GELF_R_TYPE_INFO [of "ucast (GELF_R_SYM i)" "ucast t"]
      GELF_R_SYM_INFO [of "ucast (GELF_R_SYM i)" "ucast t"] by simp_all
qed

lemma ucast_scast32: "ucast (scast (v :: u32) :: u64) = v"
  by (rule bit_word_eqI) (auto simp: bit_simps)

text \<open>Names of sections do not depend on the cells a handler writes.\<close>

lemma only_cell_names:
  assumes "wf_dso d" and "undo_ready d" and "only_cell d d1 a n"
  shows "sec_name_is d1 i nm = sec_name_is d i nm"
  using sec_name_is_cong [OF only_cell_shape [OF assms(3)] only_cell_nonalloc [OF assms(1,3)]] assms(2)
  by (simp add: undo_ready_def)

lemma sec_name_is_touch [simp]: "sec_name_is (touch d a) i nm = sec_name_is d i nm"
  by (simp add: sec_name_is_def strptr_def)

section \<open>Cells in the byte order of the object\<close>

lemmas be_within = mbe32.write_within [folded write_be32_def]
lemmas be_replace = mbe32.write_replace [folded write_be32_def]
lemmas be_only = mbe32.write_only [folded write_be32_def]
lemmas be_read_within = mbe32.read_within [folded read_ube32_def]
lemmas write_back_ube32 = mbe32.write_back [folded read_ube32_def write_be32_def]

lemma ne_within: "wf_dso d \<Longrightarrow> write_ne32 d a v = Some (r, d') \<Longrightarrow> within d d' a 4"
  by (auto simp: write_ne32_def intro: le_within be_within split: if_splits)

lemma ne_only: "wf_dso d \<Longrightarrow> write_ne32 d a v = Some (r, d') \<Longrightarrow> only_cell d d' a 4"
  by (auto simp: write_ne32_def intro: le_only be_only split: if_splits)

lemma ne_replace:
  assumes "wf_dso d" and "write_ne32 d a v = Some (r, e)" and "within d d1 a 4"
  shows "\<exists>e1. write_ne32 d1 a v = Some (r, e1) \<and> same_img e e1 \<and> wf_dso e1"
proof -
  have "ehdr d1 = ehdr d" using within_img [OF assms(3)] same_shape_fields by metis
  then show ?thesis
    using assms(2) le_replace(1) [OF assms(1) _ assms(3)] be_replace [OF assms(1) _ assms(3)]
    by (auto simp: write_ne32_def split: if_splits)
qed

lemma ne_read_within:
  assumes "wf_dso d" and "only_cell d d1 a m" and "unat a + m \<le> unat b \<or> unat b + 4 \<le> unat a"
    and "read_une32 d b = Some (v, e)"
  shows "read_une32 d1 b = Some (v, touch d1 b) \<and> e = touch d b"
proof -
  have "ehdr d1 = ehdr d" using only_cell_shape [OF assms(2)] same_shape_fields by metis
  then show ?thesis
    using assms(4) le_read_within(1) [OF assms(1-3)] be_read_within [OF assms(1-3)]
    by (auto simp: read_une32_def split: if_splits)
qed

lemma ne_read_touch: "wf_dso d \<Longrightarrow> read_une32 d a = Some (v, d') \<Longrightarrow> d' = touch d a"
  using mem_cell.read_keeps [OF cell_ne32] by (fastforce simp: read_ne_unfold)

lemma write_back_une32:
  assumes "wf_dso d" and "read_une32 d a = Some (v, d0)"
  shows "\<exists>x e. write_ne32 d a v = Some (x, e) \<and> same_img d e"
  using assms(2) write_back_ule32 [OF assms(1)] write_back_ube32 [OF assms(1)]
  by (auto simp: read_une32_def write_ne32_def split: if_splits)

lemma ne_write_read:
  assumes "wf_dso d" and "read_une32 d a = Some (v, d0)" and "write_ne32 d a w = Some (x, d')"
  shows "\<exists>d''. read_une32 d' a = Some (if locate d a = None then v else w, d'')"
proof -
  note c = cell_ne32 [of "ei_data (ehdr d) = ELFDATA2LSB"]
  note wr = assms(3) [unfolded write_ne_unfold] and k = mem_cell.write_keeps [OF c assms(1) assms(3) [unfolded write_ne_unfold]]
  have e: "ehdr d' = ehdr d" using k same_shape_fields by metis
  show ?thesis
  proof (cases "locate d a")
    case None
    then have "v = 0" using assms(2) mem_cell.read_eq [OF c assms(1)] by (simp add: read_ne_unfold)
    moreover have "locate d' a = None" using mem_cell.write_locate [OF c assms(1) wr] None by simp
    ultimately show ?thesis using None k by (simp add: read_ne_unfold e mem_cell.read_eq [OF c])
  next
    case (Some p)
    then have "x = 0" using mem_cell.write_ok [OF c assms(1) wr] by metis
    then show ?thesis using mem_cell.write_read [OF c assms(1)] wr Some by (auto simp: read_ne_unfold e)
  qed
qed

lemma ne_read_then:
  assumes "wf_dso d" and "read_une32 d a = Some (v, e)"
  shows "within d e a 4" and "write_ne32 e a w = Some (x, d1) \<Longrightarrow> within d d1 a 4"
proof -
  have e: "e = touch d a" by (rule ne_read_touch [OF assms])
  show "within d e a 4" unfolding e using assms(1) by (simp add: within_touch_right)
  show "write_ne32 e a w = Some (x, d1) \<Longrightarrow> within d d1 a 4"
    unfolding e using within_touch_left [OF ne_within [OF wf_touch [OF assms(1)]]] by blast
qed

lemma ne_read_again:
  assumes "wf_dso d" and "read_une32 d a = Some (v, e)"
  shows "read_une32 (touch d b) a = Some (v, touch (touch d b) a)"
  using ne_read_within [OF assms(1) only_cell_touch [OF assms(1)] disjI1 assms(2), of a 0 b] by simp

lemma ne_write_defined:
  assumes "wf_dso d" and "read_une32 d a = Some (v, e)"
  shows "\<exists>x d'. write_ne32 d a w = Some (x, d')"
proof -
  note c = cell_ne32 [of "ei_data (ehdr d) = ELFDATA2LSB"]
  show ?thesis
  proof (cases "locate d a")
    case None
    then show ?thesis by (simp add: write_ne_unfold mem_cell.write_eq [OF c assms(1)])
  next
    case (Some p)
    have "room d p 4" using mem_cell.read_patch [OF c assms(1) assms(2) [unfolded read_ne_unfold] Some] by simp
    then show ?thesis using mem_cell.write_total [OF c assms(1) Some] by (metis write_ne_unfold(1))
  qed
qed

lemma keeps_read_ne [keeps_rules]: "only_cell d e a n \<Longrightarrow> keeps d a n snd (read_une32 e b)"
  using keeps_reads by (simp add: read_une32_def)

lemma keeps_write_ne [keeps_rules]: "only_cell d e a n \<Longrightarrow> 4 \<le> n \<Longrightarrow> keeps d a n snd (write_ne32 e a v)"
  using keeps_writes by (simp add: write_ne32_def)

section \<open>Undoing in the GOT\<close>

text \<open>The cases \<^verbatim>\<open>GLOB_DAT\<close> and \<^verbatim>\<open>JMP_SLOT\<close> of the undo handlers for REL sections, with the accessors of the
  target, the type a relocation outside \<^verbatim>\<open>.got\<close> goes back to, and the value a slot of the PLT is reset to.\<close>

definition undo_glob_dat :: "(dso \<Rightarrow> u64 \<Rightarrow> u32 \<Rightarrow> (int \<times> dso) option) \<Rightarrow> u64 \<Rightarrow> dso \<Rightarrow> elf_rel \<Rightarrow> (int \<times> elf_rel \<times> dso) option" where
  "undo_glob_dat wr t d rel = do {
     (sec, d) \<leftarrow> addr_to_sec d (r_offset rel);
     (_, d) \<leftarrow> wr d (r_offset rel) 0;
     case sec of
       None \<Rightarrow> Some (0, rel, d)
     | Some i \<Rightarrow> do {
         got \<leftarrow> sec_name_is d i ''.got'';
         if got then Some (0, rel, d)
         else Some (2, rel\<lparr>r_info := GELF_R_INFO (GELF_R_SYM (r_info rel)) t\<rparr>, d)
       }
   }"

definition undo_jump_slot ::
  "(dso \<Rightarrow> u64 \<Rightarrow> (u32 \<times> dso) option) \<Rightarrow> (dso \<Rightarrow> u64 \<Rightarrow> u32 \<Rightarrow> (int \<times> dso) option) \<Rightarrow> (u64 \<Rightarrow> u32 \<Rightarrow> u32)
   \<Rightarrow> dso \<Rightarrow> elf_rel \<Rightarrow> (int \<times> elf_rel \<times> dso) option" where
  "undo_jump_slot rd wr slot d rel = do {
     (sec, d) \<leftarrow> addr_to_sec d (r_offset rel);
     sec \<leftarrow> sec;
     got \<leftarrow> sec_name_is d sec ''.got'';
     gotplt \<leftarrow> (if got then Some False else sec_name_is d sec ''.got.plt'');
     if \<not> got \<and> \<not> gotplt then Some (1, rel, d)
     else do {
       s \<leftarrow> nth_opt (shdr d) sec;
       (data, d) \<leftarrow> rd d (sh_addr s + 4);
       _ \<leftarrow> guard_opt (r_offset rel \<ge> sh_addr s + 12);
       _ \<leftarrow> guard_opt ((r_offset rel - sh_addr s) AND 3 = 0);
       (_, d) \<leftarrow> wr d (r_offset rel) (slot (r_offset rel - sh_addr s) data);
       Some (0, rel, d)
     }
   }"

lemma got_slot_below:
  assumes "unat s + 24 < 2 ^ 64" and "s + 12 \<le> (a :: u64)"
  shows "unat (s + 4) + 4 \<le> unat a"
  using assms by (simp add: word_le_nat_alt unat_word_ariths)

locale word_cell =
  fixes rd :: "dso \<Rightarrow> u64 \<Rightarrow> (u32 \<times> dso) option"
    and wr :: "dso \<Rightarrow> u64 \<Rightarrow> u32 \<Rightarrow> (int \<times> dso) option"
  assumes wr_only: "wf_dso d \<Longrightarrow> wr d a v = Some (r, d') \<Longrightarrow> only_cell d d' a 4"
    and wr_replace: "wf_dso d \<Longrightarrow> wr d a v = Some (r, e) \<Longrightarrow> within d d1 a 4 \<Longrightarrow>
      \<exists>e1. wr d1 a v = Some (r, e1) \<and> same_img e e1 \<and> wf_dso e1"
    and rd_within: "wf_dso d \<Longrightarrow> only_cell d d1 a m \<Longrightarrow> unat a + m \<le> unat b \<or> unat b + 4 \<le> unat a \<Longrightarrow>
      rd d b = Some (v, e) \<Longrightarrow> rd d1 b = Some (v, touch d1 b) \<and> e = touch d b"
    and wr_back: "wf_dso d \<Longrightarrow> rd d a = Some (v, d0) \<Longrightarrow> \<exists>x e. wr d a v = Some (x, e) \<and> same_img d e"
begin

lemma undo_glob_dat_again:
  assumes wf: "wf_dso d" and ready: "undo_ready d" and w: "within d d1 (r_offset r) 4"
    and c: "only_cell d d1 (r_offset r) 4" and undo: "undo_glob_dat wr t d r = Some (rc, r2, e)"
  shows "\<exists>e1. undo_glob_dat wr t d1 r = Some (rc, r2, e1) \<and> same_img e e1"
proof -
  let ?a = "r_offset r"
  have d1: "wf_dso d1" "same_shape d d1" using within_img [OF w] by simp_all
  obtain x e0 where e0: "wr (touch d ?a) ?a 0 = Some (x, e0)"
    using undo wf by (auto simp: undo_glob_dat_def addr_to_sec_eq opt_simps)
  obtain e1 where e1: "wr (touch d1 ?a) ?a 0 = Some (x, e1)" "same_img e0 e1"
    using wr_replace [OF wf_touch [OF wf] e0 within_touch [OF w]] by blast
  have c0: "only_cell (touch d ?a) e0 ?a 4" by (rule wr_only [OF wf_touch [OF wf] e0])
  have c1: "only_cell d1 e1 ?a 4"
    using only_cell_trans [OF only_cell_touch wr_only [OF wf_touch e1(1)]] d1(1) by blast
  have n: "sec_name_is e1 i nm = sec_name_is d i nm" "sec_name_is e0 i nm = sec_name_is d i nm" for i nm
    using only_cell_names [OF wf ready only_cell_trans [OF c c1]]
      only_cell_names [OF wf ready only_cell_trans [OF only_cell_touch [OF wf] c0]] by simp_all
  let ?rest = "\<lambda>e. case sec_of d ?a of None \<Rightarrow> Some (0, r, e)
     | Some i \<Rightarrow> do { got \<leftarrow> sec_name_is d i ''.got'';
         if got then Some (0, r, e)
         else Some (2, r\<lparr>r_info := GELF_R_INFO (GELF_R_SYM (r_info r)) t\<rparr>, e) }"
  have run: "undo_glob_dat wr t d r = ?rest e0" "undo_glob_dat wr t d1 r = ?rest e1"
    using wf d1(1) same_shape_sec_of [OF d1(2)] e0 e1(1) n
    by (simp_all add: undo_glob_dat_def addr_to_sec_eq split: option.split)
  show ?thesis
    using undo e1(2) unfolding run
    by (cases "sec_of d ?a"; cases "sec_name_is d (the (sec_of d ?a)) ''.got''") (auto split: if_splits)
qed

lemma undo_glob_dat_restores:
  assumes wf: "wf_dso d" and ready: "undo_ready d" and t: "GELF_R_TYPE (r_info r) = t"
    and rd0: "rd d (r_offset r) = Some (0, d0)" and w: "within d d1 (r_offset r) 4"
    and c: "only_cell d d1 (r_offset r) 4" and g: "unat g < 2 ^ 32"
    and s: "sec_of d (r_offset r) = Some i" "sec_name_is d i ''.got'' = Some False"
  shows "\<exists>e. undo_glob_dat wr t d1 (r\<lparr>r_info := GELF_R_INFO (GELF_R_SYM (r_info r)) g\<rparr>) = Some (2, r, e)
    \<and> same_img d e"
proof -
  let ?a = "r_offset r"
  have d1: "wf_dso d1" "same_shape d d1" using within_img [OF w] by simp_all
  obtain x e0 where e0: "wr d ?a 0 = Some (x, e0)" "same_img d e0" using wr_back [OF wf rd0] by blast
  obtain e where e: "wr (touch d1 ?a) ?a 0 = Some (x, e)" "same_img e0 e"
    using wr_replace [OF wf e0(1) within_touch_right [OF w]] by blast
  have "only_cell d1 e ?a 4"
    using only_cell_trans [OF only_cell_touch wr_only [OF wf_touch e(1)]] d1(1) by blast
  then have n: "sec_name_is e i nm = sec_name_is d i nm" for i nm
    using only_cell_names [OF wf ready only_cell_trans [OF c]] by blast
  have "undo_glob_dat wr t d1 (r\<lparr>r_info := GELF_R_INFO (GELF_R_SYM (r_info r)) g\<rparr>)
      = Some (2, r\<lparr>r_info := GELF_R_INFO (GELF_R_SYM (r_info r)) t\<rparr>, e)"
    using s d1(1) same_shape_sec_of [OF d1(2)] e(1) n GELF_R_retype(2) [OF g]
    by (simp add: undo_glob_dat_def addr_to_sec_eq)
  moreover have "r\<lparr>r_info := GELF_R_INFO (GELF_R_SYM (r_info r)) t\<rparr> = r"
    using GELF_R_INFO_split [of "r_info r"] t by simp
  ultimately show ?thesis using same_img_trans [OF e0(2) e(2)] by simp
qed

lemma undo_jump_slot_again:
  assumes wf: "wf_dso d" and ready: "undo_ready d" and w: "within d d1 (r_offset r) 4"
    and c: "only_cell d d1 (r_offset r) 4" and undo: "undo_jump_slot rd wr slot d r = Some (0, r2, e)"
  shows "\<exists>e1. undo_jump_slot rd wr slot d1 r = Some (0, r2, e1) \<and> same_img e e1"
proof -
  let ?a = "r_offset r"
  let ?t = "touch d ?a" and ?t1 = "touch d1 ?a"
  have d1: "wf_dso d1" "same_shape d d1" using within_img [OF w] by simp_all
  note f = same_shape_fields [OF d1(2)] and n = only_cell_names [OF wf ready c]
  obtain i where i: "sec_of d ?a = Some i"
    using undo wf by (cases "sec_of d ?a") (simp_all add: undo_jump_slot_def addr_to_sec_eq)
  then have il: "i < length (shdr d)" using wf sec_of_iff [OF wf] by (auto simp: wf_dso_def)
  let ?s = "sh_addr (shdr d ! i)"
  note eval = undo_jump_slot_def addr_to_sec_eq wf d1 i same_shape_sec_of [OF d1(2)] n il f
  obtain got gp where g: "sec_name_is d i ''.got'' = Some got"
    "(if got then Some False else sec_name_is d i ''.got.plt'') = Some gp"
    using undo by (auto simp: eval opt_simps split: if_splits)
  let ?tail = "\<lambda>d. do { (data, d) \<leftarrow> rd d (?s + 4);
      _ \<leftarrow> guard_opt (?s + 12 \<le> ?a); _ \<leftarrow> guard_opt ((?a - ?s) AND 3 = 0);
      (_, d) \<leftarrow> wr d ?a (slot (?a - ?s) data); Some (0, r, d) }"
  have run: "undo_jump_slot rd wr slot d r = ?tail ?t" "undo_jump_slot rd wr slot d1 r = ?tail ?t1"
  proof -
    have "got \<or> gp" using undo g by (auto simp: eval split: if_splits)
    then show "undo_jump_slot rd wr slot d r = ?tail ?t" "undo_jump_slot rd wr slot d1 r = ?tail ?t1"
      using g by (cases got; simp add: eval cong: if_cong)+
  qed
  obtain data e0 x where u: "rd ?t (?s + 4) = Some (data, e0)" "?s + 12 \<le> ?a"
    "(?a - ?s) AND 3 = 0" "wr e0 ?a (slot (?a - ?s) data) = Some (x, e)" "r2 = r"
    using undo unfolding run
    by (fastforce simp only: bind_eq_Some guard_opt_eq_Some split_paired_Ex prod.case option.inject prod.inject)
  have "unat ?s + 24 < 2 ^ 64" using ready il by (simp add: undo_ready_def list_all_length)
  then have b: "unat (?s + 4) + 4 \<le> unat ?a" by (rule got_slot_below [OF _ u(2)])
  have v: "rd ?t1 (?s + 4) = Some (data, touch ?t1 (?s + 4))" "e0 = touch ?t (?s + 4)"
    using rd_within [OF wf_touch [OF wf] only_cell_touch_both [OF c] disjI2 [OF b] u(1)] by simp_all
  have "within (touch ?t (?s + 4)) (touch ?t1 (?s + 4)) ?a 4" by (intro within_touch w)
  then obtain e1 where "wr (touch ?t1 (?s + 4)) ?a (slot (?a - ?s) data) = Some (x, e1)" "same_img e e1"
    using wr_replace [OF _ u(4) [unfolded v(2)]] wf by auto
  then show ?thesis using u v(1) by (simp add: run(2))
qed

end

interpretation le_cell: word_cell read_ule32 write_le32
  by unfold_locales (rule le_only(1) le_replace(1) le_read_within(1) write_back_ule32; assumption)+

interpretation ne_cell: word_cell read_une32 write_ne32
  by unfold_locales (rule ne_only ne_replace ne_read_within write_back_une32; assumption)+

section \<open>Replaying conflicts\<close>

text \<open>The cast to \<^verbatim>\<open>Elf32_Sword\<close> followed by the widening to a 64-bit addend.\<close>

definition sword32 :: "u64 \<Rightarrow> u64" where
  "sword32 v = scast (ucast v :: u32)"

lemma ucast_sword32 [simp]: "(ucast (sword32 v) :: u32) = ucast v"
  by (simp add: sword32_def ucast_scast32)

text \<open>A TLS conflict that does not resolve to a TLS symbol, and the TLS block used otherwise.\<close>

definition tls_mismatch :: "pl_conflict option \<Rightarrow> bool" where
  "tls_mismatch conflict = (case conflict of None \<Rightarrow> False
     | Some c \<Rightarrow> reloc_class c \<noteq> RTYPE_CLASS_TLS \<or> cf_lookup c = 0)"

definition conflict_tls :: "pl_info \<Rightarrow> pl_conflict option \<Rightarrow> u64" where
  "conflict_tls pi conflict = (case conflict of Some c \<Rightarrow> cf_lookup c | None \<Rightarrow> curtls pi)"

definition conflict_ifunc :: "pl_conflict option \<Rightarrow> bool" where
  "conflict_ifunc conflict = (case conflict of Some c \<Rightarrow> ifunc c | None \<Rightarrow> False)"



text \<open>The contract of a target's conflict handler: the entry it records for a relocation of a type that can be
  applied, when replayed, has the effect of applying the relocation with the conflicting value.\<close>

locale conflict_target =
  fixes rclass :: "u64 \<Rightarrow> int"
    and skip tls_local irelative dtpoff applied :: "u64 \<Rightarrow> bool"
    and entry :: "dso \<Rightarrow> pl_info \<Rightarrow> pl_conflict option \<Rightarrow> elf_rela \<Rightarrow> u64 \<Rightarrow> (int \<times> elf_rela \<times> dso) option"
    and handler :: "dso \<Rightarrow> pl_info \<Rightarrow> elf_rela \<Rightarrow> u64 \<Rightarrow> (int \<times> dso \<times> pl_info) option"
    and apply_conflict :: "pl_info \<Rightarrow> dso \<Rightarrow> elf_rela \<Rightarrow> u8 list \<Rightarrow> u64 \<Rightarrow> (int \<times> u8 list \<times> pl_info) option"
    and apply_reloc :: "pl_info \<Rightarrow> dso \<Rightarrow> elf_rela \<Rightarrow> u8 list \<Rightarrow> (int \<times> u8 list \<times> dso) option"
  assumes handler_shape: "handler d pi r a = (let t = GELF_R_TYPE (ra_info r) in
      if skip t then Some (0, d, pi)
      else do {
        (conflict, pi) \<leftarrow> prelink_conflict rclass pi (ucast (GELF_R_SYM (ra_info r))) t;
        val \<leftarrow> conflict_value d pi conflict (tls_local t) (irelative t) (dtpoff t);
        case val of
          None \<Rightarrow> Some (0, d, pi)
        | Some val \<Rightarrow> record_conflict d pi (\<lambda>pi. entry d pi conflict r val)
      })"
    and applied_plain: "applied t \<Longrightarrow> \<not> skip t \<and> \<not> dtpoff t"
    and entry_replay: "applied (GELF_R_TYPE (ra_info r)) \<Longrightarrow> \<not> ifunc c \<Longrightarrow>
      entry d pi (Some c) r val = Some (0, e, d') \<Longrightarrow> d' = d \<and> ra_offset e = ra_offset r
        \<and> buf_result (apply_conflict pi2 d e buf dest)
          = buf_result (apply_reloc (pi3\<lparr>resolve := \<lambda>_ _. (val, None)\<rparr>) d r buf)"
begin

lemma replay:
  assumes "applied (GELF_R_TYPE (ra_info r))" and "wf_conflict_rela pi"
    and c: "prelink_conflict rclass pi (ucast (GELF_R_SYM (ra_info r))) (GELF_R_TYPE (ra_info r))
       = Some (Some c, pi1)"
    and "\<not> ifunc c" and "info_dso pi \<noteq> dso_ptr d" and "conflict_lookup_value pi1 c = Some val"
    and "handler d pi r ra = Some (0, d', pi2)"
  shows "\<exists>e. d' = d \<and> conflict_rela pi2 = Some (case_option [] id (conflict_rela pi) @ [e])
     \<and> ra_offset e = ra_offset r
     \<and> buf_result (apply_conflict pi2 d e buf dest)
       = buf_result (apply_reloc (pi\<lparr>resolve := \<lambda>_ _. (val, None)\<rparr>) d r buf)"
proof -
  let ?t = "GELF_R_TYPE (ra_info r)"
  obtain tb where pi1: "pi1 = pi\<lparr>curconflicts := tb\<rparr>" using prelink_conflict_keeps [OF c] by blast
  have v: "conflict_value d pi1 (Some c) (tls_local ?t) (irelative ?t) (dtpoff ?t) = Some (Some val)"
    using assms(4-6) pi1 applied_plain [OF assms(1)] by (auto simp: conflict_value_def)
  have w: "wf_conflict_rela pi1" "conflict_rela pi1 = conflict_rela pi"
    using assms(2) by (simp_all add: wf_conflict_rela_def pi1 cong: option.case_cong)
  have rec: "record_conflict d pi1 (\<lambda>pi. entry d pi (Some c) r val) = Some (0, d', pi2)"
    using assms(7) applied_plain [OF assms(1)] v unfolding handler_shape Let_def c by simp
  obtain pi' e where e: "entry d pi' (Some c) r val = Some (0, e, d')"
    and "conflict_rela pi2 = Some (case_option [] id (conflict_rela pi) @ [e])"
    using w(2) by (auto intro: record_conflict_entry [OF w(1) rec])
  then show ?thesis using entry_replay [OF assms(1,4) e] by blast
qed

end

section \<open>Evaluation\<close>

lemmas arch_exec = access_exec GELF_R_TYPE_def GELF_R_SYM_def sample_rela_def sample_info_def
  write_le64_def read_ule64_def write_le32_def read_ule32_def sec_name_is_def strptr_def

end
