(* ===== verification/ArchX86_64.thy ===== *)
theory ArchX86_64
  imports ArchLib
begin

text \<open>
  \<^verbatim>\<open>src/arch-x86_64.c\<close>: every handler of the x86-64 and x32 targets. The local names of the C code are
  kept; an \<^verbatim>\<open>error\<close> call that only prints is left out, its return code is not.

  The lemmas: each handler changes nothing but the cell of its relocation; undoing after prelinking
  gives the image that undoing alone gives; prelinking writes the bytes \<^verbatim>\<open>apply_rela\<close> computes; a
  recorded conflict, replayed, writes the value the relocation has with the conflicting symbol.
\<close>

section \<open>Relocation types\<close>

definition R_X86_64_NONE :: u64 where "R_X86_64_NONE = 0"
definition R_X86_64_64 :: u64 where "R_X86_64_64 = 1"
definition R_X86_64_PC32 :: u64 where "R_X86_64_PC32 = 2"
definition R_X86_64_COPY :: u64 where "R_X86_64_COPY = 5"
definition R_X86_64_GLOB_DAT :: u64 where "R_X86_64_GLOB_DAT = 6"
definition R_X86_64_JUMP_SLOT :: u64 where "R_X86_64_JUMP_SLOT = 7"
definition R_X86_64_RELATIVE :: u64 where "R_X86_64_RELATIVE = 8"
definition R_X86_64_32 :: u64 where "R_X86_64_32 = 10"
definition R_X86_64_DTPMOD64 :: u64 where "R_X86_64_DTPMOD64 = 16"
definition R_X86_64_DTPOFF64 :: u64 where "R_X86_64_DTPOFF64 = 17"
definition R_X86_64_TPOFF64 :: u64 where "R_X86_64_TPOFF64 = 18"
definition R_X86_64_IRELATIVE :: u64 where "R_X86_64_IRELATIVE = 37"
definition EM_X86_64 :: u16 where "EM_X86_64 = 62"

lemmas r_x86_64 =
  R_X86_64_NONE_def R_X86_64_64_def R_X86_64_PC32_def R_X86_64_COPY_def R_X86_64_GLOB_DAT_def
  R_X86_64_JUMP_SLOT_def R_X86_64_RELATIVE_def R_X86_64_32_def R_X86_64_DTPMOD64_def
  R_X86_64_DTPOFF64_def R_X86_64_TPOFF64_def R_X86_64_IRELATIVE_def

section \<open>Access by ELF class\<close>

definition read_uleclass :: "dso \<Rightarrow> u64 \<Rightarrow> (u64 \<times> dso) option" where
  "read_uleclass d a =
     (if ei_class (ehdr d) = ELFCLASS32 then map_option (\<lambda>(v, d). (ucast v, d)) (read_ule32 d a)
      else read_ule64 d a)"

definition write_leclass :: "dso \<Rightarrow> u64 \<Rightarrow> u64 \<Rightarrow> (int \<times> dso) option" where
  "write_leclass d a v =
     (if ei_class (ehdr d) = ELFCLASS32 then write_le32 d a (ucast v) else write_le64 d a v)"

definition buf_write_leclass :: "dso \<Rightarrow> u8 list \<Rightarrow> u64 \<Rightarrow> u8 list option" where
  "buf_write_leclass d buf v =
     (if ei_class (ehdr d) = ELFCLASS32 then buf_write_le32 buf (ucast v) else buf_write_le64 buf v)"

section \<open>Adjusting\<close>

definition x86_64_adjust_dyn ::
  "dso \<Rightarrow> nat \<Rightarrow> elf_dyn \<Rightarrow> u64 \<Rightarrow> u64 \<Rightarrow> (int \<times> elf_dyn \<times> dso) option" where
  "x86_64_adjust_dyn d n dyn start adj =
     (if d_tag dyn = of_nat DT_PLTGOT then do {
        (sec, d) \<leftarrow> addr_to_sec d (d_ptr dyn);
        if sec = None then Some (0, dyn, d) else do {
          (data, d) \<leftarrow> read_ule64 d (d_ptr dyn);
          s \<leftarrow> nth_opt (shdr d) n;
          (_, d) \<leftarrow> (if data = sh_addr s \<and> data \<ge> start then write_le64 d (d_ptr dyn) (data + adj)
                    else Some (0, d));
          (data, d) \<leftarrow> read_ule64 d (d_ptr dyn + 8);
          if data \<noteq> 0 \<and> data \<ge> start then do {
            b \<leftarrow> is_plt_16 d data 1;
            (_, d) \<leftarrow> (if b then write_le64 d (d_ptr dyn + 8) (data + adj) else Some (0, d));
            Some (0, dyn, d)
          } else Some (0, dyn, d)
        }
      } else Some (0, dyn, d))"

definition x86_64_adjust_rel :: "dso \<Rightarrow> elf_rel \<Rightarrow> u64 \<Rightarrow> u64 \<Rightarrow> (int \<times> elf_rel \<times> dso) option" where
  "x86_64_adjust_rel d rel start adj = Some (1, rel, d)"

text \<open>The tail shared by \<^verbatim>\<open>R_X86_64_IRELATIVE\<close> and \<^verbatim>\<open>R_X86_64_JUMP_SLOT\<close>.\<close>

definition x86_64_adjust_slot :: "dso \<Rightarrow> elf_rela \<Rightarrow> u64 \<Rightarrow> u64 \<Rightarrow> (int \<times> elf_rela \<times> dso) option" where
  "x86_64_adjust_slot d rela start adj = do {
     (addr, d) \<leftarrow> read_uleclass d (ra_offset rela);
     (_, d) \<leftarrow> (if addr \<ge> start then write_leclass d (ra_offset rela) (addr + adj) else Some (0, d));
     Some (0, rela, d)
   }"

definition x86_64_adjust_rela :: "dso \<Rightarrow> elf_rela \<Rightarrow> u64 \<Rightarrow> u64 \<Rightarrow> (int \<times> elf_rela \<times> dso) option" where
  "x86_64_adjust_rela d rela start adj = (
     let t = GELF_R_TYPE (ra_info rela) in
     if t = R_X86_64_RELATIVE then
       (if ra_addend rela \<ge> start then do {
          (v, d) \<leftarrow> read_uleclass d (ra_offset rela);
          (_, d) \<leftarrow> (if v = ra_addend rela then write_leclass d (ra_offset rela) (ra_addend rela + adj)
                    else Some (0, d));
          Some (0, rela\<lparr>ra_addend := ra_addend rela + adj\<rparr>, d)
        } else Some (0, rela, d))
     else if t = R_X86_64_IRELATIVE then
       x86_64_adjust_slot d
         (if ra_addend rela \<ge> start then rela\<lparr>ra_addend := ra_addend rela + adj\<rparr> else rela) start adj
     else if t = R_X86_64_JUMP_SLOT then x86_64_adjust_slot d rela start adj
     else Some (0, rela, d))"

section \<open>Prelinking\<close>

definition x86_64_prelink_rel :: "pl_info \<Rightarrow> dso \<Rightarrow> elf_rel \<Rightarrow> u64 \<Rightarrow> (int \<times> elf_rel \<times> dso) option" where
  "x86_64_prelink_rel pi d rel reladdr = Some (1, rel, d)"

definition x86_64_prelink_rela :: "pl_info \<Rightarrow> dso \<Rightarrow> elf_rela \<Rightarrow> u64 \<Rightarrow> (int \<times> elf_rela \<times> dso) option" where
  "x86_64_prelink_rela pi d rela relaaddr = (
     let t = GELF_R_TYPE (ra_info rela) in
     if t = R_X86_64_NONE \<or> t = R_X86_64_IRELATIVE then Some (0, rela, d)
     else if t = R_X86_64_RELATIVE then do {
       (_, d) \<leftarrow> write_leclass d (ra_offset rela) (ra_addend rela);
       Some (0, rela, d)
     }
     else let (val, tls) = resolve pi (GELF_R_SYM (ra_info rela)) t in
     if t = R_X86_64_GLOB_DAT \<or> t = R_X86_64_JUMP_SLOT then do {
       (_, d) \<leftarrow> write_leclass d (ra_offset rela) (val + ra_addend rela);
       Some (0, rela, d)
     }
     else if t = R_X86_64_64 then do {
       (_, d) \<leftarrow> write_le64 d (ra_offset rela) (val + ra_addend rela);
       Some (0, rela, d)
     }
     else if t = R_X86_64_32 then do {
       (_, d) \<leftarrow> write_le32 d (ra_offset rela) (ucast (val + ra_addend rela));
       Some (0, rela, d)
     }
     else if t = R_X86_64_PC32 then do {
       (_, d) \<leftarrow> write_le32 d (ra_offset rela) (ucast (val + ra_addend rela - ra_offset rela));
       Some (0, rela, d)
     }
     else if t = R_X86_64_DTPOFF64 then do {
       (_, d) \<leftarrow> write_le64 d (ra_offset rela) (val + ra_addend rela);
       Some (0, rela, d)
     }
     else if t = R_X86_64_DTPMOD64 then
       (if e_type (ehdr d) = ET_EXEC then Some (1, rela, d) else Some (0, rela, d))
     else if t = R_X86_64_TPOFF64 then
       (if e_type (ehdr d) = ET_EXEC then
          (case tls of
             Some tp \<Rightarrow> do {
               (_, d) \<leftarrow> write_le64 d (ra_offset rela) (val + ra_addend rela - tls_offset tp);
               Some (0, rela, d)
             }
           | None \<Rightarrow> Some (0, rela, d))
        else Some (0, rela, d))
     else if t = R_X86_64_COPY then
       (if e_type (ehdr d) = ET_EXEC then Some (0, rela, d) else Some (1, rela, d))
     else Some (1, rela, d))"

section \<open>Applying to a buffer\<close>

definition x86_64_apply_conflict_rela ::
  "pl_info \<Rightarrow> dso \<Rightarrow> elf_rela \<Rightarrow> u8 list \<Rightarrow> u64 \<Rightarrow> (int \<times> u8 list \<times> pl_info) option" where
  "x86_64_apply_conflict_rela pi d rela buf dest_addr = (
     let t = GELF_R_TYPE (ra_info rela) in
     if t = R_X86_64_GLOB_DAT \<or> t = R_X86_64_JUMP_SLOT then do {
       buf \<leftarrow> buf_write_leclass d buf (ra_addend rela);
       Some (0, buf, pi)
     }
     else if t = R_X86_64_64 then do {
       buf \<leftarrow> buf_write_le64 buf (ra_addend rela);
       Some (0, buf, pi)
     }
     else if t = R_X86_64_IRELATIVE then
       (if dest_addr = 0 then Some (5, buf, pi)
        else do {
          (ret, pi) \<leftarrow> prelink_conflict_add_rela pi;
          case ret of
            None \<Rightarrow> Some (1, buf, pi)
          | Some i \<Rightarrow> Some (0, buf, set_conflict_rela pi i
              \<lparr>ra_offset = dest_addr, ra_info = GELF_R_INFO 0 R_X86_64_IRELATIVE,
               ra_addend = ra_addend rela\<rparr>)
        })
     else if t = R_X86_64_32 then do {
       buf \<leftarrow> buf_write_le32 buf (ucast (ra_addend rela));
       Some (0, buf, pi)
     }
     else None)"

definition x86_64_apply_rel :: "pl_info \<Rightarrow> dso \<Rightarrow> elf_rel \<Rightarrow> u8 list \<Rightarrow> (int \<times> u8 list \<times> dso) option" where
  "x86_64_apply_rel pi d rel buf = Some (1, buf, d)"

definition x86_64_apply_rela :: "pl_info \<Rightarrow> dso \<Rightarrow> elf_rela \<Rightarrow> u8 list \<Rightarrow> (int \<times> u8 list \<times> dso) option" where
  "x86_64_apply_rela pi d rela buf = (
     let t = GELF_R_TYPE (ra_info rela);
         val = fst (resolve pi (GELF_R_SYM (ra_info rela)) t) in
     if t = R_X86_64_NONE then Some (0, buf, d)
     else if t = R_X86_64_GLOB_DAT \<or> t = R_X86_64_JUMP_SLOT then do {
       buf \<leftarrow> buf_write_leclass d buf (val + ra_addend rela);
       Some (0, buf, d)
     }
     else if t = R_X86_64_64 then do {
       buf \<leftarrow> buf_write_le64 buf (val + ra_addend rela);
       Some (0, buf, d)
     }
     else if t = R_X86_64_32 then do {
       buf \<leftarrow> buf_write_le32 buf (ucast (val + ra_addend rela));
       Some (0, buf, d)
     }
     else if t = R_X86_64_PC32 then do {
       buf \<leftarrow> buf_write_le32 buf (ucast (val + ra_addend rela - ra_offset rela));
       Some (0, buf, d)
     }
     else if t = R_X86_64_COPY then None
     else Some (1, buf, d))"


section \<open>Conflicts\<close>

definition x86_64_reloc_class :: "u64 \<Rightarrow> int" where
  "x86_64_reloc_class t =
     (if t = R_X86_64_COPY then RTYPE_CLASS_COPY
      else if t = R_X86_64_JUMP_SLOT then RTYPE_CLASS_PLT
      else if t = R_X86_64_DTPMOD64 \<or> t = R_X86_64_DTPOFF64 \<or> t = R_X86_64_TPOFF64 then RTYPE_CLASS_TLS
      else RTYPE_CLASS_VALID)"

definition x86_64_prelink_conflict_rel ::
  "dso \<Rightarrow> pl_info \<Rightarrow> elf_rel \<Rightarrow> u64 \<Rightarrow> (int \<times> dso \<times> pl_info) option" where
  "x86_64_prelink_conflict_rel d pi rel reladdr = Some (1, d, pi)"

text \<open>The entry that records a conflict, as the final \<^verbatim>\<open>switch\<close> fills it: the return code and \<^verbatim>\<open>*ret\<close>.\<close>

definition x86_64_conflict_entry ::
  "dso \<Rightarrow> pl_info \<Rightarrow> pl_conflict option \<Rightarrow> elf_rela \<Rightarrow> u64 \<Rightarrow> (int \<times> elf_rela) option" where
  "x86_64_conflict_entry d pi conflict rela val = (
     let t = GELF_R_TYPE (ra_info rela);
         ret = \<lparr>ra_offset = ra_offset rela, ra_info = GELF_R_INFO 0 t, ra_addend = 0\<rparr>;
         is_ifunc = (case conflict of None \<Rightarrow> False | Some c \<Rightarrow> ifunc c) in
     if t = R_X86_64_GLOB_DAT \<or> t = R_X86_64_JUMP_SLOT \<or> t = R_X86_64_32 \<or> t = R_X86_64_64
        \<or> t = R_X86_64_IRELATIVE then
       Some (0, ret\<lparr>ra_addend := val + ra_addend rela,
         ra_info := (if is_ifunc then GELF_R_INFO 0 R_X86_64_IRELATIVE
                     else if t = R_X86_64_GLOB_DAT
                     then GELF_R_INFO 0 (if ei_class (ehdr d) = ELFCLASS32 then R_X86_64_32 else R_X86_64_64)
                     else GELF_R_INFO 0 t)\<rparr>)
     else if t = R_X86_64_PC32 then
       Some (0, ret\<lparr>ra_addend := val + ra_addend rela - ra_offset rela,
         ra_info := GELF_R_INFO 0 R_X86_64_32\<rparr>)
     else if t = R_X86_64_COPY then Some (1, ret)
     else if t = R_X86_64_DTPMOD64 \<or> t = R_X86_64_DTPOFF64 \<or> t = R_X86_64_TPOFF64 then
       (if (case conflict of None \<Rightarrow> False
            | Some c \<Rightarrow> reloc_class c \<noteq> RTYPE_CLASS_TLS \<or> cf_lookup c = 0)
        then Some (1, ret)
        else let tls = (case conflict of Some c \<Rightarrow> cf_lookup c | None \<Rightarrow> curtls pi);
                 ret = ret\<lparr>ra_info := GELF_R_INFO 0 R_X86_64_64\<rparr> in
          if t = R_X86_64_DTPMOD64 then do { tp \<leftarrow> tls_at pi tls; Some (0, ret\<lparr>ra_addend := modid tp\<rparr>) }
          else if t = R_X86_64_DTPOFF64 then Some (0, ret\<lparr>ra_addend := val + ra_addend rela\<rparr>)
          else do { tp \<leftarrow> tls_at pi tls;
                    Some (0, ret\<lparr>ra_addend := val + ra_addend rela - tls_offset tp\<rparr>) })
     else Some (1, ret))"

definition x86_64_prelink_conflict_rela ::
  "dso \<Rightarrow> pl_info \<Rightarrow> elf_rela \<Rightarrow> u64 \<Rightarrow> (int \<times> dso \<times> pl_info) option" where
  "x86_64_prelink_conflict_rela d pi rela relaaddr = (
     let t = GELF_R_TYPE (ra_info rela) in
     if t = R_X86_64_RELATIVE \<or> t = R_X86_64_NONE then Some (0, d, pi)
     else do {
       (conflict, pi) \<leftarrow> prelink_conflict x86_64_reloc_class pi (ucast (GELF_R_SYM (ra_info rela))) t;
       val \<leftarrow> conflict_value d pi conflict (t = R_X86_64_DTPMOD64 \<or> t = R_X86_64_TPOFF64)
         (t = R_X86_64_IRELATIVE) (t = R_X86_64_DTPOFF64);
       case val of
         None \<Rightarrow> Some (0, d, pi)
       | Some val \<Rightarrow> record_conflict d pi
           (\<lambda>pi. map_option (\<lambda>(rc, e). (rc, e, d)) (x86_64_conflict_entry d pi conflict rela val))
     })"

section \<open>Conversion, whole-object hooks and undo\<close>

definition x86_64_rel_to_rela :: "dso \<Rightarrow> elf_rel \<Rightarrow> elf_rela \<Rightarrow> (int \<times> elf_rela \<times> dso) option" where
  "x86_64_rel_to_rela d rel rela = Some (1, rela, d)"

definition x86_64_need_rel_to_rela :: "dso \<Rightarrow> nat \<Rightarrow> nat \<Rightarrow> (int \<times> dso) option" where
  "x86_64_need_rel_to_rela d first last_sec = Some (0, d)"

definition x86_64_arch_prelink :: "pl_info \<Rightarrow> dso \<Rightarrow> (int \<times> dso) option" where
  "x86_64_arch_prelink pi d =
     (if info d DT_PLTGOT \<noteq> 0 then do {
        (sec, d) \<leftarrow> addr_to_sec d (info d DT_PLTGOT);
        if sec = None then Some (1, d)
        else do {
          i \<leftarrow> find_progbits d ''.plt'' 1;
          _ \<leftarrow> guard_opt (i < unat (e_shnum (ehdr d)));
          (_, d) \<leftarrow> write_le64 d (info d DT_PLTGOT + 8) (sh_addr (shdr d ! i) + 0x16);
          Some (0, d)
        }
      } else Some (0, d))"

definition x86_64_arch_undo_prelink :: "dso \<Rightarrow> (int \<times> dso) option" where
  "x86_64_arch_undo_prelink d =
     (if info d DT_PLTGOT \<noteq> 0 then do {
        (sec, d) \<leftarrow> addr_to_sec d (info d DT_PLTGOT);
        if sec = None then Some (1, d)
        else do {
          i \<leftarrow> find_progbits d ''.plt'' 1;
          if i = unat (e_shnum (ehdr d)) then Some (0, d)
          else do {
            (data, d) \<leftarrow> read_ule64 d (info d DT_PLTGOT + 8);
            (_, d) \<leftarrow> (if data = sh_addr (shdr d ! i) + 0x16
                      then write_le64 d (info d DT_PLTGOT + 8) 0 else Some (0, d));
            Some (0, d)
          }
        }
      } else Some (0, d))"

text \<open>The case \<^verbatim>\<open>R_X86_64_JUMP_SLOT\<close> of the undo. With \<^verbatim>\<open>sec\<close> equal to -1 the C code reads
  \<^verbatim>\<open>dso->shdr[-1]\<close> before it checks \<^verbatim>\<open>sec\<close>.\<close>

definition x86_64_undo_jump_slot :: "dso \<Rightarrow> elf_rela \<Rightarrow> (int \<times> elf_rela \<times> dso) option" where
  "x86_64_undo_jump_slot d rela = do {
     (sec, d) \<leftarrow> addr_to_sec d (ra_offset rela);
     sec \<leftarrow> sec;
     got \<leftarrow> sec_name_is d sec ''.got'';
     gotplt \<leftarrow> (if got then Some False else sec_name_is d sec ''.got.plt'');
     if \<not> got \<and> \<not> gotplt then Some (1, rela, d)
     else do {
       s \<leftarrow> nth_opt (shdr d) sec;
       (data, d) \<leftarrow> read_uleclass d (sh_addr s + 8);
       _ \<leftarrow> guard_opt (ra_offset rela \<ge> sh_addr s + 24);
       _ \<leftarrow> guard_opt ((ra_offset rela - sh_addr s) AND 7 = 0);
       (_, d) \<leftarrow> write_leclass d (ra_offset rela) (2 * (ra_offset rela - sh_addr s - 24) + data);
       Some (0, rela, d)
     }
   }"

definition x86_64_undo_prelink_rela :: "dso \<Rightarrow> elf_rela \<Rightarrow> u64 \<Rightarrow> (int \<times> elf_rela \<times> dso) option" where
  "x86_64_undo_prelink_rela d rela relaaddr = (
     let t = GELF_R_TYPE (ra_info rela) in
     if t = R_X86_64_NONE \<or> t = R_X86_64_RELATIVE \<or> t = R_X86_64_IRELATIVE then Some (0, rela, d)
     else if t = R_X86_64_JUMP_SLOT then x86_64_undo_jump_slot d rela
     else if t = R_X86_64_GLOB_DAT then do {
       (_, d) \<leftarrow> write_leclass d (ra_offset rela) 0;
       Some (0, rela, d)
     }
     else if t = R_X86_64_64 \<or> t = R_X86_64_DTPMOD64 \<or> t = R_X86_64_DTPOFF64 \<or> t = R_X86_64_TPOFF64 then do {
       (_, d) \<leftarrow> write_le64 d (ra_offset rela) 0;
       Some (0, rela, d)
     }
     else if t = R_X86_64_32 \<or> t = R_X86_64_PC32 then do {
       (_, d) \<leftarrow> write_le32 d (ra_offset rela) 0;
       Some (0, rela, d)
     }
     else if t = R_X86_64_COPY then
       (if e_type (ehdr d) = ET_EXEC then Some (0, rela, d) else Some (1, rela, d))
     else Some (1, rela, d))"

definition x86_64_reloc_size :: "u64 \<Rightarrow> int option" where
  "x86_64_reloc_size t =
     Some (if t = R_X86_64_GLOB_DAT \<or> t = R_X86_64_JUMP_SLOT \<or> t = R_X86_64_64 \<or> t = R_X86_64_IRELATIVE
           then 8 else 4)"

definition x86_64_x32_reloc_size :: "u64 \<Rightarrow> int option" where
  "x86_64_x32_reloc_size t = Some (if t = R_X86_64_64 then 8 else 4)"

section \<open>The targets\<close>

definition plarch_x32 :: pl_arch where
  "plarch_x32 = \<lparr>arch_name = ''x32'', arch_class = ELFCLASS32, arch_machine = EM_X86_64,
     alternate_machine = [0], max_reloc_size = 8, dynamic_linker = ''/libx32/ld-linux-x32.so.2'',
     R_COPY = R_X86_64_COPY, R_JMP_SLOT = R_X86_64_JUMP_SLOT, R_RELATIVE = R_X86_64_RELATIVE,
     rtype_class_valid = RTYPE_CLASS_VALID, arch_adjust = None, adjust_section = None, adjust_dyn = x86_64_adjust_dyn,
     adjust_rel = x86_64_adjust_rel, adjust_rela = x86_64_adjust_rela,
     prelink_rel = x86_64_prelink_rel, prelink_rela = x86_64_prelink_rela,
     prelink_conflict_rel = x86_64_prelink_conflict_rel,
     prelink_conflict_rela = x86_64_prelink_conflict_rela,
     apply_conflict_rela = x86_64_apply_conflict_rela, apply_rel = x86_64_apply_rel,
     apply_rela = x86_64_apply_rela, rel_to_rela = x86_64_rel_to_rela, rela_to_rel = None,
     need_rel_to_rela = x86_64_need_rel_to_rela, reloc_size = x86_64_x32_reloc_size,
     arch_reloc_class = x86_64_reloc_class, arch_prelink = x86_64_arch_prelink,
     arch_undo_prelink = x86_64_arch_undo_prelink, undo_prelink_rel = None,
     undo_prelink_rela = Some x86_64_undo_prelink_rela, mmap_base = 0x41000000,
     mmap_end = 0x60000000, max_page_size = 0x200000, page_size = 0x1000\<rparr>"

definition plarch_x86_64 :: pl_arch where
  "plarch_x86_64 = \<lparr>arch_name = ''x86-64'', arch_class = ELFCLASS64, arch_machine = EM_X86_64,
     alternate_machine = [0], max_reloc_size = 8, dynamic_linker = ''/lib64/ld-linux-x86-64.so.2'',
     R_COPY = R_X86_64_COPY, R_JMP_SLOT = R_X86_64_JUMP_SLOT, R_RELATIVE = R_X86_64_RELATIVE,
     rtype_class_valid = RTYPE_CLASS_VALID, arch_adjust = None, adjust_section = None, adjust_dyn = x86_64_adjust_dyn,
     adjust_rel = x86_64_adjust_rel, adjust_rela = x86_64_adjust_rela,
     prelink_rel = x86_64_prelink_rel, prelink_rela = x86_64_prelink_rela,
     prelink_conflict_rel = x86_64_prelink_conflict_rel,
     prelink_conflict_rela = x86_64_prelink_conflict_rela,
     apply_conflict_rela = x86_64_apply_conflict_rela, apply_rel = x86_64_apply_rel,
     apply_rela = x86_64_apply_rela, rel_to_rela = x86_64_rel_to_rela, rela_to_rel = None,
     need_rel_to_rela = x86_64_need_rel_to_rela, reloc_size = x86_64_reloc_size,
     arch_reloc_class = x86_64_reloc_class, arch_prelink = x86_64_arch_prelink,
     arch_undo_prelink = x86_64_arch_undo_prelink, undo_prelink_rel = None,
     undo_prelink_rela = Some x86_64_undo_prelink_rela, mmap_base = 0x3000000000,
     mmap_end = 0x4000000000, max_page_size = 0x200000, page_size = 0x1000\<rparr>"


section \<open>Handlers change only their cell\<close>

lemma keeps_read_uleclass [keeps_rules]: "only_cell d e a n \<Longrightarrow> keeps d a n snd (read_uleclass e b)"
  unfolding read_uleclass_def by (auto intro!: keeps_rules keeps_map_fst)

lemma keeps_write_leclass [keeps_rules]:
  "only_cell d e a n \<Longrightarrow> 8 \<le> n \<Longrightarrow> keeps d a n snd (write_leclass e a v)"
  unfolding write_leclass_def by (auto intro!: keeps_rules intro: keeps_bind_any)

lemma x86_64_adjust_rela_keeps:
  "wf_dso d \<Longrightarrow> keeps d (ra_offset r) 8 (\<lambda>r. snd (snd r)) (x86_64_adjust_rela d r start adj)"
  unfolding x86_64_adjust_rela_def x86_64_adjust_slot_def
  by (auto intro!: keeps_rules intro: keeps_bind_any)

lemma x86_64_prelink_rela_keeps:
  "wf_dso d \<Longrightarrow> keeps d (ra_offset r) 8 (\<lambda>r. snd (snd r)) (x86_64_prelink_rela pi d r ra)"
  unfolding x86_64_prelink_rela_def Let_def
  by (auto intro!: keeps_rules intro: keeps_bind_any)

lemma x86_64_undo_prelink_rela_keeps:
  "wf_dso d \<Longrightarrow> keeps d (ra_offset r) 8 (\<lambda>r. snd (snd r)) (x86_64_undo_prelink_rela d r ra)"
  unfolding x86_64_undo_prelink_rela_def x86_64_undo_jump_slot_def Let_def
  by (rule keeps_rules keeps_bind_any | simp)+


section \<open>Undo after prelink\<close>

definition class_width :: "dso \<Rightarrow> nat" where
  "class_width d = (if ei_class (ehdr d) = ELFCLASS32 then 4 else 8)"

definition x86_64_width :: "dso \<Rightarrow> u64 \<Rightarrow> nat" where
  "x86_64_width d t = (if t = R_X86_64_GLOB_DAT \<or> t = R_X86_64_JUMP_SLOT then class_width d
     else if t = R_X86_64_32 \<or> t = R_X86_64_PC32 then 4 else 8)"

lemma write_leclass_within:
  "wf_dso d \<Longrightarrow> write_leclass d a v = Some (r, d') \<Longrightarrow> within d d' a (class_width d)"
  by (auto simp: write_leclass_def class_width_def intro: le_within split: if_splits)

lemma write_leclass_replace:
  assumes "wf_dso d" and "write_leclass d a v = Some (r, e)" and "within d d1 a (class_width d)"
  shows "\<exists>e1. write_leclass d1 a v = Some (r, e1) \<and> same_img e e1 \<and> wf_dso e1"
proof -
  have "ehdr d1 = ehdr d" using within_img [OF assms(3)] same_shape_fields(1) by blast
  then show ?thesis
    using assms by (auto simp: write_leclass_def class_width_def intro: le_replace split: if_splits)
qed

lemma read_uleclass_within:
  assumes "wf_dso d" and "only_cell d d1 a m" and "unat b + 8 \<le> unat a"
    and "read_uleclass d b = Some (v, e)"
  shows "read_uleclass d1 b = Some (v, touch d1 b) \<and> e = touch d b"
proof -
  have "ehdr d1 = ehdr d" using only_cell_shape [OF assms(2)] same_shape_fields(1) by blast
  then show ?thesis
    using assms le_read_within [OF assms(1,2), of b]
    by (auto simp: read_uleclass_def split: if_splits)
qed

lemma x86_64_prelink_within:
  assumes "wf_dso d" and "x86_64_prelink_rela pi d r ra = Some (rc, r', d1)"
    and "GELF_R_TYPE (ra_info r) \<noteq> R_X86_64_RELATIVE"
  shows "r' = r \<and> within d d1 (ra_offset r) (x86_64_width d (GELF_R_TYPE (ra_info r)))"
  using assms
  by (auto simp: x86_64_prelink_rela_def Let_def opt_simps x86_64_width_def r_x86_64
      dest: write_leclass_within le_within split: if_splits prod.splits option.splits)


lemma got_header_below:
  assumes "unat s + 24 < 2 ^ 64" and "s + 24 \<le> (a :: u64)"
  shows "unat (s + 8) + 8 \<le> unat a"
  using assms by (simp add: word_le_nat_alt unat_word_ariths)

lemma x86_64_undo_slot:
  assumes wf: "wf_dso d" and ready: "undo_ready d"
    and undo: "x86_64_undo_jump_slot d r = Some (0, r2, e)"
    and w: "within d d1 (ra_offset r) (class_width d)" and c: "only_cell d d1 (ra_offset r) 8"
  shows "\<exists>e1. x86_64_undo_jump_slot d1 r = Some (0, r2, e1) \<and> same_img e e1"
proof -
  let ?a = "ra_offset r"
  let ?t = "touch d ?a" and ?t1 = "touch d1 ?a"
  have d1: "wf_dso d1" "same_shape d d1" using within_img [OF w] by simp_all
  note f = same_shape_fields [OF d1(2)]
  note name = only_cell_names [OF wf ready c]
  have 1: "only_cell ?t ?t1 ?a 8" by (rule only_cell_touch_both [OF c])
  have 2: "within (touch ?t b) (touch ?t1 b) ?a (class_width (touch ?t b))" for b
    using within_touch [OF within_touch [OF w]] by (simp add: class_width_def)
  show ?thesis
  proof (cases "sec_of d ?a")
    case None
    then show ?thesis using undo wf by (simp add: x86_64_undo_jump_slot_def addr_to_sec_eq)
  next
    case (Some i)
    then have i: "i < length (shdr d)" using wf sec_of_iff [OF wf] by (auto simp: wf_dso_def)
    then have a24: "unat (sh_addr (shdr d ! i)) + 24 < 2 ^ 64"
      using ready by (simp add: undo_ready_def list_all_length)
    let ?s = "sh_addr (shdr d ! i)"
    note eval = x86_64_undo_jump_slot_def addr_to_sec_eq wf d1 Some
      same_shape_sec_of [OF d1(2)] name i f
    obtain got gp where n: "sec_name_is d i ''.got'' = Some got"
      "(if got then Some False else sec_name_is d i ''.got.plt'') = Some gp"
      using undo by (auto simp: eval opt_simps split: if_splits)
    have got: "got \<or> gp" using undo n by (auto simp: eval split: if_splits)
    let ?tail = "\<lambda>d. do { (data, d) \<leftarrow> read_uleclass d (?s + 8);
      _ \<leftarrow> guard_opt (?s + 24 \<le> ?a); _ \<leftarrow> guard_opt ((?a - ?s) AND 7 = 0);
      (_, d) \<leftarrow> write_leclass d ?a (2 * (?a - ?s - 24) + data); Some (0, r, d) }"
    have tail: "x86_64_undo_jump_slot d r = ?tail ?t" "x86_64_undo_jump_slot d1 r = ?tail ?t1"
      using n got by (cases got; simp add: eval cong: if_cong)+
    obtain data e0 x where u: "read_uleclass ?t (?s + 8) = Some (data, e0)" "?s + 24 \<le> ?a"
      "(?a - ?s) AND 7 = 0" "write_leclass e0 ?a (2 * (?a - ?s - 24) + data) = Some (x, e)" "r2 = r"
      using undo unfolding tail by (fastforce simp only: bind_eq_Some guard_opt_eq_Some split_paired_Ex prod.case option.inject prod.inject)
    have b: "unat (?s + 8) + 8 \<le> unat ?a" by (rule got_header_below [OF a24 u(2)])
    have v: "read_uleclass ?t1 (?s + 8) = Some (data, touch ?t1 (?s + 8))" "e0 = touch ?t (?s + 8)"
      using read_uleclass_within [OF wf_touch [OF wf] 1 b u(1)] by simp_all
    obtain e1 where "write_leclass (touch ?t1 (?s + 8)) ?a (2 * (?a - ?s - 24) + data) = Some (x, e1)"
      "same_img e e1"
      using write_leclass_replace [OF _ u(4) [unfolded v(2)] 2] wf by auto
    then show ?thesis using u v(1) by (simp add: tail(2) del: right_diff_distrib_numeral)
  qed
qed


text \<open>C10: for every x86-64 or x32 relocation except \<^verbatim>\<open>R_X86_64_RELATIVE\<close>, undoing after prelinking succeeds
  where undoing the original object does, and leaves exactly the same image: undo erases whatever
  prelinking stored, for the jump slots too, whose restored value it computes from the header of the
  GOT. Prelinking leaves the relocation record as it is.\<close>

theorem x86_64_undo_after_prelink:
  assumes "wf_dso d" and "undo_ready d"
    and "GELF_R_TYPE (ra_info r) \<noteq> R_X86_64_RELATIVE"
    and "x86_64_prelink_rela pi d r ra = Some (rc, r', d1)"
    and "x86_64_undo_prelink_rela d r ra = Some (0, r2, e)"
  shows "r' = r \<and> (\<exists>e1. x86_64_undo_prelink_rela d1 r ra = Some (0, r2, e1) \<and> same_img e e1)"
proof -
  let ?t = "GELF_R_TYPE (ra_info r)"
  have w: "r' = r" "within d d1 (ra_offset r) (x86_64_width d ?t)"
    using x86_64_prelink_within [OF assms(1,4,3)] by simp_all
  have c: "only_cell d d1 (ra_offset r) 8"
    using keepsD [OF x86_64_prelink_rela_keeps [OF assms(1)] assms(4)] by simp
  have h: "ehdr d1 = ehdr d" using only_cell_shape [OF c] same_shape_fields(1) by blast
  consider "?t = R_X86_64_JUMP_SLOT" | "?t = R_X86_64_NONE \<or> ?t = R_X86_64_IRELATIVE \<or> ?t = R_X86_64_COPY"
    | "?t = R_X86_64_GLOB_DAT" | "?t = R_X86_64_32 \<or> ?t = R_X86_64_PC32"
    | "?t = R_X86_64_64 \<or> ?t = R_X86_64_DTPMOD64 \<or> ?t = R_X86_64_DTPOFF64 \<or> ?t = R_X86_64_TPOFF64"
    using assms(3,5) by (auto simp: x86_64_undo_prelink_rela_def Let_def split: if_splits)
  then have "\<exists>e1. x86_64_undo_prelink_rela d1 r ra = Some (0, r2, e1) \<and> same_img e e1"
  proof cases
    case 1
    then show ?thesis
      using x86_64_undo_slot [OF assms(1,2) _ _ c] w(2) assms(5)
      by (simp add: x86_64_undo_prelink_rela_def x86_64_width_def r_x86_64)
  next
    case 2
    then have "d1 = d" using assms(4) by (auto simp: x86_64_prelink_rela_def Let_def r_x86_64 split: if_splits)
    then show ?thesis using assms(5) by (auto simp: same_img_def)
  next
    case 3
    then show ?thesis
      using assms(5) w(2) write_leclass_replace [OF assms(1)]
      by (fastforce simp: x86_64_undo_prelink_rela_def x86_64_width_def r_x86_64 opt_simps)
  next
    case 4
    then show ?thesis
      using assms(5) w(2) le_replace(1) [OF assms(1)]
      by (fastforce simp: x86_64_undo_prelink_rela_def x86_64_width_def r_x86_64 opt_simps)
  next
    case 5
    then show ?thesis
      using assms(5) w(2) le_replace(2) [OF assms(1)]
      by (fastforce simp: x86_64_undo_prelink_rela_def x86_64_width_def r_x86_64 opt_simps)
  qed
  then show ?thesis using w(1) by simp
qed

lemmas x86_64_exec = arch_exec write_leclass_def read_uleclass_def

theorem x86_64_undo_after_prelink_witness:
  "\<exists>d1 e e1. x86_64_prelink_rela sample_info sample_dso (sample_rela 7 0x1018) 0 = Some (0, sample_rela 7 0x1018, d1)
     \<and> x86_64_undo_prelink_rela sample_dso (sample_rela 7 0x1018) 0 = Some (0, sample_rela 7 0x1018, e)
     \<and> x86_64_undo_prelink_rela d1 (sample_rela 7 0x1018) 0 = Some (0, sample_rela 7 0x1018, e1)
     \<and> same_img e e1"
proof -
  let ?r = "sample_rela 7 0x1018"
  obtain d1 where p: "x86_64_prelink_rela sample_info sample_dso ?r 0 = Some (0, ?r, d1)"
    by (simp add: x86_64_prelink_rela_def r_x86_64 x86_64_exec)
  obtain e where u: "x86_64_undo_prelink_rela sample_dso ?r 0 = Some (0, ?r, e)"
    by (simp add: x86_64_undo_prelink_rela_def x86_64_undo_jump_slot_def r_x86_64 x86_64_exec)
  have t: "GELF_R_TYPE (ra_info ?r) \<noteq> R_X86_64_RELATIVE"
    by (simp add: r_x86_64 x86_64_exec)
  from x86_64_undo_after_prelink [OF wf_sample_dso undo_ready_sample t p u] p u show ?thesis by blast
qed

section \<open>Prelinking and applying agree\<close>

definition x86_64_applied :: "u64 \<Rightarrow> bool" where
  "x86_64_applied t \<longleftrightarrow> t = R_X86_64_GLOB_DAT \<or> t = R_X86_64_JUMP_SLOT \<or> t = R_X86_64_64
     \<or> t = R_X86_64_32 \<or> t = R_X86_64_PC32"

text \<open>C11: for the relocation types that \<^verbatim>\<open>apply_rela\<close> handles, prelinking a relocation whose cell lies in
  a byte section stores there exactly the bytes that applying the relocation puts into a buffer; there
  are as many of them as \<^verbatim>\<open>reloc_size\<close> of the target says, and the rest of the buffer stays.\<close>

theorem x86_64_prelink_as_apply:
  assumes "wf_dso d" and "x86_64_applied (GELF_R_TYPE (ra_info r))"
    and "locate d (ra_offset r) = Some p" and "dp_type p = ELF_T_BYTE"
    and "x86_64_prelink_rela pi d r ra = Some (rc, r', d1)"
    and "x86_64_apply_rela pi d r buf = Some (rc', buf', d2)"
  shows "\<exists>n. (if ei_class (ehdr d) = ELFCLASS32 then x86_64_x32_reloc_size else x86_64_reloc_size)
       (GELF_R_TYPE (ra_info r)) = Some (int n)
     \<and> rc = 0 \<and> rc' = 0 \<and> d2 = d
     \<and> bytes_at d1 (ra_offset r) n = Some (ELF_T_BYTE, take n buf') \<and> drop n buf' = drop n buf"
proof -
  let ?t = "GELF_R_TYPE (ra_info r)" and ?n = "x86_64_width d (GELF_R_TYPE (ra_info r))"
  have "(if ei_class (ehdr d) = ELFCLASS32 then x86_64_x32_reloc_size else x86_64_reloc_size) ?t
      = Some (int ?n)"
    using assms(2) by (auto simp: x86_64_applied_def x86_64_width_def class_width_def
        x86_64_reloc_size_def x86_64_x32_reloc_size_def r_x86_64)
  moreover have "rc = 0 \<and> rc' = 0 \<and> d2 = d
     \<and> bytes_at d1 (ra_offset r) ?n = Some (ELF_T_BYTE, take ?n buf') \<and> drop ?n buf' = drop ?n buf"
    using assms(2) unfolding x86_64_applied_def
    by (elim disjE; use assms(1,3-6) in \<open>auto simp: x86_64_prelink_rela_def x86_64_apply_rela_def
        x86_64_width_def class_width_def write_leclass_def buf_write_leclass_def r_x86_64 opt_simps
        intro: le_write_apply dest: le_buf_write split: if_splits prod.splits\<close>)
  ultimately show ?thesis by blast
qed


section \<open>Replaying a conflict\<close>

lemma x86_64_entry_replay:
  assumes "x86_64_applied (GELF_R_TYPE (ra_info r))" and "\<not> ifunc c"
    and "x86_64_conflict_entry d pi (Some c) r val = Some (0, e)"
  shows "ra_offset e = ra_offset r \<and> buf_result (x86_64_apply_conflict_rela pi2 d e buf dest)
      = buf_result (x86_64_apply_rela (pi3\<lparr>resolve := \<lambda>_ _. (val, None)\<rparr>) d r buf)"
  using assms(1) unfolding x86_64_applied_def
  by (elim disjE; use assms(2,3) in \<open>auto simp: x86_64_conflict_entry_def x86_64_apply_rela_def
      x86_64_apply_conflict_rela_def GELF_R_TYPE_INFO0 buf_write_leclass_def r_x86_64 bind_Some_map
      buf_result_def option.map_comp comp_def\<close>)

interpretation x86_64_conflicts: conflict_target x86_64_reloc_class
  "\<lambda>t. t = R_X86_64_RELATIVE \<or> t = R_X86_64_NONE" "\<lambda>t. t = R_X86_64_DTPMOD64 \<or> t = R_X86_64_TPOFF64"
  "\<lambda>t. t = R_X86_64_IRELATIVE" "\<lambda>t. t = R_X86_64_DTPOFF64" x86_64_applied
  "\<lambda>d pi c r val. map_option (\<lambda>(rc, e). (rc, e, d)) (x86_64_conflict_entry d pi c r val)"
  x86_64_prelink_conflict_rela x86_64_apply_conflict_rela x86_64_apply_rela
proof (unfold_locales, goal_cases)
  case 1
  show ?case by (simp only: x86_64_prelink_conflict_rela_def)
next
  case (2 t)
  then show ?case by (auto simp: x86_64_applied_def r_x86_64)
next
  case 3
  then show ?case using x86_64_entry_replay by auto
qed


section \<open>The GOT header\<close>

text \<open>C13: the hooks of the whole object are inverse: if the second GOT word is zero, undoing the hook
  that stores the address of the first PLT slot there gives back the original image.\<close>

theorem x86_64_arch_undo_inverse:
  assumes "wf_dso d" and "undo_ready d"
    and "read_ule64 d (info d DT_PLTGOT + 8) = Some (0, d0)"
    and "x86_64_arch_prelink pi d = Some (0, d1)"
  shows "\<exists>e. x86_64_arch_undo_prelink d1 = Some (0, e) \<and> same_img d e"
proof (cases "info d DT_PLTGOT = 0")
  case True
  then have "d1 = d" using assms(4) by (simp add: x86_64_arch_prelink_def)
  then show ?thesis using True by (simp add: x86_64_arch_undo_prelink_def same_img_def)
next
  case False
  let ?g = "info d DT_PLTGOT"
  let ?a = "?g + 8" and ?t = "touch d ?g"
  obtain i k where i: "sec_of d ?g = Some k" "find_progbits ?t ''.plt'' 1 = Some i"
    "i < unat (e_shnum (ehdr d))"
    and w: "\<exists>x. write_le64 ?t ?a (sh_addr (shdr d ! i) + 0x16) = Some (x, d1)"
    using assms(1,4) False
    by (auto simp: x86_64_arch_prelink_def addr_to_sec_eq opt_simps split: option.splits if_splits)
  from w obtain x where w: "write_le64 ?t ?a (sh_addr (shdr d ! i) + 0x16) = Some (x, d1)" ..
  have t: "wf_dso ?t" using assms(1) by simp
  have c: "only_cell ?t d1 ?a 8" by (rule le_only(2) [OF t w])
  have win: "within ?t d1 ?a 8" by (rule le_within(2) [OF t w])
  let ?u = "touch d1 ?g"
  let ?v = "touch ?u ?a"
  have d1: "wf_dso d1" "same_shape ?t d1" using c by (simp_all add: only_cell_def)
  note f = same_shape_fields [OF d1(2)]
  have "same_shape ?t ?u" "nonalloc_eq ?t ?u"
    using c d1(2) only_cell_nonalloc [OF t c] same_shape_trans same_shape_touch
    by (auto simp: nonalloc_eq_def)
  from find_progbits_cong [OF this, of "''.plt''" 1] have plt: "find_progbits ?u ''.plt'' 1 = Some i"
    using i(2) assms(2) by (simp add: undo_ready_def)
  obtain x0 e0 where e0: "write_le64 ?t ?a 0 = Some (x0, e0)" "same_img ?t e0"
    using write_back_ule64 [OF t, of ?a 0] read_ule64_touch [OF assms(1), of ?g ?a] assms(3) by auto
  obtain data where rd: "read_ule64 ?u ?a = Some (data, ?v)"
    and data: "data = sh_addr (shdr d ! i) + 0x16 \<or> img d1 = img ?t"
  proof (cases "x = 0")
    case True
    have "read_ule64 d1 ?a = Some (sh_addr (shdr d ! i) + 0x16, touch d1 ?a)"
      using mle64.write_read [OF t] w True by (simp add: write_le64_def read_ule64_def)
    then show thesis using that read_ule64_touch [OF d1(1)] by simp
  next
    case False
    then have "locate ?t ?a = None" "d1 = touch ?t ?a"
      using w t by (auto simp: write_le64_def mle64.write_eq opt_simps split: option.splits)
    then show thesis using that d1(1) by (simp add: read_ule64_def mle64.read_eq)
  qed
  have "within ?t ?v ?a 8" by (intro within_touch_right win)
  then obtain e1 where e1: "write_le64 ?v ?a 0 = Some (x0, e1)" "same_img e0 e1"
    using le_replace(2) [OF t e0(1)] by blast
  have run: "x86_64_arch_undo_prelink d1 = (do {
      (_, d) \<leftarrow> (if data = sh_addr (shdr d ! i) + 0x16 then write_le64 ?v ?a 0 else Some (0, ?v)); Some (0, d) })"
    using False i plt rd same_shape_sec_of [OF d1(2), of ?g] d1(1) f
    by (simp add: x86_64_arch_undo_prelink_def addr_to_sec_eq)
  have dt: "same_img d ?t" by (simp add: same_img_def)
  show ?thesis
  proof (cases "data = sh_addr (shdr d ! i) + 0x16")
    case True
    then show ?thesis
      using run e1 same_img_trans [OF same_img_trans [OF dt e0(2)] e1(2)] by simp
  next
    case False
    then have "same_img ?t ?v"
      using data within_img [OF \<open>within ?t ?v ?a 8\<close>] by (simp add: same_img_def)
    then show ?thesis using run False same_img_trans [OF dt] by simp
  qed
qed

section \<open>Adjusting a relative relocation\<close>

lemma write_leclass_read:
  assumes "wf_dso d" and "write_leclass d a v = Some (0, d')"
    and "ei_class (ehdr d) = ELFCLASS32 \<longrightarrow> unat v < 2 ^ 32"
  shows "read_uleclass d' a = Some (v, touch d' a)"
proof -
  have "within d d' a (class_width d)" by (rule write_leclass_within [OF assms(1,2)])
  then have "ehdr d' = ehdr d" using within_img same_shape_fields(1) by blast
  then show ?thesis
    using assms mle32.write_read [OF assms(1), of a "ucast v" d', folded write_le32_def read_ule32_def]
      mle64.write_read [OF assms(1), of a v d', folded write_le64_def read_ule64_def]
    by (simp add: write_leclass_def read_uleclass_def ucast_u32_u64 split: if_splits)
qed

lemma read_leclass_write:
  assumes "wf_dso d" and "read_uleclass d a = Some (v, e)" and "locate d a = Some p"
  shows "e = touch d a \<and> (\<exists>d'. write_leclass e a w = Some (0, d'))"
proof -
  have h: "ehdr (touch d a) = ehdr d" "wf_dso (touch d a)" "locate (touch d a) a = Some p"
    using assms(1,3) by simp_all
  have room: "room (touch d a) p n \<longleftrightarrow> room d p n" for n by (rule same_shape_room) simp
  show ?thesis
  proof (cases "ei_class (ehdr d) = ELFCLASS32")
    case True
    then obtain v' where r: "uread buf_read_ule32 host_ld32 d a = Some (v', e)"
      using assms(2) by (auto simp: read_uleclass_def read_ule32_def)
    have "room (touch d a) p 4" using mle32.read_patch [OF assms(1) r assms(3)] room by simp
    from mle32.write_total [OF h(2,3) this, of "ucast w"] show ?thesis
      using mle32.read_keeps [OF assms(1) r] True by (auto simp: write_leclass_def write_le32_def)
  next
    case False
    then have r: "uread buf_read_ule64 host_ld64 d a = Some (v, e)"
      using assms(2) by (simp add: read_uleclass_def read_ule64_def)
    have "room (touch d a) p 8" using mle64.read_patch [OF assms(1) r assms(3)] room by simp
    from mle64.write_total [OF h(2,3) this, of w] show ?thesis
      using mle64.read_keeps [OF assms(1) r] False by (auto simp: write_leclass_def write_le64_def)
  qed
qed

text \<open>Adjusting keeps a relative relocation and its cell in step: if the cell holds the addend
  before, it holds the adjusted addend afterwards, and the addend moves exactly when it lies at or
  above the start of the moved range.\<close>

theorem x86_64_adjust_relative:
  assumes "wf_dso d" and "GELF_R_TYPE (ra_info r) = R_X86_64_RELATIVE"
    and "locate d (ra_offset r) = Some p" and "read_uleclass d (ra_offset r) = Some (ra_addend r, d0)"
    and "ei_class (ehdr d) = ELFCLASS32 \<longrightarrow> unat (ra_addend r + adj) < 2 ^ 32"
  shows "\<exists>r' d' d''. x86_64_adjust_rela d r start adj = Some (0, r', d')
     \<and> r' = r\<lparr>ra_addend := addr_adjust (ra_addend r) start adj\<rparr>
     \<and> read_uleclass d' (ra_offset r) = Some (ra_addend r', d'')"
proof (cases "ra_addend r \<ge> start")
  case False
  then show ?thesis
    using assms(2,4) by (auto simp: x86_64_adjust_rela_def addr_adjust_def)
next
  case True
  obtain d' where d0: "d0 = touch d (ra_offset r)"
    and w: "write_leclass d0 (ra_offset r) (ra_addend r + adj) = Some (0, d')"
    using read_leclass_write [OF assms(1,4,3)] by blast
  have "read_uleclass d' (ra_offset r) = Some (ra_addend r + adj, touch d' (ra_offset r))"
    by (rule write_leclass_read [OF _ w]) (use assms(1,5) d0 in simp_all)
  then show ?thesis
    using True assms(2,4) w by (simp add: x86_64_adjust_rela_def addr_adjust_def)
qed

section \<open>Evaluations\<close>

theorem x86_64_prelink_as_apply_witness:
  "\<exists>d1 buf'. x86_64_prelink_rela sample_info sample_dso (sample_rela 7 0x1018) 0
       = Some (0, sample_rela 7 0x1018, d1)
     \<and> x86_64_apply_rela sample_info sample_dso (sample_rela 7 0x1018) [1, 1, 1, 1, 1, 1, 1, 1, 1] = Some (0, buf', sample_dso)
     \<and> bytes_at d1 0x1018 8 = Some (ELF_T_BYTE, take 8 buf') \<and> drop 8 buf' = [1]"
proof -
  let ?r = "sample_rela 7 0x1018"
  obtain d1 where p: "x86_64_prelink_rela sample_info sample_dso ?r 0 = Some (0, ?r, d1)"
    by (simp add: x86_64_prelink_rela_def r_x86_64 x86_64_exec)
  obtain buf' where b: "x86_64_apply_rela sample_info sample_dso ?r [1, 1, 1, 1, 1, 1, 1, 1, 1] = Some (0, buf', sample_dso)"
    by (simp add: x86_64_apply_rela_def buf_write_leclass_def r_x86_64 x86_64_exec Let_def)
  have t: "x86_64_applied (GELF_R_TYPE (ra_info ?r))"
    by (simp add: x86_64_applied_def r_x86_64 x86_64_exec)
  have l: "locate sample_dso (ra_offset ?r) = Some \<lparr>dp_sec = 2, dp_blk = 0, dp_off = 0x18, dp_type = ELF_T_BYTE\<rparr>"
    using locate_sample by (simp add: sample_rela_def)
  from x86_64_prelink_as_apply [OF wf_sample_dso t l _ p b] p b show ?thesis
    by (simp add: x86_64_reloc_size_def sample_ehdr_def sample_dso_def elf_consts r_x86_64 sample_rela_def
        GELF_R_TYPE_def)
qed


theorem x86_64_arch_undo_inverse_witness:
  "\<exists>d1 e. x86_64_arch_prelink sample_info sample_dso = Some (0, d1)
     \<and> x86_64_arch_undo_prelink d1 = Some (0, e) \<and> same_img sample_dso e"
proof -
  obtain d1 where p: "x86_64_arch_prelink sample_info sample_dso = Some (0, d1)"
    by (simp add: x86_64_arch_prelink_def DT_PLTGOT_def find_progbits.simps x86_64_exec)
  obtain d0 where r: "read_ule64 sample_dso (info sample_dso DT_PLTGOT + 8) = Some (0, d0)"
    by (simp add: DT_PLTGOT_def x86_64_exec)
  from x86_64_arch_undo_inverse [OF wf_sample_dso undo_ready_sample r p] p show ?thesis by blast
qed

theorem x86_64_adjust_relative_witness:
  "\<exists>d' d''. x86_64_adjust_rela sample_dso \<lparr>ra_offset = 0x1018, ra_info = 8, ra_addend = 0\<rparr> 0 0x5000
       = Some (0, \<lparr>ra_offset = 0x1018, ra_info = 8, ra_addend = 0x5000\<rparr>, d')
     \<and> read_uleclass d' 0x1018 = Some (0x5000, d'')"
proof -
  let ?r = "\<lparr>ra_offset = 0x1018, ra_info = 8, ra_addend = 0\<rparr> :: elf_rela"
  obtain d0 where r: "read_uleclass sample_dso (ra_offset ?r) = Some (ra_addend ?r, d0)"
    by (simp add: x86_64_exec)
  have t: "GELF_R_TYPE (ra_info ?r) = R_X86_64_RELATIVE"
    by (simp add: GELF_R_TYPE_def r_x86_64)
  have l: "locate sample_dso (ra_offset ?r) = Some \<lparr>dp_sec = 2, dp_blk = 0, dp_off = 0x18, dp_type = ELF_T_BYTE\<rparr>"
    using locate_sample by simp
  from x86_64_adjust_relative [OF wf_sample_dso t l r, where adj = "0x5000" and start = 0] show ?thesis
    by (auto simp: addr_adjust_def sample_dso_def sample_ehdr_def elf_consts)
qed

section \<open>The target as a whole\<close>

lemma x86_64_rc:
  "x86_64_prelink_rela pi d r a = Some (rc, r', d') \<Longrightarrow> rc \<noteq> 2"
  "x86_64_undo_prelink_rela d r a = Some (rc, r', d') \<Longrightarrow> rc \<noteq> 2"
  by (auto simp: x86_64_prelink_rela_def x86_64_undo_prelink_rela_def x86_64_undo_jump_slot_def Let_def
      bind_eq_Some split: if_splits prod.splits option.splits)

interpretation x86_64_prelink: rela_target 8 "x86_64_prelink_rela pi" for pi
  by unfold_locales (rule x86_64_prelink_rela_keeps, assumption, rule x86_64_rc)

interpretation x86_64_undo: rela_target 8 x86_64_undo_prelink_rela
  by unfold_locales (rule x86_64_undo_prelink_rela_keeps, assumption, rule x86_64_rc)


definition sample_rela_dso :: dso where
  "sample_rela_dso = sample_dso\<lparr>
     scn := (scn sample_dso)[3 := \<lparr>scn_data = [\<lparr>d_type = ELF_T_RELA, d_off = 0, d_size = 24,
       d_buf = Some (le64_bytes 0x1018 @ le64_bytes 7 @ le64_bytes 4)\<rparr>], scn_dirty = False\<rparr>],
     shdr := (shdr sample_dso)[3 := (sample_shdr 15 4 2 0x2000 24)\<lparr>sh_entsize := 24\<rparr>]\<rparr>"

lemma wf_sample_rela_dso: "wf_dso sample_rela_dso"
  by (simp add: wf_dso_def sample_upt sample_rela_dso_def sample_defs sec_disj_def sec_live_def RELOCATE_SCN_def
      elf_consts wf_block_def le64_bytes_def)

lemma sample_getrela: "dso_getrela sample_rela_dso 3 k ndx =
    (if k = 0 \<and> ndx = 0 then Some (sample_rela 7 0x1018) else None)"
  by (auto simp: dso_getrela_def block_at_def nth_opt_def sample_rela_dso_def sample_defs elf_consts
      gelfx_getrela_def peek_def host_ld64_def buf_read_defs le64_bytes_def sample_rela_def)


end
