(* ===== verification/ArchI386.thy ===== *)
theory ArchI386
  imports ArchLib
begin

text \<open>
  \<^verbatim>\<open>src/arch-i386.c\<close>: the handlers of the i386 target, which uses REL sections and converts them to RELA
  where prelinking would lose an addend. An \<^verbatim>\<open>error\<close> call that only prints is left out, its return code is
  not. A value of type \<^verbatim>\<open>Elf32_Sword\<close> stored in a 64-bit addend is sign-extended.

  The lemmas: each handler changes nothing but the cell of its relocation; undoing a prelinked REL relocation
  gives the image that undoing alone gives, and the original relocation; a relocation converted to RELA,
  prelinked and converted back leaves the original image.
\<close>

section \<open>Relocation types\<close>

definition R_386_NONE :: u64 where "R_386_NONE = 0"
definition R_386_32 :: u64 where "R_386_32 = 1"
definition R_386_PC32 :: u64 where "R_386_PC32 = 2"
definition R_386_COPY :: u64 where "R_386_COPY = 5"
definition R_386_GLOB_DAT :: u64 where "R_386_GLOB_DAT = 6"
definition R_386_JMP_SLOT :: u64 where "R_386_JMP_SLOT = 7"
definition R_386_RELATIVE :: u64 where "R_386_RELATIVE = 8"
definition R_386_TLS_TPOFF :: u64 where "R_386_TLS_TPOFF = 14"
definition R_386_TLS_DTPMOD32 :: u64 where "R_386_TLS_DTPMOD32 = 35"
definition R_386_TLS_DTPOFF32 :: u64 where "R_386_TLS_DTPOFF32 = 36"
definition R_386_TLS_TPOFF32 :: u64 where "R_386_TLS_TPOFF32 = 37"
definition R_386_IRELATIVE :: u64 where "R_386_IRELATIVE = 42"
definition EM_386 :: u16 where "EM_386 = 3"

lemmas r_386 =
  R_386_NONE_def R_386_32_def R_386_PC32_def R_386_COPY_def R_386_GLOB_DAT_def R_386_JMP_SLOT_def
  R_386_RELATIVE_def R_386_TLS_TPOFF_def R_386_TLS_DTPMOD32_def R_386_TLS_DTPOFF32_def
  R_386_TLS_TPOFF32_def R_386_IRELATIVE_def

section \<open>Adjusting\<close>

definition i386_adjust_dyn ::
  "dso \<Rightarrow> nat \<Rightarrow> elf_dyn \<Rightarrow> u64 \<Rightarrow> u64 \<Rightarrow> (int \<times> elf_dyn \<times> dso) option" where
  "i386_adjust_dyn d n dyn start adj =
     (if d_tag dyn = of_nat DT_PLTGOT then do {
        (sec, d) \<leftarrow> addr_to_sec d (d_ptr dyn);
        if sec = None then Some (0, dyn, d) else do {
          (data, d) \<leftarrow> read_ule32 d (d_ptr dyn);
          s \<leftarrow> nth_opt (shdr d) n;
          (_, d) \<leftarrow> (if ucast data = sh_addr s \<and> ucast data \<ge> start
                    then write_le32 d (d_ptr dyn) (ucast (ucast data + adj)) else Some (0, d));
          (data, d) \<leftarrow> read_ule32 d (d_ptr dyn + 4);
          if data \<noteq> 0 \<and> ucast data \<ge> start then do {
            b \<leftarrow> is_plt_16 d (ucast data) 1;
            (_, d) \<leftarrow> (if b then write_le32 d (d_ptr dyn + 4) (ucast (ucast data + adj)) else Some (0, d));
            Some (0, dyn, d)
          } else Some (0, dyn, d)
        }
      } else Some (0, dyn, d))"

text \<open>Adding \<open>adj\<close> to the word at an address when it is not below \<open>start\<close>.\<close>

definition i386_adjust_word :: "dso \<Rightarrow> u64 \<Rightarrow> u64 \<Rightarrow> u64 \<Rightarrow> (int \<times> dso) option" where
  "i386_adjust_word d a start adj = do {
     (data, d) \<leftarrow> read_ule32 d a;
     if ucast data \<ge> start then write_le32 d a (ucast (ucast data + adj)) else Some (0, d)
   }"

definition i386_adjust_rel :: "dso \<Rightarrow> elf_rel \<Rightarrow> u64 \<Rightarrow> u64 \<Rightarrow> (int \<times> elf_rel \<times> dso) option" where
  "i386_adjust_rel d rel start adj = (
     let t = GELF_R_TYPE (r_info rel) in
     if t = R_386_RELATIVE \<or> t = R_386_JMP_SLOT \<or> t = R_386_IRELATIVE then do {
       (_, d) \<leftarrow> i386_adjust_word d (r_offset rel) start adj;
       Some (0, rel, d)
     }
     else Some (0, rel, d))"

definition i386_adjust_rela :: "dso \<Rightarrow> elf_rela \<Rightarrow> u64 \<Rightarrow> u64 \<Rightarrow> (int \<times> elf_rela \<times> dso) option" where
  "i386_adjust_rela d rela start adj = (
     let t = GELF_R_TYPE (ra_info rela) in
     if t = R_386_RELATIVE \<or> t = R_386_IRELATIVE then
       (if ucast (ucast (ra_addend rela) :: u32) \<ge> start then do {
          let rela = rela\<lparr>ra_addend := ra_addend rela + sword32 adj\<rparr>;
          (_, d) \<leftarrow> write_le32 d (ra_offset rela) (ucast (ra_addend rela));
          Some (0, rela, d)
        } else Some (0, rela, d))
     else if t = R_386_JMP_SLOT then do {
       (_, d) \<leftarrow> i386_adjust_word d (ra_offset rela) start adj;
       Some (0, rela, d)
     }
     else Some (0, rela, d))"

section \<open>Prelinking\<close>

definition i386_prelink_rel :: "pl_info \<Rightarrow> dso \<Rightarrow> elf_rel \<Rightarrow> u64 \<Rightarrow> (int \<times> elf_rel \<times> dso) option" where
  "i386_prelink_rel pi d rel reladdr = (
     let t = GELF_R_TYPE (r_info rel) in
     if t = R_386_RELATIVE \<or> t = R_386_IRELATIVE \<or> t = R_386_NONE then Some (0, rel, d)
     else let val = fst (resolve pi (GELF_R_SYM (r_info rel)) t) in
     if t = R_386_GLOB_DAT \<or> t = R_386_JMP_SLOT then do {
       (_, d) \<leftarrow> write_le32 d (r_offset rel) (ucast val);
       Some (0, rel, d)
     }
     else if t = R_386_32 then do {
       (v, d) \<leftarrow> read_ule32 d (r_offset rel);
       if v \<noteq> 0 then Some (1, rel, d)
       else do {
         (_, d) \<leftarrow> write_le32 d (r_offset rel) (ucast val);
         Some (2, rel\<lparr>r_info := GELF_R_INFO (GELF_R_SYM (r_info rel)) R_386_GLOB_DAT\<rparr>, d)
       }
     }
     else if t = R_386_PC32 then Some (1, rel, d)
     else if t = R_386_TLS_DTPOFF32 then do {
       (_, d) \<leftarrow> write_le32 d (r_offset rel) (ucast val);
       Some (0, rel, d)
     }
     else if t = R_386_TLS_DTPMOD32 then
       (if e_type (ehdr d) = ET_EXEC then Some (1, rel, d) else Some (0, rel, d))
     else if t = R_386_TLS_TPOFF32 \<or> t = R_386_TLS_TPOFF then Some (0, rel, d)
     else if t = R_386_COPY then
       (if e_type (ehdr d) = ET_EXEC then Some (0, rel, d) else Some (1, rel, d))
     else Some (1, rel, d))"

definition i386_prelink_rela :: "pl_info \<Rightarrow> dso \<Rightarrow> elf_rela \<Rightarrow> u64 \<Rightarrow> (int \<times> elf_rela \<times> dso) option" where
  "i386_prelink_rela pi d rela relaaddr = (
     let t = GELF_R_TYPE (ra_info rela) in
     if t = R_386_RELATIVE \<or> t = R_386_IRELATIVE \<or> t = R_386_NONE then Some (0, rela, d)
     else let (val, tls) = resolve pi (GELF_R_SYM (ra_info rela)) t in
     if t = R_386_GLOB_DAT \<or> t = R_386_JMP_SLOT \<or> t = R_386_32 \<or> t = R_386_TLS_DTPOFF32 then do {
       (_, d) \<leftarrow> write_le32 d (ra_offset rela) (ucast (val + ra_addend rela));
       Some (0, rela, d)
     }
     else if t = R_386_PC32 then do {
       (_, d) \<leftarrow> write_le32 d (ra_offset rela) (ucast (val + ra_addend rela - ra_offset rela));
       Some (0, rela, d)
     }
     else if t = R_386_TLS_DTPMOD32 then
       (if e_type (ehdr d) = ET_EXEC then Some (1, rela, d) else Some (0, rela, d))
     else if t = R_386_TLS_TPOFF32 \<or> t = R_386_TLS_TPOFF then
       (case tls of
          Some tp \<Rightarrow>
            (if e_type (ehdr d) = ET_EXEC then do {
               let v = val + ra_addend rela - tls_offset tp;
               (_, d) \<leftarrow> write_le32 d (ra_offset rela) (ucast (if t = R_386_TLS_TPOFF32 then - v else v));
               Some (0, rela, d)
             } else Some (0, rela, d))
        | None \<Rightarrow> Some (0, rela, d))
     else if t = R_386_COPY then
       (if e_type (ehdr d) = ET_EXEC then Some (0, rela, d) else Some (1, rela, d))
     else Some (1, rela, d))"

section \<open>Applying to a buffer\<close>

definition i386_apply_conflict_rela ::
  "pl_info \<Rightarrow> dso \<Rightarrow> elf_rela \<Rightarrow> u8 list \<Rightarrow> u64 \<Rightarrow> (int \<times> u8 list \<times> pl_info) option" where
  "i386_apply_conflict_rela pi d rela buf dest_addr = (
     let t = GELF_R_TYPE (ra_info rela) in
     if t = R_386_GLOB_DAT \<or> t = R_386_JMP_SLOT \<or> t = R_386_32 then do {
       buf \<leftarrow> buf_write_le32 buf (ucast (ra_addend rela));
       Some (0, buf, pi)
     }
     else if t = R_386_IRELATIVE then
       (if dest_addr = 0 then Some (5, buf, pi)
        else do {
          (ret, pi) \<leftarrow> prelink_conflict_add_rela pi;
          case ret of
            None \<Rightarrow> Some (1, buf, pi)
          | Some i \<Rightarrow> Some (0, buf, set_conflict_rela pi i
              \<lparr>ra_offset = dest_addr, ra_info = GELF_R_INFO 0 R_386_IRELATIVE, ra_addend = ra_addend rela\<rparr>)
        })
     else None)"

definition i386_apply_rel :: "pl_info \<Rightarrow> dso \<Rightarrow> elf_rel \<Rightarrow> u8 list \<Rightarrow> (int \<times> u8 list \<times> dso) option" where
  "i386_apply_rel pi d rel buf = (
     let t = GELF_R_TYPE (r_info rel);
         val = fst (resolve pi (GELF_R_SYM (r_info rel)) t) in
     if t = R_386_NONE then Some (0, buf, d)
     else if t = R_386_GLOB_DAT \<or> t = R_386_JMP_SLOT then do {
       buf \<leftarrow> buf_write_le32 buf (ucast val);
       Some (0, buf, d)
     }
     else if t = R_386_32 then do {
       (v, d) \<leftarrow> read_ule32 d (r_offset rel);
       buf \<leftarrow> buf_write_le32 buf (ucast (val + ucast v));
       Some (0, buf, d)
     }
     else if t = R_386_PC32 then do {
       (v, d) \<leftarrow> read_ule32 d (r_offset rel);
       buf \<leftarrow> buf_write_le32 buf (ucast (val + ucast v - r_offset rel));
       Some (0, buf, d)
     }
     else if t = R_386_COPY then None
     else Some (1, buf, d))"

definition i386_apply_rela :: "pl_info \<Rightarrow> dso \<Rightarrow> elf_rela \<Rightarrow> u8 list \<Rightarrow> (int \<times> u8 list \<times> dso) option" where
  "i386_apply_rela pi d rela buf = (
     let t = GELF_R_TYPE (ra_info rela);
         val = fst (resolve pi (GELF_R_SYM (ra_info rela)) t) in
     if t = R_386_NONE then Some (0, buf, d)
     else if t = R_386_GLOB_DAT \<or> t = R_386_JMP_SLOT \<or> t = R_386_32 then do {
       buf \<leftarrow> buf_write_le32 buf (ucast (val + ra_addend rela));
       Some (0, buf, d)
     }
     else if t = R_386_PC32 then do {
       buf \<leftarrow> buf_write_le32 buf (ucast (val + ra_addend rela - ra_offset rela));
       Some (0, buf, d)
     }
     else if t = R_386_COPY then None
     else Some (1, buf, d))"

section \<open>Conflicts\<close>

definition i386_reloc_class :: "u64 \<Rightarrow> int" where
  "i386_reloc_class t =
     (if t = R_386_COPY then RTYPE_CLASS_COPY
      else if t = R_386_JMP_SLOT then RTYPE_CLASS_PLT
      else if t = R_386_TLS_DTPMOD32 \<or> t = R_386_TLS_DTPOFF32 \<or> t = R_386_TLS_TPOFF32 \<or> t = R_386_TLS_TPOFF
      then RTYPE_CLASS_TLS
      else RTYPE_CLASS_VALID)"

text \<open>The final \<^verbatim>\<open>switch\<close> of \<^verbatim>\<open>i386_prelink_conflict_rel\<close>: the return code, \<^verbatim>\<open>*ret\<close> and the object.\<close>

definition i386_conflict_entry_rel ::
  "dso \<Rightarrow> pl_info \<Rightarrow> pl_conflict option \<Rightarrow> elf_rel \<Rightarrow> u64 \<Rightarrow> (int \<times> elf_rela \<times> dso) option" where
  "i386_conflict_entry_rel d pi conflict rel val = (
     let t = GELF_R_TYPE (r_info rel);
         ret = \<lparr>ra_offset = r_offset rel, ra_info = GELF_R_INFO 0 t, ra_addend = 0\<rparr> in
     if t = R_386_GLOB_DAT \<or> t = R_386_JMP_SLOT then
       Some (0, ret\<lparr>ra_addend := sword32 val,
         ra_info := (if conflict_ifunc conflict then GELF_R_INFO 0 R_386_IRELATIVE
                     else if t = R_386_GLOB_DAT then GELF_R_INFO 0 R_386_32
                     else GELF_R_INFO 0 t)\<rparr>, d)
     else if t = R_386_IRELATIVE then do {
       (v, d) \<leftarrow> read_ule32 d (r_offset rel);
       Some (0, ret\<lparr>ra_addend := scast v\<rparr>, d)
     }
     else if t = R_386_32 \<or> t = R_386_PC32 then Some (1, ret, d)
     else if t = R_386_TLS_DTPMOD32 \<or> t = R_386_TLS_DTPOFF32 \<or> t = R_386_TLS_TPOFF32 \<or> t = R_386_TLS_TPOFF then
       (if tls_mismatch conflict then Some (1, ret, d)
        else
          let tls = conflict_tls pi conflict; ret = ret\<lparr>ra_info := GELF_R_INFO 0 R_386_32\<rparr> in
          if t = R_386_TLS_DTPMOD32 then do { tp \<leftarrow> tls_at pi tls; Some (0, ret\<lparr>ra_addend := modid tp\<rparr>, d) }
          else if t = R_386_TLS_DTPOFF32 then Some (0, ret\<lparr>ra_addend := val\<rparr>, d)
          else do {
            (v, d) \<leftarrow> read_ule32 d (r_offset rel);
            tp \<leftarrow> tls_at pi tls;
            let x = val + ucast v - tls_offset tp;
            Some (0, ret\<lparr>ra_addend := (if t = R_386_TLS_TPOFF32 then - x else x)\<rparr>, d)
          })
     else Some (1, ret, d))"

definition i386_prelink_conflict_rel ::
  "dso \<Rightarrow> pl_info \<Rightarrow> elf_rel \<Rightarrow> u64 \<Rightarrow> (int \<times> dso \<times> pl_info) option" where
  "i386_prelink_conflict_rel d pi rel reladdr = (
     let t = GELF_R_TYPE (r_info rel) in
     if t = R_386_RELATIVE \<or> t = R_386_NONE then Some (0, d, pi)
     else do {
       (conflict, pi) \<leftarrow> prelink_conflict i386_reloc_class pi (ucast (GELF_R_SYM (r_info rel))) t;
       val \<leftarrow> conflict_value d pi conflict
         (t = R_386_TLS_DTPMOD32 \<or> t = R_386_TLS_TPOFF32 \<or> t = R_386_TLS_TPOFF)
         (t = R_386_IRELATIVE) (t = R_386_TLS_DTPOFF32);
       case val of
         None \<Rightarrow> Some (0, d, pi)
       | Some val \<Rightarrow> record_conflict d pi (\<lambda>pi. i386_conflict_entry_rel d pi conflict rel val)
     })"

text \<open>The case \<^verbatim>\<open>R_386_TLS_DTPOFF32\<close> adds the value to the addend of the new entry, which is zero, and
  drops the addend of the relocation.\<close>

definition i386_conflict_entry_rela ::
  "pl_info \<Rightarrow> pl_conflict option \<Rightarrow> elf_rela \<Rightarrow> u64 \<Rightarrow> (int \<times> elf_rela) option" where
  "i386_conflict_entry_rela pi conflict rela val = (
     let t = GELF_R_TYPE (ra_info rela);
         ret = \<lparr>ra_offset = ra_offset rela, ra_info = GELF_R_INFO 0 t, ra_addend = 0\<rparr> in
     if t = R_386_GLOB_DAT \<or> t = R_386_JMP_SLOT \<or> t = R_386_IRELATIVE \<or> t = R_386_32 then
       Some (0, ret\<lparr>ra_addend := sword32 (val + ra_addend rela),
         ra_info := (if conflict_ifunc conflict then GELF_R_INFO 0 R_386_IRELATIVE
                     else if t = R_386_GLOB_DAT then GELF_R_INFO 0 R_386_32
                     else GELF_R_INFO 0 t)\<rparr>)
     else if t = R_386_PC32 then
       Some (0, ret\<lparr>ra_addend := sword32 (val + ra_addend rela - ra_offset rela),
         ra_info := GELF_R_INFO 0 R_386_32\<rparr>)
     else if t = R_386_COPY then Some (1, ret)
     else if t = R_386_TLS_DTPMOD32 \<or> t = R_386_TLS_DTPOFF32 \<or> t = R_386_TLS_TPOFF32 \<or> t = R_386_TLS_TPOFF then
       (if tls_mismatch conflict then Some (1, ret)
        else
          let tls = conflict_tls pi conflict; ret = ret\<lparr>ra_info := GELF_R_INFO 0 R_386_32\<rparr> in
          if t = R_386_TLS_DTPMOD32 then do { tp \<leftarrow> tls_at pi tls; Some (0, ret\<lparr>ra_addend := modid tp\<rparr>) }
          else if t = R_386_TLS_DTPOFF32 then Some (0, ret\<lparr>ra_addend := ra_addend ret + val\<rparr>)
          else do {
            tp \<leftarrow> tls_at pi tls;
            let x = val + ra_addend rela - tls_offset tp;
            Some (0, ret\<lparr>ra_addend := (if t = R_386_TLS_TPOFF32 then - x else x)\<rparr>)
          })
     else Some (1, ret))"

definition i386_prelink_conflict_rela ::
  "dso \<Rightarrow> pl_info \<Rightarrow> elf_rela \<Rightarrow> u64 \<Rightarrow> (int \<times> dso \<times> pl_info) option" where
  "i386_prelink_conflict_rela d pi rela relaaddr = (
     let t = GELF_R_TYPE (ra_info rela) in
     if t = R_386_RELATIVE \<or> t = R_386_NONE then Some (0, d, pi)
     else do {
       (conflict, pi) \<leftarrow> prelink_conflict i386_reloc_class pi (ucast (GELF_R_SYM (ra_info rela))) t;
       val \<leftarrow> conflict_value d pi conflict
         (t = R_386_TLS_DTPMOD32 \<or> t = R_386_TLS_TPOFF32 \<or> t = R_386_TLS_TPOFF)
         (t = R_386_IRELATIVE) (t = R_386_TLS_DTPOFF32);
       case val of
         None \<Rightarrow> Some (0, d, pi)
       | Some val \<Rightarrow> record_conflict d pi
           (\<lambda>pi. map_option (\<lambda>(rc, e). (rc, e, d)) (i386_conflict_entry_rela pi conflict rela val))
     })"

section \<open>Conversion between REL and RELA\<close>

definition i386_addend_type :: "u64 \<Rightarrow> bool" where
  "i386_addend_type t \<longleftrightarrow> t = R_386_RELATIVE \<or> t = R_386_IRELATIVE \<or> t = R_386_32 \<or> t = R_386_PC32
     \<or> t = R_386_TLS_TPOFF32 \<or> t = R_386_TLS_TPOFF"

definition i386_zero_type :: "u64 \<Rightarrow> bool" where
  "i386_zero_type t \<longleftrightarrow> t = R_386_COPY \<or> t = R_386_GLOB_DAT \<or> t = R_386_TLS_DTPOFF32 \<or> t = R_386_TLS_DTPMOD32"

definition i386_rel_to_rela :: "dso \<Rightarrow> elf_rel \<Rightarrow> elf_rela \<Rightarrow> (int \<times> elf_rela \<times> dso) option" where
  "i386_rel_to_rela d rel rela = (
     let rela = rela\<lparr>ra_offset := r_offset rel, ra_info := r_info rel\<rparr>;
         t = GELF_R_TYPE (r_info rel) in
     if t = R_386_JMP_SLOT then None
     else if i386_addend_type t then do {
       (v, d) \<leftarrow> read_ule32 d (r_offset rel);
       Some (0, rela\<lparr>ra_addend := scast v\<rparr>, d)
     }
     else if i386_zero_type t then Some (0, rela\<lparr>ra_addend := 0\<rparr>, d)
     else Some (0, rela, d))"

text \<open>The scan over the records of one block: the walk ends with 1 when a record needs its addend.\<close>

definition i386_rel_needs_rela :: "nat \<Rightarrow> nat \<Rightarrow> nat \<Rightarrow> dso \<Rightarrow> (int \<times> dso) option" where
  "i386_rel_needs_rela n k ndx d = do {
     b \<leftarrow> block_at d n k;
     buf \<leftarrow> d_buf b;
     off \<leftarrow> peek (host_ld32 (host_lsb d)) (ndx * 8) buf;
     inf \<leftarrow> peek (host_ld32 (host_lsb d)) (ndx * 8 + 4) buf;
     let t = ucast (ELF32_R_TYPE inf);
     if t = R_386_32 then do {
       (v, d) \<leftarrow> read_ule32 d (ucast off);
       Some (if v = 0 then 0 else 1, d)
     }
     else if t = R_386_PC32 then Some (1, d)
     else if t = R_386_TLS_TPOFF32 \<or> t = R_386_TLS_TPOFF then
       Some (if e_type (ehdr d) = ET_EXEC then 1 else 0, d)
     else Some (0, d)
   }"

definition i386_need_rel_to_rela :: "dso \<Rightarrow> nat \<Rightarrow> nat \<Rightarrow> (int \<times> dso) option" where
  "i386_need_rel_to_rela d first last_sec =
     for_ndx (\<lambda>n d. do {
       sc \<leftarrow> nth_opt (scn d) n;
       for_ndx (\<lambda>k d. do {
         b \<leftarrow> block_at d n k;
         for_ndx (\<lambda>ndx d. i386_rel_needs_rela n k ndx d) 0 (unat (d_size b) div 8) d
       }) 0 (length (scn_data sc)) d
     }) first (Suc last_sec - first) d"

definition i386_rela_to_rel :: "dso \<Rightarrow> elf_rela \<Rightarrow> elf_rel \<Rightarrow> (int \<times> elf_rel \<times> dso) option" where
  "i386_rela_to_rel d rela rel = (
     let rel = rel\<lparr>r_offset := ra_offset rela, r_info := ra_info rela\<rparr>;
         t = GELF_R_TYPE (r_info rel) in
     if t = R_386_JMP_SLOT then None
     else if i386_addend_type t then do {
       (_, d) \<leftarrow> write_le32 d (ra_offset rela) (ucast (ra_addend rela));
       Some (0, rel, d)
     }
     else if i386_zero_type t then do {
       (_, d) \<leftarrow> write_le32 d (ra_offset rela) 0;
       Some (0, rel, d)
     }
     else Some (0, rel, d))"

section \<open>Whole-object hooks and undo\<close>

definition i386_arch_prelink :: "pl_info \<Rightarrow> dso \<Rightarrow> (int \<times> dso) option" where
  "i386_arch_prelink pi d =
     (if info d DT_PLTGOT \<noteq> 0 then do {
        (sec, d) \<leftarrow> addr_to_sec d (info d DT_PLTGOT);
        if sec = None then Some (1, d)
        else do {
          i \<leftarrow> find_progbits d ''.plt'' 1;
          if i = unat (e_shnum (ehdr d)) then Some (0, d)
          else do {
            (_, d) \<leftarrow> write_le32 d (info d DT_PLTGOT + 4) (ucast (sh_addr (shdr d ! i) + 0x16));
            Some (0, d)
          }
        }
      } else Some (0, d))"

definition i386_arch_undo_prelink :: "dso \<Rightarrow> (int \<times> dso) option" where
  "i386_arch_undo_prelink d =
     (if info d DT_PLTGOT \<noteq> 0 then do {
        (sec, d) \<leftarrow> addr_to_sec d (info d DT_PLTGOT);
        if sec = None then Some (1, d)
        else do {
          i \<leftarrow> find_progbits d ''.plt'' 1;
          if i = unat (e_shnum (ehdr d)) then Some (0, d)
          else do {
            (data, d) \<leftarrow> read_ule32 d (info d DT_PLTGOT + 4);
            (_, d) \<leftarrow> (if ucast data = sh_addr (shdr d ! i) + 0x16
                      then write_le32 d (info d DT_PLTGOT + 4) 0 else Some (0, d));
            Some (0, d)
          }
        }
      } else Some (0, d))"

text \<open>The case \<^verbatim>\<open>R_386_JMP_SLOT\<close> of the undo. With \<^verbatim>\<open>sec\<close> equal to -1 the C code reads
  \<^verbatim>\<open>dso->shdr[-1]\<close> before it checks \<^verbatim>\<open>sec\<close>.\<close>

definition i386_undo_jmp_slot :: "dso \<Rightarrow> elf_rel \<Rightarrow> (int \<times> elf_rel \<times> dso) option" where
  "i386_undo_jmp_slot d rel = do {
     (sec, d) \<leftarrow> addr_to_sec d (r_offset rel);
     sec \<leftarrow> sec;
     got \<leftarrow> sec_name_is d sec ''.got'';
     gotplt \<leftarrow> (if got then Some False else sec_name_is d sec ''.got.plt'');
     if \<not> got \<and> \<not> gotplt then Some (1, rel, d)
     else do {
       s \<leftarrow> nth_opt (shdr d) sec;
       (data, d) \<leftarrow> read_ule32 d (sh_addr s + 4);
       _ \<leftarrow> guard_opt (r_offset rel \<ge> sh_addr s + 12);
       _ \<leftarrow> guard_opt ((r_offset rel - sh_addr s) AND 3 = 0);
       (_, d) \<leftarrow> write_le32 d (r_offset rel) (ucast (4 * (r_offset rel - sh_addr s - 12) + ucast data));
       Some (0, rel, d)
     }
   }"

text \<open>The case \<^verbatim>\<open>R_386_GLOB_DAT\<close>: outside \<^verbatim>\<open>.got\<close> it goes back to \<^verbatim>\<open>R_386_32\<close>.\<close>

definition i386_undo_glob_dat :: "dso \<Rightarrow> elf_rel \<Rightarrow> (int \<times> elf_rel \<times> dso) option" where
  "i386_undo_glob_dat d rel = do {
     (sec, d) \<leftarrow> addr_to_sec d (r_offset rel);
     (_, d) \<leftarrow> write_le32 d (r_offset rel) 0;
     case sec of
       None \<Rightarrow> Some (0, rel, d)
     | Some i \<Rightarrow> do {
         got \<leftarrow> sec_name_is d i ''.got'';
         if got then Some (0, rel, d)
         else Some (2, rel\<lparr>r_info := GELF_R_INFO (GELF_R_SYM (r_info rel)) R_386_32\<rparr>, d)
       }
   }"

definition i386_undo_prelink_rel :: "dso \<Rightarrow> elf_rel \<Rightarrow> u64 \<Rightarrow> (int \<times> elf_rel \<times> dso) option" where
  "i386_undo_prelink_rel d rel reladdr = (
     let t = GELF_R_TYPE (r_info rel) in
     if t = R_386_NONE \<or> t = R_386_RELATIVE \<or> t = R_386_IRELATIVE then Some (0, rel, d)
     else if t = R_386_JMP_SLOT then i386_undo_jmp_slot d rel
     else if t = R_386_GLOB_DAT then i386_undo_glob_dat d rel
     else if t = R_386_32 \<or> t = R_386_PC32 then Some (1, rel, d)
     else if t = R_386_COPY then
       (if e_type (ehdr d) = ET_EXEC then Some (0, rel, d) else Some (1, rel, d))
     else if t = R_386_TLS_DTPMOD32 \<or> t = R_386_TLS_DTPOFF32 then do {
       (_, d) \<leftarrow> write_le32 d (r_offset rel) 0;
       Some (0, rel, d)
     }
     else if t = R_386_TLS_TPOFF32 \<or> t = R_386_TLS_TPOFF then Some (0, rel, d)
     else Some (1, rel, d))"

definition i386_reloc_size :: "u64 \<Rightarrow> int option" where
  "i386_reloc_size t = do { _ \<leftarrow> guard_opt (t \<noteq> R_386_COPY); Some 4 }"

section \<open>The target\<close>

definition plarch_i386 :: pl_arch where
  "plarch_i386 = \<lparr>arch_name = ''i386'', arch_class = ELFCLASS32, arch_machine = EM_386,
     alternate_machine = [0], max_reloc_size = 4, dynamic_linker = ''/lib/ld-linux.so.2'',
     R_COPY = R_386_COPY, R_JMP_SLOT = R_386_JMP_SLOT, R_RELATIVE = R_386_RELATIVE,
     rtype_class_valid = RTYPE_CLASS_VALID, arch_adjust = None, adjust_section = None, adjust_dyn = i386_adjust_dyn,
     adjust_rel = i386_adjust_rel, adjust_rela = i386_adjust_rela,
     prelink_rel = i386_prelink_rel, prelink_rela = i386_prelink_rela,
     prelink_conflict_rel = i386_prelink_conflict_rel,
     prelink_conflict_rela = i386_prelink_conflict_rela,
     apply_conflict_rela = i386_apply_conflict_rela, apply_rel = i386_apply_rel,
     apply_rela = i386_apply_rela, rel_to_rela = i386_rel_to_rela, rela_to_rel = Some i386_rela_to_rel,
     need_rel_to_rela = i386_need_rel_to_rela, reloc_size = i386_reloc_size,
     arch_reloc_class = i386_reloc_class, arch_prelink = i386_arch_prelink,
     arch_undo_prelink = i386_arch_undo_prelink, undo_prelink_rel = Some i386_undo_prelink_rel,
     undo_prelink_rela = None, mmap_base = 0x41000000, mmap_end = 0x50000000,
     max_page_size = 0x1000, page_size = 0x1000\<rparr>"

section \<open>Handlers change only their cell\<close>

lemma i386_prelink_rel_keeps:
  "wf_dso d \<Longrightarrow> keeps d (r_offset r) 4 (\<lambda>r. snd (snd r)) (i386_prelink_rel pi d r ra)"
  unfolding i386_prelink_rel_def Let_def by (rule keeps_rules keeps_bind_any | simp)+

lemma i386_prelink_rela_keeps:
  "wf_dso d \<Longrightarrow> keeps d (ra_offset r) 4 (\<lambda>r. snd (snd r)) (i386_prelink_rela pi d r ra)"
  unfolding i386_prelink_rela_def Let_def by (rule keeps_rules keeps_bind_any | simp)+

lemma i386_undo_prelink_rel_keeps:
  "wf_dso d \<Longrightarrow> keeps d (r_offset r) 4 (\<lambda>r. snd (snd r)) (i386_undo_prelink_rel d r ra)"
  unfolding i386_undo_prelink_rel_def i386_undo_jmp_slot_def i386_undo_glob_dat_def Let_def
  by (rule keeps_rules keeps_bind_any | simp)+

lemma i386_prelink_within:
  assumes "wf_dso d" and "i386_prelink_rel pi d r ra = Some (rc, r', d1)"
  shows "within d d1 (r_offset r) 4 \<and> (GELF_R_TYPE (r_info r) \<noteq> R_386_32 \<longrightarrow> r' = r)"
proof (cases "GELF_R_TYPE (r_info r) = R_386_32")
  case False
  then show ?thesis
    using assms by (auto simp: i386_prelink_rel_def Let_def opt_simps r_386
      dest: le_within split: if_splits)
next
  case True
  obtain v e where e: "read_ule32 d (r_offset r) = Some (v, e)"
    "rc = 1 \<and> d1 = e \<or> (\<exists>x. write_le32 e (r_offset r) (ucast (fst (resolve pi (GELF_R_SYM (r_info r)) R_386_32))) = Some (x, d1))"
    using assms(2) True by (auto simp: i386_prelink_rel_def Let_def opt_simps r_386 split: if_splits)
  have "e = touch d (r_offset r)"
    using mle32.read_keeps [OF assms(1) e(1) [unfolded read_ule32_def]] by simp
  then have "within (touch d (r_offset r)) d1 (r_offset r) 4"
    using e(2) assms(1) by (auto intro: le_within)
  then show ?thesis using True within_touch_left by blast
qed

lemma i386_undo_cases:
  "i386_undo_glob_dat = undo_glob_dat write_le32 R_386_32"
  "i386_undo_jmp_slot = undo_jump_slot read_ule32 write_le32 (\<lambda>x data. ucast (4 * (x - 12) + ucast data))"
  by (intro ext, simp add: i386_undo_glob_dat_def undo_glob_dat_def)
    (intro ext, simp only: i386_undo_jmp_slot_def undo_jump_slot_def)

section \<open>Undo after prelink\<close>

text \<open>For every relocation of a REL section but \<^verbatim>\<open>R_386_32\<close>, prelinking keeps the relocation record and
  undoing afterwards gives the return code, the record and the image that undoing the original object gives.\<close>

theorem i386_undo_after_prelink:
  assumes "wf_dso d" and "undo_ready d" and "GELF_R_TYPE (r_info r) \<noteq> R_386_32"
    and "i386_prelink_rel pi d r ra = Some (rc, r', d1)"
    and "i386_undo_prelink_rel d r ra = Some (rc2, r2, e)" and "rc2 \<noteq> 1"
  shows "r' = r \<and> (\<exists>e1. i386_undo_prelink_rel d1 r ra = Some (rc2, r2, e1) \<and> same_img e e1)"
proof -
  let ?t = "GELF_R_TYPE (r_info r)"
  have w: "within d d1 (r_offset r) 4" "r' = r" using i386_prelink_within [OF assms(1,4)] assms(3) by simp_all
  have c: "only_cell d d1 (r_offset r) 4"
    using keepsD [OF i386_prelink_rel_keeps [OF assms(1)] assms(4)] by simp
  consider "?t = R_386_JMP_SLOT" | "?t = R_386_GLOB_DAT" | "?t = R_386_TLS_DTPMOD32 \<or> ?t = R_386_TLS_DTPOFF32"
    | "?t = R_386_NONE \<or> ?t = R_386_RELATIVE \<or> ?t = R_386_IRELATIVE \<or> ?t = R_386_COPY
        \<or> ?t = R_386_TLS_TPOFF32 \<or> ?t = R_386_TLS_TPOFF"
    using assms(3,5,6) by (auto simp: i386_undo_prelink_rel_def Let_def split: if_splits)
  then have "\<exists>e1. i386_undo_prelink_rel d1 r ra = Some (rc2, r2, e1) \<and> same_img e e1"
  proof cases
    case 1
    then have u: "i386_undo_prelink_rel x r ra = i386_undo_jmp_slot x r" for x
      by (simp add: i386_undo_prelink_rel_def r_386)
    have "rc2 = 0" using assms(5,6) unfolding u
      by (auto simp: i386_undo_jmp_slot_def opt_simps split: if_splits)
    then show ?thesis
      using le_cell.undo_jump_slot_again [OF assms(1,2) w(1) c] assms(5) unfolding u i386_undo_cases by simp
  next
    case 2
    then have u: "i386_undo_prelink_rel x r ra = i386_undo_glob_dat x r" for x
      by (simp add: i386_undo_prelink_rel_def r_386)
    show ?thesis using le_cell.undo_glob_dat_again [OF assms(1,2) w(1) c] assms(5) unfolding u i386_undo_cases .
  next
    case 3
    then show ?thesis
      using assms(5) w(1) le_replace(1) [OF assms(1)]
      by (fastforce simp: i386_undo_prelink_rel_def r_386 opt_simps)
  next
    case 4
    then have "d1 = d" using assms(4) by (auto simp: i386_prelink_rel_def Let_def r_386 split: if_splits)
    then show ?thesis using assms(5) by (simp add: same_img_def)
  qed
  then show ?thesis using w(2) by simp
qed

text \<open>C18: a prelinked \<^verbatim>\<open>R_386_32\<close> outside \<^verbatim>\<open>.got\<close> becomes \<^verbatim>\<open>R_386_GLOB_DAT\<close>; undoing it gives back the original
  relocation and the original image.\<close>

theorem i386_undo_restores_32:
  assumes wf: "wf_dso d" and ready: "undo_ready d" and t: "GELF_R_TYPE (r_info r) = R_386_32"
    and p: "i386_prelink_rel pi d r ra = Some (2, r', d1)"
    and s: "sec_of d (r_offset r) = Some i" "sec_name_is d i ''.got'' = Some False"
  shows "\<exists>e. i386_undo_prelink_rel d1 r' ra' = Some (2, r, e) \<and> same_img d e"
proof -
  obtain d0 where rd: "read_ule32 d (r_offset r) = Some (0, d0)"
    and r': "r' = r\<lparr>r_info := GELF_R_INFO (GELF_R_SYM (r_info r)) R_386_GLOB_DAT\<rparr>"
    using p t by (auto simp: i386_prelink_rel_def Let_def r_386 opt_simps split: if_splits)
  have w: "within d d1 (r_offset r) 4" using i386_prelink_within [OF wf p] by simp
  have c: "only_cell d d1 (r_offset r) 4" using keepsD [OF i386_prelink_rel_keeps [OF wf] p] by simp
  have "GELF_R_TYPE (r_info r') = R_386_GLOB_DAT" unfolding r' by (simp add: GELF_R_retype r_386)
  then have "i386_undo_prelink_rel d1 r' ra' = undo_glob_dat write_le32 R_386_32 d1 r'"
    by (simp add: i386_undo_prelink_rel_def i386_undo_cases r_386)
  then show ?thesis
    using le_cell.undo_glob_dat_restores [OF wf ready t rd w c _ s, of R_386_GLOB_DAT] r' by (simp add: R_386_GLOB_DAT_def)
qed

text \<open>C19: a relocation that needs its addend survives the way through RELA: converted to RELA, prelinked and
  converted back, it is the original relocation and the image is the original image.\<close>

theorem i386_rela_and_back:
  assumes wf: "wf_dso d" and t: "i386_addend_type (GELF_R_TYPE (r_info r))"
    and c: "i386_rel_to_rela d r rela0 = Some (rc, rela, d0)"
    and p: "i386_prelink_rela pi d0 rela ra = Some (rc', rela', d1)"
  shows "rela' = rela \<and> (\<exists>e. i386_rela_to_rel d1 rela' rel0 = Some (0, r, e) \<and> same_img d e)"
proof -
  let ?a = "r_offset r"
  obtain v where v: "read_ule32 d ?a = Some (v, d0)" "ra_offset rela = ?a" "ra_info rela = r_info r"
      "ra_addend rela = scast v"
    using c t by (auto simp: i386_rel_to_rela_def Let_def i386_addend_type_def r_386 opt_simps split: if_splits)
  have d0: "d0 = touch d ?a" "wf_dso d0"
    using mle32.read_keeps [OF wf v(1) [unfolded read_ule32_def]] wf by simp_all
  have w: "within d0 d1 ?a 4" "rela' = rela"
    using p t d0(2) v(2,3) by (auto simp: i386_prelink_rela_def i386_addend_type_def Let_def r_386 opt_simps
        dest: le_within split: if_splits prod.splits option.splits)
  obtain x e0 where e0: "write_le32 d ?a v = Some (x, e0)" "same_img d e0"
    using write_back_ule32 [OF wf v(1)] by blast
  have "within d d1 ?a 4" using w(1) d0(1) within_touch_left by blast
  then obtain e where e: "write_le32 d1 ?a v = Some (x, e)" "same_img e0 e"
    using le_replace(1) [OF wf e0(1)] by blast
  have "i386_rela_to_rel d1 rela' rel0 = Some (0, rel0\<lparr>r_offset := ?a, r_info := r_info r\<rparr>, e)"
    using w(2) v t e(1) by (auto simp: i386_rela_to_rel_def ucast_scast32 Let_def i386_addend_type_def r_386)
  moreover have "rel0\<lparr>r_offset := ?a, r_info := r_info r\<rparr> = r" by (cases r; cases rel0) simp
  ultimately show ?thesis using w(2) same_img_trans [OF e0(2) e(2)] by simp
qed

definition i386_applied :: "u64 \<Rightarrow> bool" where
  "i386_applied t \<longleftrightarrow> t = R_386_GLOB_DAT \<or> t = R_386_JMP_SLOT \<or> t = R_386_32 \<or> t = R_386_PC32"

lemma i386_entry_replay:
  assumes "i386_applied (GELF_R_TYPE (ra_info r))" and "\<not> ifunc c"
    and "i386_conflict_entry_rela pi (Some c) r val = Some (0, e)"
  shows "ra_offset e = ra_offset r \<and> buf_result (i386_apply_conflict_rela pi2 d e buf dest)
      = buf_result (i386_apply_rela (pi3\<lparr>resolve := \<lambda>_ _. (val, None)\<rparr>) d r buf)"
  using assms(1) unfolding i386_applied_def
  by (elim disjE; use assms(2,3) in \<open>auto simp: i386_conflict_entry_rela_def i386_apply_rela_def
      i386_apply_conflict_rela_def conflict_ifunc_def GELF_R_TYPE_INFO0 r_386 bind_Some_map
      buf_result_def option.map_comp comp_def\<close>)

interpretation i386_conflicts: conflict_target i386_reloc_class
  "\<lambda>t. t = R_386_RELATIVE \<or> t = R_386_NONE"
  "\<lambda>t. t = R_386_TLS_DTPMOD32 \<or> t = R_386_TLS_TPOFF32 \<or> t = R_386_TLS_TPOFF"
  "\<lambda>t. t = R_386_IRELATIVE" "\<lambda>t. t = R_386_TLS_DTPOFF32" i386_applied
  "\<lambda>d pi c r val. map_option (\<lambda>(rc, e). (rc, e, d)) (i386_conflict_entry_rela pi c r val)"
  i386_prelink_conflict_rela i386_apply_conflict_rela i386_apply_rela
proof (unfold_locales, goal_cases)
  case 1
  show ?case by (simp only: i386_prelink_conflict_rela_def)
next
  case (2 t)
  then show ?case by (auto simp: i386_applied_def r_386)
next
  case 3
  then show ?case using i386_entry_replay by auto
qed

text \<open>The contract of the conflict image for i386: replaying the entry recorded for a relocation has the
  effect of applying the relocation with its symbol resolved to the value of the conflict.\<close>

theorem i386_conflict_replay:
  assumes "i386_applied (GELF_R_TYPE (ra_info r))" and "wf_conflict_rela pi"
    and "prelink_conflict i386_reloc_class pi (ucast (GELF_R_SYM (ra_info r))) (GELF_R_TYPE (ra_info r))
       = Some (Some c, pi1)"
    and "\<not> ifunc c" and "info_dso pi \<noteq> dso_ptr d" and "conflict_lookup_value pi1 c = Some val"
    and "i386_prelink_conflict_rela d pi r ra = Some (0, d', pi2)"
  shows "\<exists>e. d' = d \<and> conflict_rela pi2 = Some (case_option [] id (conflict_rela pi) @ [e])
     \<and> ra_offset e = ra_offset r
     \<and> buf_result (i386_apply_conflict_rela pi2 d e buf dest)
       = buf_result (i386_apply_rela (pi\<lparr>resolve := \<lambda>_ _. (val, None)\<rparr>) d r buf)"
  using assms by (rule i386_conflicts.replay)

section \<open>Evaluations\<close>

definition sample32_dso :: dso where
  "sample32_dso = sample_dso\<lparr>ehdr := sample_ehdr\<lparr>ei_class := ELFCLASS32, e_machine := EM_386\<rparr>\<rparr>"

lemma sample32_ok: "wf_dso sample32_dso" "undo_ready sample32_dso"
  by (simp_all add: wf_dso_def sample_upt sample32_dso_def sample_defs sec_disj_def sec_live_def RELOCATE_SCN_def
      elf_consts wf_block_def undo_ready_def)

lemmas i386_exec = arch_exec sample32_dso_def sample_rel_def r_386 Let_def

theorem i386_undo_after_prelink_witness:
  "\<exists>d1 e e1. i386_prelink_rel sample_info sample32_dso (sample_rel 7 0x100c) 0 = Some (0, sample_rel 7 0x100c, d1)
     \<and> i386_undo_prelink_rel sample32_dso (sample_rel 7 0x100c) 0 = Some (0, sample_rel 7 0x100c, e)
     \<and> i386_undo_prelink_rel d1 (sample_rel 7 0x100c) 0 = Some (0, sample_rel 7 0x100c, e1) \<and> same_img e e1"
proof -
  let ?r = "sample_rel 7 0x100c"
  obtain d1 where p: "i386_prelink_rel sample_info sample32_dso ?r 0 = Some (0, ?r, d1)"
    by (simp add: i386_prelink_rel_def i386_exec)
  obtain e where u: "i386_undo_prelink_rel sample32_dso ?r 0 = Some (0, ?r, e)"
    by (simp add: i386_undo_prelink_rel_def i386_undo_jmp_slot_def i386_exec)
  have t: "GELF_R_TYPE (r_info ?r) \<noteq> R_386_32" by (simp add: i386_exec)
  from i386_undo_after_prelink [OF sample32_ok t p u] p u show ?thesis by auto
qed

theorem i386_undo_restores_32_witness:
  "\<exists>r' d1 e. i386_prelink_rel sample_info sample32_dso (sample_rel 1 0x1018) 0 = Some (2, r', d1)
     \<and> i386_undo_prelink_rel d1 r' 0 = Some (2, sample_rel 1 0x1018, e) \<and> same_img sample32_dso e"
proof -
  let ?r = "sample_rel 1 0x1018"
  obtain r' d1 where p: "i386_prelink_rel sample_info sample32_dso ?r 0 = Some (2, r', d1)"
    by (simp add: i386_prelink_rel_def i386_exec)
  have t: "GELF_R_TYPE (r_info ?r) = R_386_32" by (simp add: i386_exec)
  have s: "sec_of sample32_dso (r_offset ?r) = Some 2"
    by (simp add: sec_of_def sec_holds_def RELOCATE_SCN_def elf_consts sample32_dso_def sample_rel_def sample_defs)
  have n: "sec_name_is sample32_dso 2 ''.got'' = Some False" by (simp add: i386_exec)
  from i386_undo_restores_32 [OF sample32_ok t p s n, of 0] p show ?thesis by blast
qed

theorem i386_rela_and_back_witness:
  "\<exists>rela d0 d1 e. i386_rel_to_rela sample32_dso (sample_rel 2 0x1018) zero_rela = Some (0, rela, d0)
     \<and> i386_prelink_rela sample_info d0 rela 0 = Some (0, rela, d1)
     \<and> i386_rela_to_rel d1 rela (sample_rel 0 0) = Some (0, sample_rel 2 0x1018, e) \<and> same_img sample32_dso e"
proof -
  let ?r = "sample_rel 2 0x1018"
  have t: "i386_addend_type (GELF_R_TYPE (r_info ?r))" by (simp add: i386_addend_type_def i386_exec)
  obtain rela d0 where c: "i386_rel_to_rela sample32_dso ?r zero_rela = Some (0, rela, d0)"
    and x: "\<exists>d1. i386_prelink_rela sample_info d0 rela 0 = Some (0, rela, d1)"
    by (simp add: i386_rel_to_rela_def i386_prelink_rela_def i386_addend_type_def zero_rela_def i386_exec)
  from x obtain d1 where p: "i386_prelink_rela sample_info d0 rela 0 = Some (0, rela, d1)" ..
  from i386_rela_and_back [OF sample32_ok(1) t c p, of "sample_rel 0 0"] c p show ?thesis by blast
qed

theorem i386_conflict_replay_witness:
  "\<exists>pi2 e. i386_prelink_conflict_rela sample32_dso (sample_info\<lparr>info_dso := 0x20\<rparr>)
       (sample_rela 0x300000006 0x1018) 0 = Some (0, sample32_dso, pi2)
     \<and> conflict_rela pi2 = Some [e]
     \<and> buf_result (i386_apply_conflict_rela pi2 sample32_dso e (replicate 4 0) 0)
       = buf_result (i386_apply_rela (sample_info\<lparr>info_dso := 0x20, resolve := \<lambda>_ _. (0x30010, None)\<rparr>)
           sample32_dso (sample_rela 0x300000006 0x1018) (replicate 4 0))"
proof -
  let ?r = "sample_rela 0x300000006 0x1018" and ?pi = "sample_info\<lparr>info_dso := 0x20\<rparr>"
  note ex = prelink_conflict_def conflict_symoff_def i386_reloc_class_def sample_conflict_def
    rtype_consts i386_exec
  obtain pi2 where p: "i386_prelink_conflict_rela sample32_dso ?pi ?r 0 = Some (0, sample32_dso, pi2)"
    by (simp add: i386_prelink_conflict_rela_def conflict_value_def conflict_lookup_value_def
        record_conflict_def prelink_conflict_add_rela_def i386_conflict_entry_rela_def ex)
  obtain pi1 where c: "prelink_conflict i386_reloc_class ?pi (ucast (GELF_R_SYM (ra_info ?r)))
      (GELF_R_TYPE (ra_info ?r)) = Some (Some (sample_conflict\<lparr>used := True\<rparr>), pi1)"
      "conflict_lookup_value pi1 (sample_conflict\<lparr>used := True\<rparr>) = Some 0x30010"
    by (simp add: conflict_lookup_value_def ex)
  have t: "i386_applied (GELF_R_TYPE (ra_info ?r))" by (simp add: i386_applied_def i386_exec)
  have w: "wf_conflict_rela ?pi" and "\<not> ifunc (sample_conflict\<lparr>used := True\<rparr>)" "info_dso ?pi \<noteq> dso_ptr sample32_dso"
    by (simp_all add: wf_conflict_rela_def sample_info_def sample_conflict_def sample32_dso_def sample_dso_def)
  from i386_conflict_replay [OF t w c(1) this(2,3) c(2) p, where dest = 0 and buf = "replicate 4 0"]
  show ?thesis using p by (auto simp: sample_info_def)
qed

section \<open>The target as a whole\<close>

lemma i386_prelink_rela_rc: "i386_prelink_rela pi d r a = Some (rc, r', d') \<Longrightarrow> rc \<noteq> 2"
  by (auto simp: i386_prelink_rela_def Let_def bind_eq_Some split: if_splits prod.splits option.splits)

interpretation i386_prelink: rela_target 4 "i386_prelink_rela pi" for pi
  by unfold_locales (rule i386_prelink_rela_keeps, assumption, rule i386_prelink_rela_rc)

end
