(* ===== verification/Dynamic.thy ===== *)
theory Dynamic
  imports Passes Sample
begin

text \<open>
  The dynamic section and the symbol tables of an object, from \<^verbatim>\<open>src/dso.c\<close>: \<^verbatim>\<open>read_dynamic\<close>,
  \<^verbatim>\<open>set_dynamic\<close>, \<^verbatim>\<open>adjust_dynamic\<close>, \<^verbatim>\<open>adjust_symbol_p\<close>, \<^verbatim>\<open>adjust_symtab\<close>.

  \<^verbatim>\<open>DT_NUM\<close>, the number of small tags, depends on the version of the system's \<^verbatim>\<open>elf.h\<close>; it is the argument
  \<open>dt_num\<close>. A failed assertion and a read of an entry that is not there are \<^term>\<open>None\<close>.

  The lemmas: \<^verbatim>\<open>set_dynamic\<close> implements the update of a list of tagged values which ends at the first
  \<^verbatim>\<open>DT_NULL\<close>; what it stores is what \<^verbatim>\<open>read_dynamic\<close> reports afterwards.
\<close>

section \<open>Tags\<close>

definition DT_NULL :: u64 where "DT_NULL = 0"
definition DT_CHECKSUM :: u64 where "DT_CHECKSUM = 0x6ffffdf8"
definition DT_GNU_PRELINKED :: u64 where "DT_GNU_PRELINKED = 0x6ffffdf5"
definition DT_VERDEF :: u64 where "DT_VERDEF = 0x6ffffffc"
definition DT_VERNEED :: u64 where "DT_VERNEED = 0x6ffffffe"
definition DT_VERSYM :: u64 where "DT_VERSYM = 0x6ffffff0"
definition DT_FILTER :: u64 where "DT_FILTER = 0x7fffffff"
definition DT_AUXILIARY :: u64 where "DT_AUXILIARY = 0x7ffffffd"
definition DT_LOPROC :: u64 where "DT_LOPROC = 0x70000000"
definition DT_GNU_HASH :: u64 where "DT_GNU_HASH = 0x6ffffef5"
definition DT_TLSDESC_PLT :: u64 where "DT_TLSDESC_PLT = 0x6ffffef6"
definition DT_ADDRRNGLO :: int where "DT_ADDRRNGLO = 0x6ffffe00"
definition DT_ADDRRNGHI :: int where "DT_ADDRRNGHI = 0x6ffffeff"
definition DT_MIPS_LOCAL_GOTNO :: u64 where "DT_MIPS_LOCAL_GOTNO = 0x7000000a"
definition DT_MIPS_SYMTABNO :: u64 where "DT_MIPS_SYMTABNO = 0x70000011"
definition DT_MIPS_GOTSYM :: u64 where "DT_MIPS_GOTSYM = 0x70000013"
definition DT_MIPS_PLTGOT :: u64 where "DT_MIPS_PLTGOT = 0x70000032"

definition EM_MIPS :: u16 where "EM_MIPS = 8"
definition EM_ARM :: u16 where "EM_ARM = 40"

lemmas dt_defs =
  DT_NULL_def DT_CHECKSUM_def DT_GNU_PRELINKED_def DT_VERDEF_def DT_VERNEED_def DT_VERSYM_def DT_FILTER_def
  DT_AUXILIARY_def DT_LOPROC_def DT_GNU_HASH_def DT_TLSDESC_PLT_def DT_ADDRRNGLO_def DT_ADDRRNGHI_def
  DT_MIPS_LOCAL_GOTNO_def DT_MIPS_SYMTABNO_def DT_MIPS_GOTSYM_def DT_MIPS_PLTGOT_def EM_MIPS_def EM_ARM_def

section \<open>Access to the entries\<close>

definition dso_getdyn :: "dso \<Rightarrow> nat \<Rightarrow> nat \<Rightarrow> nat \<Rightarrow> elf_dyn option" where
  "dso_getdyn d n k ndx = do {
     b \<leftarrow> block_at d n k;
     r \<leftarrow> gelfx_getdyn (ei_class (ehdr d)) (host_lsb d) b ndx;
     r
   }"

definition dso_update_dyn :: "dso \<Rightarrow> nat \<Rightarrow> nat \<Rightarrow> nat \<Rightarrow> elf_dyn \<Rightarrow> dso option" where
  "dso_update_dyn d n k ndx dyn = do {
     b \<leftarrow> block_at d n k;
     (_, b) \<leftarrow> gelfx_update_dyn (ei_class (ehdr d)) (host_lsb d) b ndx dyn;
     Some (set_block d n k b)
   }"

definition dso_getsym :: "dso \<Rightarrow> nat \<Rightarrow> nat \<Rightarrow> nat \<Rightarrow> elf_sym option" where
  "dso_getsym d n k ndx = do {
     b \<leftarrow> block_at d n k;
     r \<leftarrow> gelfx_getsym (ei_class (ehdr d)) (host_lsb d) b ndx;
     r
   }"

definition dso_update_sym :: "dso \<Rightarrow> nat \<Rightarrow> nat \<Rightarrow> nat \<Rightarrow> elf_sym \<Rightarrow> dso option" where
  "dso_update_sym d n k ndx sy = do {
     b \<leftarrow> block_at d n k;
     (_, b) \<leftarrow> gelfx_update_sym (ei_class (ehdr d)) (host_lsb d) b ndx sy;
     Some (set_block d n k b)
   }"

section \<open>Reading the dynamic section\<close>

definition set_bit_of :: "nat \<Rightarrow> dso \<Rightarrow> dso" where
  "set_bit_of b d = d\<lparr>info_set_mask := info_set_mask d OR push_bit b 1\<rparr>"

text \<open>One entry other than \<^verbatim>\<open>DT_NULL\<close>; the tags of MIPS have their own fields.\<close>

definition read_mips_entry :: "elf_dyn \<Rightarrow> dso \<Rightarrow> dso" where
  "read_mips_entry dyn d = (let t = d_tag dyn; v = d_ptr dyn in
     if e_machine (ehdr d) = EM_MIPS then
       (if t = DT_MIPS_LOCAL_GOTNO then d\<lparr>info_DT_MIPS_LOCAL_GOTNO := v\<rparr>
        else if t = DT_MIPS_GOTSYM then d\<lparr>info_DT_MIPS_GOTSYM := v\<rparr>
        else if t = DT_MIPS_SYMTABNO then d\<lparr>info_DT_MIPS_SYMTABNO := v\<rparr>
        else if t = DT_MIPS_PLTGOT then d\<lparr>info_DT_MIPS_PLTGOT := v\<rparr>
        else d)
     else d)"

definition read_dyn_entry :: "nat \<Rightarrow> elf_dyn \<Rightarrow> dso \<Rightarrow> dso" where
  "read_dyn_entry dt_num dyn d = (let t = d_tag dyn; v = d_ptr dyn in
     read_mips_entry dyn
       (if t < of_nat dt_num then
          (let d = d\<lparr>info := (info d)(unat t := v)\<rparr> in if t < 50 then set_bit_of (unat t) d else d)
        else if t = DT_CHECKSUM then set_bit_of 51 (d\<lparr>info_DT_CHECKSUM := v\<rparr>)
        else if t = DT_GNU_PRELINKED then set_bit_of 50 (d\<lparr>info_DT_GNU_PRELINKED := v\<rparr>)
        else if t = DT_VERDEF then set_bit_of 53 (d\<lparr>info_DT_VERDEF := v\<rparr>)
        else if t = DT_VERNEED then set_bit_of 52 (d\<lparr>info_DT_VERNEED := v\<rparr>)
        else if t = DT_VERSYM then set_bit_of 54 (d\<lparr>info_DT_VERSYM := v\<rparr>)
        else if t = DT_FILTER then set_bit_of 55 d
        else if t = DT_AUXILIARY then set_bit_of 56 d
        else if t = DT_LOPROC then set_bit_of 57 d
        else if t = DT_GNU_HASH then set_bit_of 58 (d\<lparr>info_DT_GNU_HASH := v\<rparr>)
        else if t = DT_TLSDESC_PLT then set_bit_of 59 (d\<lparr>info_DT_TLSDESC_PLT := v\<rparr>)
        else d))"

text \<open>The entries of a block; whether the loop was left at a \<^verbatim>\<open>DT_NULL\<close>.\<close>

fun read_dyn_entries :: "nat \<Rightarrow> nat \<Rightarrow> nat \<Rightarrow> nat \<Rightarrow> nat \<Rightarrow> dso \<Rightarrow> (bool \<times> dso) option" where
  "read_dyn_entries dt_num i k ndx 0 d = Some (False, d)"
| "read_dyn_entries dt_num i k ndx (Suc n) d = do {
     dyn \<leftarrow> dso_getdyn d i k ndx;
     if d_tag dyn = DT_NULL then Some (True, d)
     else read_dyn_entries dt_num i k (Suc ndx) n (read_dyn_entry dt_num dyn d)
   }"

fun read_dyn_blocks :: "nat \<Rightarrow> nat \<Rightarrow> elf_shdr \<Rightarrow> nat \<Rightarrow> nat \<Rightarrow> dso \<Rightarrow> dso option" where
  "read_dyn_blocks dt_num i sh k 0 d = Some d"
| "read_dyn_blocks dt_num i sh k (Suc n) d = do {
     b \<leftarrow> block_at d i k;
     m \<leftarrow> max_ndx b sh;
     (stop, d) \<leftarrow> read_dyn_entries dt_num i k 0 m d;
     if stop then Some d else read_dyn_blocks dt_num i sh (Suc k) n d
   }"

fun read_dyn_sections :: "nat \<Rightarrow> nat \<Rightarrow> nat \<Rightarrow> dso \<Rightarrow> dso option" where
  "read_dyn_sections dt_num i 0 d = Some d"
| "read_dyn_sections dt_num i (Suc n) d = do {
     sh \<leftarrow> nth_opt (shdr d) i;
     d \<leftarrow> (if sh_type sh = SHT_DYNAMIC then do {
             sc \<leftarrow> nth_opt (scn d) i;
             read_dyn_blocks dt_num i sh 0 (length (scn_data sc)) (d\<lparr>dynamic := i\<rparr>)
           } else Some d);
     read_dyn_sections dt_num (Suc i) n d
   }"

definition read_dynamic :: "nat \<Rightarrow> dso \<Rightarrow> dso option" where
  "read_dynamic dt_num d = read_dyn_sections dt_num 0 (unat (e_shnum (ehdr d)))
     (d\<lparr>info := (\<lambda>_. 0), info_set_mask := 0\<rparr>)"

section \<open>Setting an entry\<close>

definition tag_mask :: "nat \<Rightarrow> u32 \<Rightarrow> u64 \<Rightarrow> u64" where
  "tag_mask dt_num tag msk = (let t = ucast tag in
     if t = DT_CHECKSUM then msk OR push_bit 51 1
     else if t = DT_GNU_PRELINKED then msk OR push_bit 50 1
     else if t = DT_VERDEF then msk OR push_bit 53 1
     else if t = DT_VERNEED then msk OR push_bit 52 1
     else if t = DT_VERSYM then msk OR push_bit 54 1
     else if unat tag < dt_num \<and> tag < 50 then msk OR push_bit (unat tag) 1
     else msk)"

text \<open>The search: the first entry which is \<^verbatim>\<open>DT_NULL\<close> or has the tag. Running past the last entry fails the
  assertion behind the loop.\<close>

fun find_dyn :: "(nat \<Rightarrow> elf_dyn option) \<Rightarrow> u64 \<Rightarrow> nat \<Rightarrow> nat \<Rightarrow> (nat \<times> elf_dyn) option" where
  "find_dyn g tag ndx 0 = None"
| "find_dyn g tag ndx (Suc n) = do {
     dyn \<leftarrow> g ndx;
     if d_tag dyn = DT_NULL \<or> d_tag dyn = tag then Some (ndx, dyn) else find_dyn g tag (Suc ndx) n
   }"

text \<open>The argument \<^verbatim>\<open>fatal\<close> only decides whether a message is printed.\<close>

definition set_dynamic :: "nat \<Rightarrow> dso \<Rightarrow> u32 \<Rightarrow> u64 \<Rightarrow> (int \<times> dso) option" where
  "set_dynamic dt_num d tag v = (let n = dynamic d in do {
     sh \<leftarrow> nth_opt (shdr d) n;
     _ \<leftarrow> guard_opt (sh_type sh = SHT_DYNAMIC);
     sc \<leftarrow> nth_opt (scn d) n;
     _ \<leftarrow> guard_opt (length (scn_data sc) = 1);
     b \<leftarrow> block_at d n 0;
     m \<leftarrow> max_ndx b sh;
     (ndx, dyn) \<leftarrow> find_dyn (dso_getdyn d n 0) (ucast tag) 0 m;
     if d_tag dyn \<noteq> DT_NULL then
       (if d_ptr dyn \<noteq> v then do {
          d \<leftarrow> dso_update_dyn d n 0 ndx (dyn\<lparr>d_ptr := v\<rparr>);
          Some (0, elf_flagscn_dirty d n)
        } else Some (0, d))
     else if ndx + 1 < m then do {
       d1 \<leftarrow> dso_update_dyn d n 0 (ndx + 1) dyn;
       d2 \<leftarrow> dso_update_dyn d1 n 0 ndx (dyn\<lparr>d_tag := ucast tag, d_ptr := v\<rparr>);
       Some (0, elf_flagscn_dirty (d2\<lparr>info_set_mask := tag_mask dt_num tag (info_set_mask d)\<rparr>) n)
     }
     else Some (1, d)
   })"

section \<open>Adjusting\<close>

definition adjusted_tag :: "u64 \<Rightarrow> bool" where
  "adjusted_tag t \<longleftrightarrow> DT_ADDRRNGLO \<le> sint t \<and> sint t \<le> DT_ADDRRNGHI
     \<or> t \<in> {12, 13, 4, 5, 6, 23, 25, 26, 32, DT_VERDEF, DT_VERNEED, DT_VERSYM, 3}"

definition adjust_dynamic_entry :: "elf_dyn \<Rightarrow> u64 \<Rightarrow> u64 \<Rightarrow> elf_dyn option" where
  "adjust_dynamic_entry dyn start adj =
     (if d_tag dyn = 17 \<or> d_tag dyn = 7 then
        (if d_ptr dyn \<noteq> 0 \<and> d_ptr dyn \<ge> start then Some (dyn\<lparr>d_ptr := d_ptr dyn + adj\<rparr>) else None)
      else if adjusted_tag (d_tag dyn) then
        (if d_ptr dyn \<ge> start then Some (dyn\<lparr>d_ptr := d_ptr dyn + adj\<rparr>) else None)
      else None)"

definition adjust_dynamic :: "nat \<Rightarrow> pl_arch \<Rightarrow> dso \<Rightarrow> nat \<Rightarrow> u64 \<Rightarrow> u64 \<Rightarrow> (int \<times> dso) option" where
  "adjust_dynamic dt_num A d n start adj = do {
     (_, d) \<leftarrow> each_entry id n (\<lambda>k ndx _ d. do {
       dyn \<leftarrow> dso_getdyn d n k ndx;
       (rc, dyn, d) \<leftarrow> adjust_dyn A d n dyn start adj;
       d \<leftarrow> (if rc = 0 then (case adjust_dynamic_entry dyn start adj of
                Some dyn \<Rightarrow> dso_update_dyn d n k ndx dyn | None \<Rightarrow> Some d)
             else dso_update_dyn d n k ndx dyn);
       Some (0, d)
     }) d;
     d \<leftarrow> read_dynamic dt_num (elf_flagscn_dirty d n);
     Some (0, d)
   }"

text \<open>\<^verbatim>\<open>adjust_symbol_p\<close>; \<open>SHN_ABS\<close> is \<open>0xfff1\<close>, \<open>STT_FUNC\<close> 2, \<open>STT_TLS\<close> 6, \<open>STT_ARM_TFUNC\<close> 13.\<close>

definition adjust_symbol_p :: "dso \<Rightarrow> elf_sym \<Rightarrow> bool option" where
  "adjust_symbol_p d sy = (let ty = st_info sy AND 0xf in
     if st_shndx sy = 0xfff1 \<and> st_value sy \<noteq> 0 \<and> (ty \<le> 2 \<or> e_machine (ehdr d) = EM_ARM \<and> ty = 13)
     then Some True
     else if e_machine (ehdr d) = EM_MIPS \<and> st_shndx sy = 0 \<and> st_value sy \<noteq> 0 then Some True
     else if st_shndx sy > 0 \<and> st_shndx sy < e_shnum (ehdr d) \<and> ty \<noteq> 6 then do {
       sh \<leftarrow> nth_opt (shdr d) (unat (st_shndx sy));
       Some (RELOCATE_SCN (sh_flags sh))
     }
     else Some False)"

definition adjust_symtab :: "dso \<Rightarrow> nat \<Rightarrow> u64 \<Rightarrow> u64 \<Rightarrow> (int \<times> dso) option" where
  "adjust_symtab d n start adj = do {
     (_, d) \<leftarrow> each_entry id n (\<lambda>k ndx _ d. do {
       sy \<leftarrow> dso_getsym d n k ndx;
       p \<leftarrow> adjust_symbol_p d sy;
       d \<leftarrow> (if p \<and> st_value sy \<ge> start
             then dso_update_sym d n k ndx (sy\<lparr>st_value := st_value sy + adj\<rparr>) else Some d);
       Some (0, d)
     }) d;
     Some (0, elf_flagscn_dirty d n)
   }"



section \<open>The dynamic section as a list of tagged values\<close>

fun dyn_put :: "u64 \<Rightarrow> u64 \<Rightarrow> elf_dyn list \<Rightarrow> elf_dyn list" where
  "dyn_put t v [] = [\<lparr>d_tag = t, d_ptr = v\<rparr>]"
| "dyn_put t v (e # es) = (if d_tag e = t then e\<lparr>d_ptr := v\<rparr> # es else e # dyn_put t v es)"

definition dyn_block :: "dso \<Rightarrow> elf_data" where
  "dyn_block d = hd (scn_data (scn d ! dynamic d))"

definition dyn_entsize :: "dso \<Rightarrow> nat" where
  "dyn_entsize d = (if ei_class (ehdr d) = ELFCLASS32 then 8 else 16)"

definition dyn_max :: "dso \<Rightarrow> nat" where
  "dyn_max d = unat (d_size (dyn_block d)) div dyn_entsize d"

definition dyn_slots :: "dso \<Rightarrow> elf_dyn list" where
  "dyn_slots d = map (\<lambda>i. the (dso_getdyn d (dynamic d) 0 i)) [0..<dyn_max d]"

definition dyn_table :: "dso \<Rightarrow> elf_dyn list" where
  "dyn_table d = takeWhile (\<lambda>e. d_tag e \<noteq> DT_NULL) (dyn_slots d)"

definition dyn_ok :: "dso \<Rightarrow> bool" where
  "dyn_ok d \<longleftrightarrow> dynamic d < length (shdr d) \<and> dynamic d < length (scn d)
     \<and> sh_type (shdr d ! dynamic d) = SHT_DYNAMIC
     \<and> (ei_class (ehdr d) = ELFCLASS32 \<or> ei_class (ehdr d) = ELFCLASS64)
     \<and> sh_entsize (shdr d ! dynamic d) = of_nat (dyn_entsize d)
     \<and> length (scn_data (scn d ! dynamic d)) = 1
     \<and> wf_block (dyn_block d) \<and> d_type (dyn_block d) = ELF_T_DYN \<and> d_buf (dyn_block d) \<noteq> None
     \<and> d_size (dyn_block d) < 0x80000000"

text \<open>Nothing but the contents and the dirty flag of the dynamic section and the mask of the known tags.\<close>

definition dyn_frame :: "dso \<Rightarrow> dso \<Rightarrow> bool" where
  "dyn_frame d d' \<longleftrightarrow> d'\<lparr>scn := [], info_set_mask := 0\<rparr> = d\<lparr>scn := [], info_set_mask := 0\<rparr>
     \<and> length (scn d') = length (scn d) \<and> (\<forall>i. i \<noteq> dynamic d \<longrightarrow> scn d' ! i = scn d ! i)"

lemma dyn_frame_refl [simp]: "dyn_frame d d"
  by (simp add: dyn_frame_def)

lemma dyn_frame_fields:
  assumes "dyn_frame d d'"
  shows "ehdr d' = ehdr d" "shdr d' = shdr d" "dynamic d' = dynamic d" "host_lsb d' = host_lsb d"
    "length (scn d') = length (scn d)" "filename d' = filename d"
proof -
  have "dso.ehdr (d'\<lparr>scn := [], info_set_mask := 0\<rparr>) = dso.ehdr (d\<lparr>scn := [], info_set_mask := 0\<rparr>)"
    "dso.shdr (d'\<lparr>scn := [], info_set_mask := 0\<rparr>) = dso.shdr (d\<lparr>scn := [], info_set_mask := 0\<rparr>)"
    "dso.dynamic (d'\<lparr>scn := [], info_set_mask := 0\<rparr>) = dso.dynamic (d\<lparr>scn := [], info_set_mask := 0\<rparr>)"
    "dso.host_lsb (d'\<lparr>scn := [], info_set_mask := 0\<rparr>) = dso.host_lsb (d\<lparr>scn := [], info_set_mask := 0\<rparr>)"
    "dso.filename (d'\<lparr>scn := [], info_set_mask := 0\<rparr>) = dso.filename (d\<lparr>scn := [], info_set_mask := 0\<rparr>)"
    using assms by (simp_all only: dyn_frame_def)
  then show "ehdr d' = ehdr d" "shdr d' = shdr d" "dynamic d' = dynamic d" "host_lsb d' = host_lsb d"
    "filename d' = filename d" by simp_all
  show "length (scn d') = length (scn d)" using assms by (simp add: dyn_frame_def)
qed

lemma dyn_frame_trans: "dyn_frame a b \<Longrightarrow> dyn_frame b c \<Longrightarrow> dyn_frame a c"
  using dyn_frame_fields(3) [of a b] by (simp add: dyn_frame_def)

lemma block_at_dyn: "dyn_ok d \<Longrightarrow> block_at d (dynamic d) 0 = Some (dyn_block d)"
  by (cases "scn_data (scn d ! dynamic d)") (auto simp: dyn_ok_def block_at_def nth_opt_def dyn_block_def)

lemma dyn_ok_max_ndx:
  assumes "dyn_ok d"
  shows "max_ndx (dyn_block d) (shdr d ! dynamic d) = Some (dyn_max d)"
proof -
  let ?b = "dyn_block d"
  have e: "unat (sh_entsize (shdr d ! dynamic d)) = dyn_entsize d" "dyn_entsize d > 0"
    using assms by (auto simp: dyn_ok_def dyn_entsize_def)
  have s: "unat (d_size ?b) < 2 ^ 31" using assms by (simp add: dyn_ok_def word_less_nat_alt)
  have q: "unat (d_size ?b div sh_entsize (shdr d ! dynamic d)) = dyn_max d"
    using e by (simp add: unat_div_distrib dyn_max_def)
  have m: "dyn_max d < 2 ^ 31" unfolding dyn_max_def by (rule le_less_trans [OF div_le_dividend s])
  have "(ucast (d_size ?b div sh_entsize (shdr d ! dynamic d)) :: u32) = of_nat (dyn_max d)"
    using q by (metis of_nat_unat)
  moreover have "sint (of_nat (dyn_max d) :: u32) = int (dyn_max d)"
    using m by (simp add: signed_of_nat signed_take_bit_int_eq_self)
  moreover have "sh_entsize (shdr d ! dynamic d) \<noteq> 0" using e by auto
  ultimately show ?thesis by (simp add: max_ndx_def)
qed

lemma slot_fits: "i < dyn_max d \<Longrightarrow> dyn_ok d \<Longrightarrow> (i + 1) * dyn_entsize d \<le> unat (d_size (dyn_block d))"
proof -
  assume "i < dyn_max d" "dyn_ok d"
  then have "(i + 1) * dyn_entsize d \<le> dyn_max d * dyn_entsize d" by (intro mult_le_mono1) simp
  also have "\<dots> \<le> unat (d_size (dyn_block d))" by (simp add: dyn_max_def)
  finally show ?thesis .
qed

lemma getdyn_defined:
  assumes "wf_block b" and "d_type b = ELF_T_DYN" and "d_buf b \<noteq> None"
    and "c = ELFCLASS32 \<and> (i + 1) * 8 \<le> unat (d_size b) \<or> c = ELFCLASS64 \<and> (i + 1) * 16 \<le> unat (d_size b)"
  shows "\<exists>e. gelfx_getdyn c l b i = Some (Some e)"
proof -
  obtain y where y: "d_buf b = Some y" "length y = unat (d_size b)" using assms(1,3) by (auto simp: wf_block_def)
  from assms(4) show ?thesis
  proof (elim disjE conjE)
    assume "c = ELFCLASS32" and "(i + 1) * 8 \<le> unat (d_size b)"
    moreover from this obtain t v where "peek (host_ld32 l) (i * 8) y = Some t" "peek (host_ld32 l) (i * 8 + 4) y = Some v"
      using y buf_codec.peek_defined [OF host_codec32, of "i * 8" y] buf_codec.peek_defined [OF host_codec32, of "i * 8 + 4" y]
      by fastforce
    ultimately show ?thesis using y assms(2) by (simp add: gelfx_getdyn_def)
  next
    assume "c = ELFCLASS64" and "(i + 1) * 16 \<le> unat (d_size b)"
    moreover from this obtain t v where "peek (host_ld64 l) (i * 16) y = Some t" "peek (host_ld64 l) (i * 16 + 8) y = Some v"
      using y buf_codec.peek_defined [OF host_codec64, of "i * 16" y] buf_codec.peek_defined [OF host_codec64, of "i * 16 + 8" y]
      by fastforce
    ultimately show ?thesis using y assms(2) by (simp add: gelfx_getdyn_def elf_consts)
  qed
qed

lemma getdyn_slot:
  assumes "dyn_ok d" and "i < dyn_max d"
  shows "dso_getdyn d (dynamic d) 0 i = Some (dyn_slots d ! i)"
proof -
  have "\<exists>e. gelfx_getdyn (ei_class (ehdr d)) (host_lsb d) (dyn_block d) i = Some (Some e)"
    using assms slot_fits [OF assms(2,1)]
    by (intro getdyn_defined) (auto simp: dyn_ok_def dyn_entsize_def elf_consts)
  then have "\<exists>e. dso_getdyn d (dynamic d) 0 i = Some e"
    by (auto simp: dso_getdyn_def block_at_dyn [OF assms(1)])
  then show ?thesis using assms(2) by (auto simp: dyn_slots_def)
qed

lemma set_block_dyn:
  assumes "dyn_ok d" and "block_shape b = block_shape (dyn_block d)"
  shows "dyn_block (set_block d (dynamic d) 0 b) = b" "dyn_frame d (set_block d (dynamic d) 0 b)"
    "dyn_ok (set_block d (dynamic d) 0 b)" "dyn_max (set_block d (dynamic d) 0 b) = dyn_max d"
proof -
  have l: "length (scn_data (scn d ! dynamic d)) = 1" "dynamic d < length (scn d)" using assms(1) by (simp_all add: dyn_ok_def)
  show b: "dyn_block (set_block d (dynamic d) 0 b) = b"
    using l by (cases "scn_data (scn d ! dynamic d)") (simp_all add: dyn_block_def set_block_def)
  show "dyn_frame d (set_block d (dynamic d) 0 b)" by (simp add: dyn_frame_def set_block_def)
  have sh: "d_type b = d_type (dyn_block d)" "d_size b = d_size (dyn_block d)" "(d_buf b = None) = (d_buf (dyn_block d) = None)"
    using assms(2) by (auto simp: block_shape_def)
  then show "dyn_max (set_block d (dynamic d) 0 b) = dyn_max d"
    by (simp add: dyn_max_def b) (simp add: set_block_def dyn_entsize_def)
  show "dyn_ok (set_block d (dynamic d) 0 b)"
    using assms(1) l sh wf_block_shape [of b] wf_block_shape [of "dyn_block d"] assms(2)
    by (simp add: dyn_ok_def b) (simp add: set_block_def dyn_entsize_def)
qed

lemma update_dyn_slot:
  assumes "dyn_ok d" and "i < dyn_max d"
  shows "\<exists>d'. dso_update_dyn d (dynamic d) 0 i r = Some d' \<and> dyn_ok d' \<and> dyn_frame d d'
     \<and> info_set_mask d' = info_set_mask d
     \<and> dyn_slots d' = (dyn_slots d)[i := narrow_dyn (ei_class (ehdr d)) r]"
proof -
  let ?c = "ei_class (ehdr d)" and ?l = "host_lsb d" and ?b = "dyn_block d"
  have wf: "wf_block ?b" using assms(1) by (simp add: dyn_ok_def)
  obtain e where "gelfx_getdyn ?c ?l ?b i = Some (Some e)"
    using getdyn_slot [OF assms] by (auto simp: dso_getdyn_def block_at_dyn [OF assms(1)] bind_eq_Some)
  then obtain b' where u: "gelfx_update_dyn ?c ?l ?b i r = Some (1, b')"
    using dyn_entry.get_upd [OF wf] by blast
  have sh: "block_shape b' = block_shape ?b" using dyn_entry.upd_shape [OF wf u] by simp
  let ?d = "set_block d (dynamic d) 0 b'"
  note s = set_block_dyn [OF assms(1) sh]
  have "dso_update_dyn d (dynamic d) 0 i r = Some ?d"
    by (simp add: dso_update_dyn_def block_at_dyn [OF assms(1)] u)
  moreover have "dyn_slots ?d = (dyn_slots d)[i := narrow_dyn ?c r]"
  proof (rule nth_equalityI)
    show "length (dyn_slots ?d) = length ((dyn_slots d)[i := narrow_dyn ?c r])" by (simp add: dyn_slots_def s(4))
    fix j assume "j < length (dyn_slots ?d)"
    then have j: "j < dyn_max d" by (simp add: dyn_slots_def s(4))
    have f: "ehdr ?d = ehdr d" "host_lsb ?d = host_lsb d" "dynamic ?d = dynamic d" by (simp_all add: set_block_def)
    have "dso_getdyn ?d (dynamic d) 0 j = (if j = i then Some (narrow_dyn ?c r) else dso_getdyn d (dynamic d) 0 j)"
      using block_at_dyn [OF s(3)] block_at_dyn [OF assms(1)] dyn_entry.upd_lookup [OF wf u, of j]
      by (simp add: dso_getdyn_def f s(1))
    moreover have "dso_getdyn ?d (dynamic d) 0 j = Some (dyn_slots ?d ! j)"
      using getdyn_slot [OF s(3), of j] j unfolding s(4) f by simp
    moreover have "i < length (dyn_slots d)" using assms(2) by (simp add: dyn_slots_def)
    ultimately show "dyn_slots ?d ! j = (dyn_slots d)[i := narrow_dyn ?c r] ! j"
      using getdyn_slot [OF assms(1) j] by (cases "j = i") simp_all
  qed
  ultimately show ?thesis using s by (auto simp: set_block_def)
qed

lemma flag_dyn:
  assumes "dyn_ok d"
  shows "dyn_ok (elf_flagscn_dirty (d\<lparr>info_set_mask := x\<rparr>) (dynamic d))"
    "dyn_frame d (elf_flagscn_dirty (d\<lparr>info_set_mask := x\<rparr>) (dynamic d))"
    "dyn_slots (elf_flagscn_dirty (d\<lparr>info_set_mask := x\<rparr>) (dynamic d)) = dyn_slots d"
proof -
  let ?d = "elf_flagscn_dirty (d\<lparr>info_set_mask := x\<rparr>) (dynamic d)"
  have n: "dynamic d < length (scn d)" using assms by (simp add: dyn_ok_def)
  have b: "dyn_block ?d = dyn_block d" using n by (simp add: dyn_block_def elf_flagscn_dirty_def)
  show ok: "dyn_ok ?d"
    using assms n unfolding dyn_ok_def b by (simp add: elf_flagscn_dirty_def dyn_entsize_def)
  show "dyn_frame d ?d" by (simp add: dyn_frame_def elf_flagscn_dirty_def)
  have "dyn_max ?d = dyn_max d" by (simp add: dyn_max_def b dyn_entsize_def) (simp add: elf_flagscn_dirty_def)
  moreover have "dso_getdyn ?d (dynamic ?d) 0 i = dso_getdyn d (dynamic d) 0 i" for i
    using block_at_dyn [OF ok] block_at_dyn [OF assms]
    by (simp add: dso_getdyn_def b) (simp add: elf_flagscn_dirty_def)
  ultimately show "dyn_slots ?d = dyn_slots d" by (simp add: dyn_slots_def)
qed

section \<open>The search and the update, on lists\<close>

lemma find_dyn_list:
  "\<forall>j < length xs. g (i + j) = Some (xs ! j) \<Longrightarrow>
   find_dyn g t i (length xs) = (let k = length (takeWhile (\<lambda>e. d_tag e \<noteq> DT_NULL \<and> d_tag e \<noteq> t) xs) in
     if k < length xs then Some (i + k, xs ! k) else None)"
proof (induction xs arbitrary: i)
  case (Cons x xs)
  have "\<forall>j < length xs. g (Suc i + j) = Some (xs ! j)" using Cons.prems by force
  moreover have "g i = Some x" using Cons.prems by force
  ultimately show ?case using Cons.IH [of "Suc i"] by (simp add: Let_def)
qed simp

lemma ucast_tag_0: "(ucast (t :: u32) :: u64) = 0 \<longleftrightarrow> t = 0"
  by transfer (simp add: take_bit_take_bit)

lemma takeWhile_short: "length (takeWhile P xs) < length xs \<longleftrightarrow> (\<exists>x \<in> set xs. \<not> P x)"
  by (induction xs) auto

lemma takeWhile_update_stop:
  assumes "n = length (takeWhile P xs)" and "n + 1 < length xs" and "P x" and "\<not> P y"
  shows "takeWhile P (xs[n + 1 := y, n := x]) = takeWhile P xs @ [x]"
  using assms
proof (induction xs arbitrary: n)
  case (Cons z zs)
  then show ?case by (cases zs) (auto simp: nth_Cons')
qed simp

text \<open>What the search finds in a table that is ended by \<^verbatim>\<open>DT_NULL\<close>, and what the stores make of it.\<close>

lemma dyn_put_found:
  assumes "k = length (takeWhile (\<lambda>e. d_tag e \<noteq> DT_NULL \<and> d_tag e \<noteq> t) xs)" and "k < length xs"
    and "d_tag (xs ! k) \<noteq> DT_NULL"
  shows "takeWhile (\<lambda>e. d_tag e \<noteq> DT_NULL) (xs[k := (xs ! k)\<lparr>d_ptr := v\<rparr>])
      = dyn_put t v (takeWhile (\<lambda>e. d_tag e \<noteq> DT_NULL) xs)
    \<and> d_tag (xs ! k) = t \<and> t \<in> d_tag ` set (takeWhile (\<lambda>e. d_tag e \<noteq> DT_NULL) xs)"
  using assms by (induction xs arbitrary: k) (auto split: if_splits)

lemma dyn_put_absent:
  assumes "k = length (takeWhile (\<lambda>e. d_tag e \<noteq> DT_NULL \<and> d_tag e \<noteq> t) xs)" and "k < length xs"
    and "d_tag (xs ! k) = DT_NULL" and "t \<noteq> DT_NULL"
  shows "k = length (takeWhile (\<lambda>e. d_tag e \<noteq> DT_NULL) xs)
    \<and> dyn_put t v (takeWhile (\<lambda>e. d_tag e \<noteq> DT_NULL) xs)
        = takeWhile (\<lambda>e. d_tag e \<noteq> DT_NULL) xs @ [\<lparr>d_tag = t, d_ptr = v\<rparr>]
    \<and> t \<notin> d_tag ` set (takeWhile (\<lambda>e. d_tag e \<noteq> DT_NULL) xs)"
  using assms by (induction xs arbitrary: k) (auto split: if_splits)


section \<open>What an update does\<close>

lemma set_dynamic_refines_aux:
  assumes ok: "dyn_ok d" and ended: "length (dyn_table d) < dyn_max d" and tag: "tag \<noteq> 0"
    and fits: "narrow_dyn (ei_class (ehdr d)) \<lparr>d_tag = ucast tag, d_ptr = v\<rparr> = \<lparr>d_tag = ucast tag, d_ptr = v\<rparr>"
  shows "if ucast tag \<in> d_tag ` set (dyn_table d) \<or> length (dyn_table d) + 1 < dyn_max d
    then \<exists>d'. set_dynamic dt_num d tag v = Some (0, d') \<and> dyn_ok d' \<and> dyn_frame d d'
           \<and> dyn_table d' = dyn_put (ucast tag) v (dyn_table d)
    else set_dynamic dt_num d tag v = Some (1, d)"
proof -
  let ?n = "dynamic d" and ?xs = "dyn_slots d" and ?t = "ucast tag :: u64"
  define k where "k = length (takeWhile (\<lambda>e. d_tag e \<noteq> DT_NULL \<and> d_tag e \<noteq> ?t) ?xs)"
  have len: "length ?xs = dyn_max d" by (simp add: dyn_slots_def)
  have "\<exists>x \<in> set ?xs. d_tag x = DT_NULL"
    using ended takeWhile_short [of "\<lambda>e. d_tag e \<noteq> DT_NULL" ?xs] by (simp add: len dyn_table_def)
  then have k: "k < length ?xs" unfolding k_def takeWhile_short by auto
  have g: "find_dyn (dso_getdyn d ?n 0) ?t 0 (dyn_max d) = Some (k, ?xs ! k)"
    using find_dyn_list [of ?xs "dso_getdyn d ?n 0" 0 ?t] getdyn_slot [OF ok] k by (simp add: len k_def [symmetric])
  have t0: "?t \<noteq> DT_NULL" using tag by (simp add: DT_NULL_def ucast_tag_0)
  have start: "set_dynamic dt_num d tag v = (if d_tag (?xs ! k) \<noteq> DT_NULL then
       (if d_ptr (?xs ! k) \<noteq> v then do {
          d \<leftarrow> dso_update_dyn d ?n 0 k ((?xs ! k)\<lparr>d_ptr := v\<rparr>);
          Some (0, elf_flagscn_dirty d ?n)
        } else Some (0, d))
     else if k + 1 < dyn_max d then do {
       d1 \<leftarrow> dso_update_dyn d ?n 0 (k + 1) (?xs ! k);
       d2 \<leftarrow> dso_update_dyn d1 ?n 0 k ((?xs ! k)\<lparr>d_tag := ucast tag, d_ptr := v\<rparr>);
       Some (0, elf_flagscn_dirty (d2\<lparr>info_set_mask := tag_mask dt_num tag (info_set_mask d)\<rparr>) ?n)
     }
     else Some (1, d))"
    using ok g by (simp add: set_dynamic_def Let_def dyn_ok_def nth_opt_def block_at_dyn [OF ok] dyn_ok_max_ndx [OF ok])
  show ?thesis
  proof (cases "d_tag (?xs ! k) = DT_NULL")
    case False
    note f = dyn_put_found [OF k_def k False, of v]
    show ?thesis
    proof (cases "d_ptr (?xs ! k) = v")
      case True
      then have "(?xs ! k)\<lparr>d_ptr := v\<rparr> = ?xs ! k" by (cases "?xs ! k") simp
      then have "?xs[k := (?xs ! k)\<lparr>d_ptr := v\<rparr>] = ?xs" by (metis list_update_id)
      then show ?thesis using f start False True ok by (simp add: dyn_table_def)
    next
      case neq: False
      have "narrow_dyn (ei_class (ehdr d)) ((?xs ! k)\<lparr>d_ptr := v\<rparr>) = (?xs ! k)\<lparr>d_ptr := v\<rparr>"
        using fits f by (cases "?xs ! k") simp
      then obtain d1 where d1: "dso_update_dyn d ?n 0 k ((?xs ! k)\<lparr>d_ptr := v\<rparr>) = Some d1" "dyn_ok d1" "dyn_frame d d1"
        "dyn_slots d1 = ?xs[k := (?xs ! k)\<lparr>d_ptr := v\<rparr>]"
        using update_dyn_slot [OF ok, of k "(?xs ! k)\<lparr>d_ptr := v\<rparr>"] k len by auto
      note fl = flag_dyn [OF d1(2), of "info_set_mask d1"]
      show ?thesis
        using start False neq d1 f fl dyn_frame_fields(3) [OF d1(3)] dyn_frame_trans [OF d1(3)]
        by (auto simp: dyn_table_def)
    qed
  next
    case True
    note f = dyn_put_absent [OF k_def k True t0, of v]
    show ?thesis
    proof (cases "k + 1 < dyn_max d")
      case False
      then show ?thesis using start True f by (auto simp: dyn_table_def)
    next
      case room: True
      obtain d1 where d1: "dso_update_dyn d ?n 0 (k + 1) (?xs ! k) = Some d1" "dyn_ok d1" "dyn_frame d d1"
        "dyn_slots d1 = ?xs[k + 1 := narrow_dyn (ei_class (ehdr d)) (?xs ! k)]"
        using update_dyn_slot [OF ok room] by blast
      note fr = dyn_frame_fields [OF d1(3)]
      have m1: "k < dyn_max d1" using d1(4) k len by (metis dyn_slots_def length_list_update length_map length_upt minus_nat.diff_0)
      obtain d2 where d2: "dso_update_dyn d1 ?n 0 k ((?xs ! k)\<lparr>d_tag := ?t, d_ptr := v\<rparr>) = Some d2" "dyn_ok d2" "dyn_frame d1 d2"
        "dyn_slots d2 = (dyn_slots d1)[k := \<lparr>d_tag = ?t, d_ptr = v\<rparr>]"
        using update_dyn_slot [OF d1(2) m1, of "(?xs ! k)\<lparr>d_tag := ?t, d_ptr := v\<rparr>"] fits fr
        by (cases "?xs ! k") auto
      note fl = flag_dyn [OF d2(2), of "tag_mask dt_num tag (info_set_mask d)"]
      have "takeWhile (\<lambda>e. d_tag e \<noteq> DT_NULL) (dyn_slots d2) = takeWhile (\<lambda>e. d_tag e \<noteq> DT_NULL) ?xs @ [\<lparr>d_tag = ?t, d_ptr = v\<rparr>]"
        unfolding d2(4) d1(4) using f room t0 True len
        by (intro takeWhile_update_stop) (auto simp: narrow_dyn_def DT_NULL_def)
      then show ?thesis
        using start True room d1 d2 f fl fr dyn_frame_fields(3) [OF d2(3)] dyn_frame_trans [OF d1(3) dyn_frame_trans [OF d2(3)]]
        by (auto simp: dyn_table_def)
    qed
  qed
qed


section \<open>What is read after an update\<close>

lemma set_bit_of_keeps [simp]:
  "ehdr (set_bit_of b d) = ehdr d" "scn (set_bit_of b d) = scn d" "shdr (set_bit_of b d) = shdr d"
  "host_lsb (set_bit_of b d) = host_lsb d" "info (set_bit_of b d) = info d"
  "info_set_mask (set_bit_of b d) = info_set_mask d OR push_bit b 1"
  by (simp_all add: set_bit_of_def)

lemma read_mips_entry_keeps [simp]:
  "ehdr (read_mips_entry e d) = ehdr d" "scn (read_mips_entry e d) = scn d"
  "shdr (read_mips_entry e d) = shdr d" "host_lsb (read_mips_entry e d) = host_lsb d"
  "info (read_mips_entry e d) = info d" "info_set_mask (read_mips_entry e d) = info_set_mask d"
  by (simp_all add: read_mips_entry_def Let_def)

lemma read_dyn_entry_keeps [simp]:
  "ehdr (read_dyn_entry dt_num e d) = ehdr d" "scn (read_dyn_entry dt_num e d) = scn d"
  "shdr (read_dyn_entry dt_num e d) = shdr d" "host_lsb (read_dyn_entry dt_num e d) = host_lsb d"
  by (simp_all add: read_dyn_entry_def Let_def)

lemma fold_read_keeps [simp]:
  "ehdr (fold (read_dyn_entry dt_num) es d) = ehdr d" "scn (fold (read_dyn_entry dt_num) es d) = scn d"
  "shdr (fold (read_dyn_entry dt_num) es d) = shdr d"
  by (induction es arbitrary: d) simp_all

lemma read_dyn_entries_list:
  "\<forall>j < length xs. dso_getdyn d i k (ndx + j) = Some (xs ! j) \<Longrightarrow>
   read_dyn_entries dt_num i k ndx (length xs) d =
     Some (\<exists>x \<in> set xs. d_tag x = DT_NULL, fold (read_dyn_entry dt_num) (takeWhile (\<lambda>e. d_tag e \<noteq> DT_NULL) xs) d)"
proof (induction xs arbitrary: ndx d)
  case (Cons x xs)
  have "dso_getdyn (read_dyn_entry dt_num x d) i k j = dso_getdyn d i k j" for j
    by (simp add: dso_getdyn_def block_at_def)
  then have "\<forall>j < length xs. dso_getdyn (read_dyn_entry dt_num x d) i k (Suc ndx + j) = Some (xs ! j)"
    using Cons.prems by force
  moreover have "dso_getdyn d i k ndx = Some x" using Cons.prems by force
  ultimately show ?case using Cons.IH [of "read_dyn_entry dt_num x d" "Suc ndx"] by simp
qed simp

lemma read_dyn_sections_skip:
  "\<forall>j < n. i + j < length (shdr d) \<and> sh_type (shdr d ! (i + j)) \<noteq> SHT_DYNAMIC \<Longrightarrow> read_dyn_sections dt_num i n d = Some d"
proof (induction n arbitrary: i)
  case (Suc n)
  have "\<forall>j < n. Suc i + j < length (shdr d) \<and> sh_type (shdr d ! (Suc i + j)) \<noteq> SHT_DYNAMIC"
    using Suc.prems by force
  moreover have "i < length (shdr d)" "sh_type (shdr d ! i) \<noteq> SHT_DYNAMIC" using Suc.prems by force+
  ultimately show ?case using Suc.IH [of "Suc i"] by simp
qed simp

lemma read_dyn_sections_add:
  "read_dyn_sections dt_num i (m + n) d = read_dyn_sections dt_num i m d \<bind> read_dyn_sections dt_num (i + m) n"
proof (induction m arbitrary: i d)
  case (Suc m)
  have "read_dyn_sections dt_num (Suc i) (m + n) = (\<lambda>d. read_dyn_sections dt_num (Suc i) m d \<bind> read_dyn_sections dt_num (Suc i + m) n)"
    using Suc.IH by blast
  then show ?case by simp
qed simp

text \<open>The header table names one dynamic section, the one the object refers to.\<close>

definition one_dynamic :: "dso \<Rightarrow> bool" where
  "one_dynamic d \<longleftrightarrow> dynamic d < unat (e_shnum (ehdr d)) \<and> unat (e_shnum (ehdr d)) \<le> length (shdr d)
     \<and> list_all (\<lambda>i. sh_type (shdr d ! i) = SHT_DYNAMIC \<longrightarrow> i = dynamic d) [0..<unat (e_shnum (ehdr d))]"

lemma read_dynamic_table:
  assumes ok: "dyn_ok d" and one: "one_dynamic d"
  shows "read_dynamic dt_num d
    = Some (fold (read_dyn_entry dt_num) (dyn_table d) (d\<lparr>info := (\<lambda>_. 0), info_set_mask := 0\<rparr>))"
proof -
  let ?n = "dynamic d" and ?d = "d\<lparr>info := (\<lambda>_. 0), info_set_mask := 0\<rparr>"
  let ?r = "fold (read_dyn_entry dt_num) (dyn_table d) ?d"
  define q where "q = unat (e_shnum (ehdr d)) - Suc ?n"
  have N: "unat (e_shnum (ehdr d)) = ?n + Suc q" using one by (simp add: one_dynamic_def q_def)
  have others: "\<forall>i < ?n + Suc q. i < length (shdr d) \<and> (i \<noteq> ?n \<longrightarrow> sh_type (shdr d ! i) \<noteq> SHT_DYNAMIC)"
    using one unfolding one_dynamic_def N list_all_iff set_upt by auto
  have "read_dyn_sections dt_num 0 ?n ?d = Some ?d" using others by (intro read_dyn_sections_skip) simp
  moreover have "read_dyn_sections dt_num (Suc ?n) q ?r = Some ?r" using others by (intro read_dyn_sections_skip) simp
  moreover have "read_dyn_blocks dt_num ?n (shdr d ! ?n) 0 (Suc 0) ?d = Some ?r"
  proof -
    have "block_at ?d ?n 0 = Some (dyn_block d)" using block_at_dyn [OF ok] by (simp add: block_at_def)
    moreover have "dso_getdyn ?d ?n 0 j = dso_getdyn d ?n 0 j" for j by (simp add: dso_getdyn_def block_at_def)
    ultimately show ?thesis
      using read_dyn_entries_list [of "dyn_slots d" ?d ?n 0 0 dt_num] getdyn_slot [OF ok] dyn_ok_max_ndx [OF ok]
      by (simp add: dyn_slots_def [THEN arg_cong, of length] dyn_table_def)
  qed
  moreover have "?d\<lparr>dynamic := ?n\<rparr> = ?d" by simp
  ultimately show ?thesis
    using ok others N read_dyn_sections_add [of dt_num 0 ?n "Suc q" ?d]
    by (simp add: read_dynamic_def dyn_ok_def nth_opt_def)
qed


lemma read_small_tag:
  assumes "dt_num \<le> 50" and "d_tag e < of_nat dt_num"
  shows "info (read_dyn_entry dt_num e d) = (info d)(unat (d_tag e) := d_ptr e)"
    "info_set_mask (read_dyn_entry dt_num e d) = info_set_mask d OR push_bit (unat (d_tag e)) 1"
proof -
  have "d_tag e < 50" using assms by (simp add: word_less_nat_alt unat_of_nat)
  then show "info (read_dyn_entry dt_num e d) = (info d)(unat (d_tag e) := d_ptr e)"
    "info_set_mask (read_dyn_entry dt_num e d) = info_set_mask d OR push_bit (unat (d_tag e)) 1"
    using assms(2) by (simp_all add: read_dyn_entry_def Let_def)
qed

lemma read_other_tag:
  assumes "d_tag e \<noteq> t" and "t < 50"
  shows "info (read_dyn_entry dt_num e d) (unat t) = info d (unat t)"
    "bit (info_set_mask (read_dyn_entry dt_num e d)) (unat t) = bit (info_set_mask d) (unat t)"
proof -
  have t: "unat t < 50" using assms(2) by (simp add: word_less_nat_alt)
  have n: "unat (d_tag e) \<noteq> unat t" using assms(1) by (simp add: word_unat_eq_iff)
  show "info (read_dyn_entry dt_num e d) (unat t) = info d (unat t)"
    using n by (simp add: read_dyn_entry_def Let_def if_distrib [of info] if_distrib [of "\<lambda>f. f (unat t)"] split del: if_split cong: if_cong)
  have b: "bit (info_set_mask (set_bit_of k d')) (unat t) = bit (info_set_mask d') (unat t)" if "k \<noteq> unat t" for k d'
    using that t by (auto simp: bit_or_iff bit_exp_iff)
  show "bit (info_set_mask (read_dyn_entry dt_num e d)) (unat t) = bit (info_set_mask d) (unat t)"
    using n t b
    by (simp add: read_dyn_entry_def Let_def if_distrib [of info_set_mask] if_distrib [of "\<lambda>w. bit w (unat t)"]
        del: set_bit_of_keeps(6) split del: if_split cong: if_cong)
qed

lemma fold_read_tag:
  assumes "distinct (map d_tag es)" and "e \<in> set es" and "dt_num \<le> 50" and "d_tag e < of_nat dt_num"
  shows "info (fold (read_dyn_entry dt_num) es d) (unat (d_tag e)) = d_ptr e
    \<and> bit (info_set_mask (fold (read_dyn_entry dt_num) es d)) (unat (d_tag e))"
proof -
  have 50: "d_tag e < 50"
    using assms(3,4) by (simp add: word_less_nat_alt unat_of_nat)
  have rest: "info (fold (read_dyn_entry dt_num) zs d') (unat (d_tag e)) = info d' (unat (d_tag e))
      \<and> bit (info_set_mask (fold (read_dyn_entry dt_num) zs d')) (unat (d_tag e)) = bit (info_set_mask d') (unat (d_tag e))"
    if "d_tag e \<notin> d_tag ` set zs" for zs d'
    using that by (induction zs arbitrary: d') (auto simp: read_other_tag 50)
  obtain ys zs where es: "es = ys @ e # zs" using split_list [OF assms(2)] by blast
  have "unat (d_tag e) < 64" using 50 by (simp add: word_less_nat_alt)
  then show ?thesis
    using rest [of zs] assms(1) read_small_tag [OF assms(3,4)] by (simp add: es bit_simps)
qed

lemma dyn_put_tags: "distinct (map d_tag es) \<Longrightarrow>
    distinct (map d_tag (dyn_put t v es)) \<and> set (map d_tag (dyn_put t v es)) = insert t (set (map d_tag es))"
  by (induction es) auto

lemma dyn_put_mem: "\<lparr>d_tag = t, d_ptr = v\<rparr> \<in> set (dyn_put t v es)"
proof (induction es)
  case (Cons e es)
  then show ?case by (cases e) auto
qed simp

definition sample_dyn_block :: elf_data where
  "sample_dyn_block = \<lparr>d_type = ELF_T_DYN, d_off = 0, d_size = 48,
     d_buf = Some (le64_bytes 3 @ le64_bytes 0x1000 @ replicate 32 0)\<rparr>"

text \<open>The sample object with a dynamic section of three entries, one of them in use.\<close>

definition sample_dyn_dso :: dso where
  "sample_dyn_dso = sample_dso\<lparr>
     scn := (scn sample_dso)[3 := \<lparr>scn_data = [sample_dyn_block], scn_dirty = False\<rparr>],
     shdr := (shdr sample_dso)[3 := (shdr sample_dso ! 3)\<lparr>sh_size := 48, sh_entsize := 16\<rparr>]\<rparr>"

lemma sample_dyn_ok: "dyn_ok sample_dyn_dso" "one_dynamic sample_dyn_dso" "dyn_max sample_dyn_dso = 3"
proof -
  have b: "dyn_block sample_dyn_dso = sample_dyn_block" "dynamic sample_dyn_dso = 3"
    by (simp_all add: dyn_block_def sample_dyn_dso_def sample_defs)
  show "dyn_ok sample_dyn_dso"
    unfolding dyn_ok_def b
    by (simp add: sample_dyn_dso_def sample_defs sample_dyn_block_def dyn_entsize_def elf_consts wf_block_def)
  show "one_dynamic sample_dyn_dso"
    by (simp add: one_dynamic_def sample_dyn_dso_def sample_upt sample_defs elf_consts)
  show "dyn_max sample_dyn_dso = 3"
    unfolding dyn_max_def b
    by (simp add: sample_dyn_dso_def sample_defs sample_dyn_block_def dyn_entsize_def elf_consts)
qed

lemma sample_dyn_fits [simp]: "narrow_dyn (ei_class (ehdr sample_dyn_dso)) r = r"
  by (simp add: narrow_dyn_def sample_dyn_dso_def sample_defs elf_consts)

lemma sample_dyn_table: "dyn_table sample_dyn_dso = [\<lparr>d_tag = 3, d_ptr = 0x1000\<rparr>]"
proof -
  have "[0..<3] = [0, 1, 2 :: nat]" by code_simp
  then show ?thesis
    unfolding dyn_table_def dyn_slots_def sample_dyn_ok(3)
    by (simp add: dso_getdyn_def block_at_def nth_opt_def sample_dyn_dso_def sample_defs sample_dyn_block_def
        gelfx_getdyn_def elf_consts peek_def host_ld64_def buf_read_defs le64_bytes_def DT_NULL_def)
qed






end
