(* ===== verification/ArchARM.thy ===== *)
theory ArchARM
  imports ArchLib Dynamic
begin

text \<open>
  \<^verbatim>\<open>src/arch-arm.c\<close>: the handlers of the ARM target, little- and big-endian. It uses REL sections like i386, and
  has a relocation of its own, \<^verbatim>\<open>R_ARM_PC24\<close>, which fills the 24-bit branch offset in the low bits of an
  instruction. A value of type \<^verbatim>\<open>Elf32_Sword\<close> is a 32-bit word, its right shift is \<^const>\<open>signed_drop_bit\<close>.

  The lemmas: undoing a prelinked REL relocation gives the image that undoing alone gives; a relocation that
  needs its addend, a branch included, survives the way through RELA; a branch is filled in only when its
  target is in reach, and then decodes to the target.
\<close>

section \<open>Relocation types\<close>

definition R_ARM_NONE :: u64 where "R_ARM_NONE = 0"
definition R_ARM_PC24 :: u64 where "R_ARM_PC24 = 1"
definition R_ARM_ABS32 :: u64 where "R_ARM_ABS32 = 2"
definition R_ARM_TLS_DESC :: u64 where "R_ARM_TLS_DESC = 13"
definition R_ARM_TLS_DTPMOD32 :: u64 where "R_ARM_TLS_DTPMOD32 = 17"
definition R_ARM_TLS_DTPOFF32 :: u64 where "R_ARM_TLS_DTPOFF32 = 18"
definition R_ARM_TLS_TPOFF32 :: u64 where "R_ARM_TLS_TPOFF32 = 19"
definition R_ARM_COPY :: u64 where "R_ARM_COPY = 20"
definition R_ARM_GLOB_DAT :: u64 where "R_ARM_GLOB_DAT = 21"
definition R_ARM_JUMP_SLOT :: u64 where "R_ARM_JUMP_SLOT = 22"
definition R_ARM_RELATIVE :: u64 where "R_ARM_RELATIVE = 23"
definition R_ARM_IRELATIVE :: u64 where "R_ARM_IRELATIVE = 160"

lemmas r_arm =
  R_ARM_NONE_def R_ARM_PC24_def R_ARM_ABS32_def R_ARM_TLS_DESC_def R_ARM_TLS_DTPMOD32_def
  R_ARM_TLS_DTPOFF32_def R_ARM_TLS_TPOFF32_def R_ARM_COPY_def R_ARM_GLOB_DAT_def R_ARM_JUMP_SLOT_def
  R_ARM_RELATIVE_def R_ARM_IRELATIVE_def

definition DT_GNU_PRELINKED_BIT :: nat where "DT_GNU_PRELINKED_BIT = 50"

section \<open>Adjusting\<close>

text \<open>The search of \<^verbatim>\<open>arm_adjust_dyn\<close>: is \<open>data\<close> the start of a \<^verbatim>\<open>.plt\<close>?\<close>

function arm_is_plt :: "dso \<Rightarrow> u64 \<Rightarrow> nat \<Rightarrow> bool option" where
  "arm_is_plt d data i =
     (if i < unat (e_shnum (ehdr d)) then do {
        s \<leftarrow> nth_opt (shdr d) i;
        if data = sh_addr s \<and> sh_type s = SHT_PROGBITS then do {
          b \<leftarrow> sec_name_is d i ''.plt'';
          if b then Some True else arm_is_plt d data (Suc i)
        } else arm_is_plt d data (Suc i)
      } else Some False)"
  by pat_completeness auto
termination
  by (relation "measure (\<lambda>(d, data, i). unat (e_shnum (ehdr d)) - i)") auto

declare arm_is_plt.simps [simp del]

definition arm_adjust_dyn ::
  "dso \<Rightarrow> nat \<Rightarrow> elf_dyn \<Rightarrow> u64 \<Rightarrow> u64 \<Rightarrow> (int \<times> elf_dyn \<times> dso) option" where
  "arm_adjust_dyn d n dyn start adj =
     (if d_tag dyn = of_nat DT_PLTGOT then do {
        (sec, d) \<leftarrow> addr_to_sec d (d_ptr dyn);
        if sec = None then Some (0, dyn, d) else do {
          (data, d) \<leftarrow> read_une32 d (d_ptr dyn);
          s \<leftarrow> nth_opt (shdr d) n;
          (_, d) \<leftarrow> (if ucast data = sh_addr s \<and> ucast data \<ge> start
                    then write_ne32 d (d_ptr dyn) (ucast (ucast data + adj)) else Some (0, d));
          (data, d) \<leftarrow> read_une32 d (d_ptr dyn + 4);
          if data \<noteq> 0 \<and> ucast data \<ge> start then do {
            b \<leftarrow> arm_is_plt d (ucast data) 1;
            (_, d) \<leftarrow> (if b then write_ne32 d (d_ptr dyn + 4) (ucast (ucast data + adj)) else Some (0, d));
            Some (0, dyn, d)
          } else Some (0, dyn, d)
        }
      } else Some (0, dyn, d))"

definition arm_adjust_word :: "dso \<Rightarrow> u64 \<Rightarrow> u64 \<Rightarrow> u64 \<Rightarrow> (int \<times> dso) option" where
  "arm_adjust_word d a start adj = do {
     (data, d) \<leftarrow> read_une32 d a;
     if ucast data \<ge> start then write_ne32 d a (ucast (ucast data + adj)) else Some (0, d)
   }"

definition arm_adjust_rel :: "dso \<Rightarrow> elf_rel \<Rightarrow> u64 \<Rightarrow> u64 \<Rightarrow> (int \<times> elf_rel \<times> dso) option" where
  "arm_adjust_rel d rel start adj = (
     let t = GELF_R_TYPE (r_info rel) in
     if t = R_ARM_RELATIVE \<or> t = R_ARM_JUMP_SLOT \<or> t = R_ARM_IRELATIVE then do {
       (_, d) \<leftarrow> arm_adjust_word d (r_offset rel) start adj;
       Some (0, rel, d)
     }
     else Some (0, rel, d))"

definition arm_adjust_rela :: "dso \<Rightarrow> elf_rela \<Rightarrow> u64 \<Rightarrow> u64 \<Rightarrow> (int \<times> elf_rela \<times> dso) option" where
  "arm_adjust_rela d rela start adj = (
     let t = GELF_R_TYPE (ra_info rela) in
     if t = R_ARM_RELATIVE \<or> t = R_ARM_IRELATIVE then
       (if ucast (ucast (ra_addend rela) :: u32) \<ge> start then do {
          let rela = rela\<lparr>ra_addend := ra_addend rela + sword32 adj\<rparr>;
          (_, d) \<leftarrow> write_ne32 d (ra_offset rela) (ucast (ra_addend rela));
          Some (0, rela, d)
        } else Some (0, rela, d))
     else if t = R_ARM_JUMP_SLOT then do {
       (_, d) \<leftarrow> arm_adjust_word d (ra_offset rela) start adj;
       Some (0, rela, d)
     }
     else Some (0, rela, d))"

section \<open>Branches\<close>

text \<open>The steps repeated in the cases \<^verbatim>\<open>R_ARM_PC24\<close>: the distance in instructions, when it fits into 24 bits
  (\<^const>\<open>None\<close> otherwise), and the instruction with its low bits replaced.\<close>

definition arm_pc24 :: "u32 \<Rightarrow> u32 option" where
  "arm_pc24 v = (let val = signed_drop_bit 2 v in
     if val + 0x800000 \<ge> 0x1000000 then None else Some (val AND 0xffffff))"

definition arm_insn :: "u32 \<Rightarrow> u32 \<Rightarrow> u32" where
  "arm_insn insn imm = (insn AND 0xff000000) OR imm"

text \<open>The displacement an instruction holds: \<^verbatim>\<open>(Elf32_Sword) (insn << 8) >> 6\<close>.\<close>

definition arm_branch :: "u32 \<Rightarrow> u32" where
  "arm_branch insn = signed_drop_bit 6 (push_bit 8 insn)"

section \<open>Prelinking\<close>

text \<open>The case \<^verbatim>\<open>R_ARM_TLS_DESC\<close>, the same in both handlers: the second word of the descriptor.\<close>

definition arm_prelink_tlsdesc :: "dso \<Rightarrow> u64 \<Rightarrow> (int \<times> dso) option" where
  "arm_prelink_tlsdesc d off =
     (if info_DT_TLSDESC_PLT d = 0 then Some (1, d)
      else do {
        (v, d) \<leftarrow> read_une32 d (off + 4);
        if v \<noteq> 0 \<and> \<not> dynamic_info_is_set d DT_GNU_PRELINKED_BIT then Some (1, d)
        else do {
          (_, d) \<leftarrow> write_ne32 d (off + 4) (ucast (info_DT_TLSDESC_PLT d));
          Some (0, d)
        }
      })"

definition arm_prelink_rel :: "pl_info \<Rightarrow> dso \<Rightarrow> elf_rel \<Rightarrow> u64 \<Rightarrow> (int \<times> elf_rel \<times> dso) option" where
  "arm_prelink_rel pi d rel reladdr = (
     let t = GELF_R_TYPE (r_info rel) in
     if t = R_ARM_RELATIVE \<or> t = R_ARM_IRELATIVE \<or> t = R_ARM_NONE then Some (0, rel, d)
     else let val = fst (resolve pi (GELF_R_SYM (r_info rel)) t) in
     if t = R_ARM_GLOB_DAT \<or> t = R_ARM_JUMP_SLOT then do {
       (_, d) \<leftarrow> write_ne32 d (r_offset rel) (ucast val);
       Some (0, rel, d)
     }
     else if t = R_ARM_ABS32 then do {
       (v, d) \<leftarrow> read_une32 d (r_offset rel);
       if v \<noteq> 0 then Some (1, rel, d)
       else do {
         (_, d) \<leftarrow> write_ne32 d (r_offset rel) (ucast val);
         Some (2, rel\<lparr>r_info := GELF_R_INFO (GELF_R_SYM (r_info rel)) R_ARM_GLOB_DAT\<rparr>, d)
       }
     }
     else if t = R_ARM_PC24 then Some (1, rel, d)
     else if t = R_ARM_COPY then
       (if e_type (ehdr d) = ET_EXEC then Some (0, rel, d) else Some (1, rel, d))
     else if t = R_ARM_TLS_DTPOFF32 then do {
       (_, d) \<leftarrow> write_ne32 d (r_offset rel) (ucast val);
       Some (0, rel, d)
     }
     else if t = R_ARM_TLS_DTPMOD32 then
       (if e_type (ehdr d) = ET_EXEC then Some (1, rel, d) else Some (0, rel, d))
     else if t = R_ARM_TLS_TPOFF32 then Some (0, rel, d)
     else if t = R_ARM_TLS_DESC then do {
       (rc, d) \<leftarrow> arm_prelink_tlsdesc d (r_offset rel);
       Some (rc, rel, d)
     }
     else Some (1, rel, d))"

definition arm_prelink_rela :: "pl_info \<Rightarrow> dso \<Rightarrow> elf_rela \<Rightarrow> u64 \<Rightarrow> (int \<times> elf_rela \<times> dso) option" where
  "arm_prelink_rela pi d rela relaaddr = (
     let t = GELF_R_TYPE (ra_info rela) in
     if t = R_ARM_RELATIVE \<or> t = R_ARM_IRELATIVE \<or> t = R_ARM_NONE then Some (0, rela, d)
     else let (val, tls) = resolve pi (GELF_R_SYM (ra_info rela)) t in
     if t = R_ARM_GLOB_DAT \<or> t = R_ARM_JUMP_SLOT \<or> t = R_ARM_ABS32 \<or> t = R_ARM_TLS_DTPOFF32 then do {
       (_, d) \<leftarrow> write_ne32 d (ra_offset rela) (ucast (val + ra_addend rela));
       Some (0, rela, d)
     }
     else if t = R_ARM_PC24 then
       (case arm_pc24 (ucast (val + ra_addend rela - ra_offset rela)) of
          None \<Rightarrow> Some (1, rela, d)
        | Some imm \<Rightarrow> do {
            (insn, d) \<leftarrow> read_une32 d (ra_offset rela);
            (_, d) \<leftarrow> write_ne32 d (ra_offset rela) (arm_insn insn imm);
            Some (0, rela, d)
          })
     else if t = R_ARM_COPY then
       (if e_type (ehdr d) = ET_EXEC then Some (0, rela, d) else Some (1, rela, d))
     else if t = R_ARM_TLS_DTPMOD32 then
       (if e_type (ehdr d) = ET_EXEC then Some (1, rela, d) else Some (0, rela, d))
     else if t = R_ARM_TLS_TPOFF32 then
       (case tls of
          Some tp \<Rightarrow>
            (if e_type (ehdr d) = ET_EXEC then do {
               (_, d) \<leftarrow> write_ne32 d (ra_offset rela) (ucast (val + ra_addend rela + tls_offset tp));
               Some (0, rela, d)
             } else Some (0, rela, d))
        | None \<Rightarrow> Some (0, rela, d))
     else if t = R_ARM_TLS_DESC then do {
       (rc, d) \<leftarrow> arm_prelink_tlsdesc d (ra_offset rela);
       Some (rc, rela, d)
     }
     else Some (1, rela, d))"

section \<open>Applying to a buffer\<close>

definition arm_apply_conflict_rela ::
  "pl_info \<Rightarrow> dso \<Rightarrow> elf_rela \<Rightarrow> u8 list \<Rightarrow> u64 \<Rightarrow> (int \<times> u8 list \<times> pl_info) option" where
  "arm_apply_conflict_rela pi d rela buf dest_addr = (
     let t = GELF_R_TYPE (ra_info rela) in
     if t = R_ARM_GLOB_DAT \<or> t = R_ARM_JUMP_SLOT \<or> t = R_ARM_ABS32 then do {
       buf \<leftarrow> buf_write_ne32 d buf (ucast (ra_addend rela));
       Some (0, buf, pi)
     }
     else if t = R_ARM_IRELATIVE then
       (if dest_addr = 0 then Some (5, buf, pi)
        else do {
          (ret, pi) \<leftarrow> prelink_conflict_add_rela pi;
          case ret of
            None \<Rightarrow> Some (1, buf, pi)
          | Some i \<Rightarrow> Some (0, buf, set_conflict_rela pi i
              \<lparr>ra_offset = dest_addr, ra_info = GELF_R_INFO 0 R_ARM_IRELATIVE, ra_addend = ra_addend rela\<rparr>)
        })
     else None)"

text \<open>The write of a branch into the buffer, the same in both handlers.\<close>

definition arm_apply_pc24 :: "dso \<Rightarrow> u8 list \<Rightarrow> u32 \<Rightarrow> (int \<times> u8 list) option" where
  "arm_apply_pc24 d buf v =
     (case arm_pc24 v of
        None \<Rightarrow> Some (1, buf)
      | Some imm \<Rightarrow> do {
          insn \<leftarrow> buf_read_une32 d buf;
          buf \<leftarrow> buf_write_ne32 d buf (arm_insn insn imm);
          Some (0, buf)
        })"

definition arm_apply_rel :: "pl_info \<Rightarrow> dso \<Rightarrow> elf_rel \<Rightarrow> u8 list \<Rightarrow> (int \<times> u8 list \<times> dso) option" where
  "arm_apply_rel pi d rel buf = (
     let t = GELF_R_TYPE (r_info rel);
         val = fst (resolve pi (GELF_R_SYM (r_info rel)) t) in
     if t = R_ARM_NONE then Some (0, buf, d)
     else if t = R_ARM_GLOB_DAT \<or> t = R_ARM_JUMP_SLOT then do {
       buf \<leftarrow> buf_write_ne32 d buf (ucast val);
       Some (0, buf, d)
     }
     else if t = R_ARM_ABS32 then do {
       (v, d) \<leftarrow> read_une32 d (r_offset rel);
       buf \<leftarrow> buf_write_ne32 d buf (ucast (val + ucast v));
       Some (0, buf, d)
     }
     else if t = R_ARM_PC24 then do {
       (insn, d) \<leftarrow> read_une32 d (r_offset rel);
       (rc, buf) \<leftarrow> arm_apply_pc24 d buf (ucast (val + r_offset rel) + arm_branch insn);
       Some (rc, buf, d)
     }
     else if t = R_ARM_COPY then None
     else Some (1, buf, d))"

definition arm_apply_rela :: "pl_info \<Rightarrow> dso \<Rightarrow> elf_rela \<Rightarrow> u8 list \<Rightarrow> (int \<times> u8 list \<times> dso) option" where
  "arm_apply_rela pi d rela buf = (
     let t = GELF_R_TYPE (ra_info rela);
         val = fst (resolve pi (GELF_R_SYM (ra_info rela)) t) in
     if t = R_ARM_NONE then Some (0, buf, d)
     else if t = R_ARM_GLOB_DAT \<or> t = R_ARM_JUMP_SLOT \<or> t = R_ARM_ABS32 then do {
       buf \<leftarrow> buf_write_ne32 d buf (ucast (val + ra_addend rela));
       Some (0, buf, d)
     }
     else if t = R_ARM_PC24 then do {
       (rc, buf) \<leftarrow> arm_apply_pc24 d buf (ucast (val + ra_addend rela - ra_offset rela));
       Some (rc, buf, d)
     }
     else if t = R_ARM_COPY then None
     else Some (1, buf, d))"

section \<open>Conflicts\<close>

definition arm_reloc_class :: "u64 \<Rightarrow> int" where
  "arm_reloc_class t =
     (if t = R_ARM_COPY then RTYPE_CLASS_COPY
      else if t = R_ARM_JUMP_SLOT then RTYPE_CLASS_PLT
      else if t = R_ARM_TLS_DTPMOD32 \<or> t = R_ARM_TLS_DTPOFF32 \<or> t = R_ARM_TLS_TPOFF32 \<or> t = R_ARM_TLS_DESC
      then RTYPE_CLASS_TLS
      else RTYPE_CLASS_VALID)"

text \<open>The final \<^verbatim>\<open>switch\<close> of \<^verbatim>\<open>arm_prelink_conflict_rel\<close>: the return code, \<^verbatim>\<open>*ret\<close> and the object.\<close>

definition arm_conflict_entry_rel ::
  "dso \<Rightarrow> pl_info \<Rightarrow> pl_conflict option \<Rightarrow> elf_rel \<Rightarrow> u64 \<Rightarrow> (int \<times> elf_rela \<times> dso) option" where
  "arm_conflict_entry_rel d pi conflict rel val = (
     let t = GELF_R_TYPE (r_info rel);
         ret = \<lparr>ra_offset = r_offset rel, ra_info = GELF_R_INFO 0 t, ra_addend = 0\<rparr> in
     if t = R_ARM_GLOB_DAT \<or> t = R_ARM_JUMP_SLOT then
       Some (0, ret\<lparr>ra_addend := sword32 val,
         ra_info := (if conflict_ifunc conflict then GELF_R_INFO 0 R_ARM_IRELATIVE else GELF_R_INFO 0 t)\<rparr>, d)
     else if t = R_ARM_IRELATIVE then do {
       (v, d) \<leftarrow> read_une32 d (r_offset rel);
       Some (0, ret\<lparr>ra_addend := scast v\<rparr>, d)
     }
     else if t = R_ARM_ABS32 \<or> t = R_ARM_PC24 \<or> t = R_ARM_COPY then Some (1, ret, d)
     else if t = R_ARM_TLS_DTPMOD32 \<or> t = R_ARM_TLS_DTPOFF32 \<or> t = R_ARM_TLS_TPOFF32 then
       (if tls_mismatch conflict then Some (1, ret, d)
        else
          let tls = conflict_tls pi conflict; ret = ret\<lparr>ra_info := GELF_R_INFO 0 R_ARM_ABS32\<rparr> in
          if t = R_ARM_TLS_DTPMOD32 then do { tp \<leftarrow> tls_at pi tls; Some (0, ret\<lparr>ra_addend := modid tp\<rparr>, d) }
          else if t = R_ARM_TLS_DTPOFF32 then do {
            (v, d) \<leftarrow> read_une32 d (r_offset rel);
            Some (0, ret\<lparr>ra_addend := val + ucast v\<rparr>, d)
          }
          else do {
            (v, d) \<leftarrow> read_une32 d (r_offset rel);
            tp \<leftarrow> tls_at pi tls;
            Some (0, ret\<lparr>ra_addend := val + ucast v + tls_offset tp\<rparr>, d)
          })
     else if t = R_ARM_TLS_DESC then Some (0, ret, d)
     else Some (1, ret, d))"

definition arm_prelink_conflict_rel ::
  "dso \<Rightarrow> pl_info \<Rightarrow> elf_rel \<Rightarrow> u64 \<Rightarrow> (int \<times> dso \<times> pl_info) option" where
  "arm_prelink_conflict_rel d pi rel reladdr = (
     let t = GELF_R_TYPE (r_info rel) in
     if t = R_ARM_RELATIVE \<or> t = R_ARM_NONE then Some (0, d, pi)
     else do {
       (conflict, pi) \<leftarrow> prelink_conflict arm_reloc_class pi (ucast (GELF_R_SYM (r_info rel))) t;
       val \<leftarrow> conflict_value d pi conflict (t = R_ARM_TLS_DTPMOD32 \<or> t = R_ARM_TLS_TPOFF32)
         (t = R_ARM_IRELATIVE \<or> t = R_ARM_TLS_DESC) (t = R_ARM_TLS_DTPOFF32);
       case val of
         None \<Rightarrow> Some (0, d, pi)
       | Some val \<Rightarrow> record_conflict d pi (\<lambda>pi. arm_conflict_entry_rel d pi conflict rel val)
     })"

definition arm_conflict_entry_rela ::
  "dso \<Rightarrow> pl_info \<Rightarrow> pl_conflict option \<Rightarrow> elf_rela \<Rightarrow> u64 \<Rightarrow> (int \<times> elf_rela \<times> dso) option" where
  "arm_conflict_entry_rela d pi conflict rela val = (
     let t = GELF_R_TYPE (ra_info rela);
         ret = \<lparr>ra_offset = ra_offset rela, ra_info = GELF_R_INFO 0 t, ra_addend = 0\<rparr> in
     if t = R_ARM_GLOB_DAT \<or> t = R_ARM_JUMP_SLOT \<or> t = R_ARM_ABS32 \<or> t = R_ARM_IRELATIVE then
       Some (0, ret\<lparr>ra_addend := sword32 (val + ra_addend rela),
         ra_info := (if conflict_ifunc conflict then GELF_R_INFO 0 R_ARM_IRELATIVE else GELF_R_INFO 0 t)\<rparr>, d)
     else if t = R_ARM_PC24 then
       (case arm_pc24 (ucast (val + ra_addend rela - ra_offset rela)) of
          None \<Rightarrow> Some (1, ret, d)
        | Some imm \<Rightarrow> do {
            (insn, d) \<leftarrow> read_une32 d (ra_offset rela);
            Some (0, ret\<lparr>ra_addend := scast (arm_insn insn imm), ra_info := GELF_R_INFO 0 R_ARM_ABS32\<rparr>, d)
          })
     else if t = R_ARM_COPY then Some (1, ret, d)
     else if t = R_ARM_TLS_DTPMOD32 \<or> t = R_ARM_TLS_DTPOFF32 \<or> t = R_ARM_TLS_TPOFF32 then
       (if tls_mismatch conflict then Some (1, ret, d)
        else
          let tls = conflict_tls pi conflict; ret = ret\<lparr>ra_info := GELF_R_INFO 0 R_ARM_ABS32\<rparr> in
          if t = R_ARM_TLS_DTPMOD32 then do { tp \<leftarrow> tls_at pi tls; Some (0, ret\<lparr>ra_addend := modid tp\<rparr>, d) }
          else if t = R_ARM_TLS_DTPOFF32 then Some (0, ret\<lparr>ra_addend := val + ra_addend rela\<rparr>, d)
          else do {
            tp \<leftarrow> tls_at pi tls;
            Some (0, ret\<lparr>ra_addend := val + ra_addend rela + tls_offset tp\<rparr>, d)
          })
     else if t = R_ARM_TLS_DESC then Some (0, ret, d)
     else Some (1, ret, d))"

definition arm_prelink_conflict_rela ::
  "dso \<Rightarrow> pl_info \<Rightarrow> elf_rela \<Rightarrow> u64 \<Rightarrow> (int \<times> dso \<times> pl_info) option" where
  "arm_prelink_conflict_rela d pi rela relaaddr = (
     let t = GELF_R_TYPE (ra_info rela) in
     if t = R_ARM_RELATIVE \<or> t = R_ARM_NONE then Some (0, d, pi)
     else do {
       (conflict, pi) \<leftarrow> prelink_conflict arm_reloc_class pi (ucast (GELF_R_SYM (ra_info rela))) t;
       val \<leftarrow> conflict_value d pi conflict (t = R_ARM_TLS_DTPMOD32 \<or> t = R_ARM_TLS_TPOFF32)
         (t = R_ARM_IRELATIVE \<or> t = R_ARM_TLS_DESC) (t = R_ARM_TLS_DTPOFF32);
       case val of
         None \<Rightarrow> Some (0, d, pi)
       | Some val \<Rightarrow> record_conflict d pi (\<lambda>pi. arm_conflict_entry_rela d pi conflict rela val)
     })"

section \<open>Conversion between REL and RELA\<close>

definition arm_addend_type :: "u64 \<Rightarrow> bool" where
  "arm_addend_type t \<longleftrightarrow> t = R_ARM_RELATIVE \<or> t = R_ARM_IRELATIVE \<or> t = R_ARM_ABS32
     \<or> t = R_ARM_TLS_TPOFF32 \<or> t = R_ARM_TLS_DTPOFF32"

definition arm_rel_to_rela :: "dso \<Rightarrow> elf_rel \<Rightarrow> elf_rela \<Rightarrow> (int \<times> elf_rela \<times> dso) option" where
  "arm_rel_to_rela d rel rela = (
     let rela = rela\<lparr>ra_offset := r_offset rel, ra_info := r_info rel\<rparr>;
         t = GELF_R_TYPE (r_info rel) in
     if t = R_ARM_JUMP_SLOT then None
     else if arm_addend_type t then do {
       (v, d) \<leftarrow> read_une32 d (r_offset rel);
       Some (0, rela\<lparr>ra_addend := scast v\<rparr>, d)
     }
     else if t = R_ARM_PC24 then do {
       (insn, d) \<leftarrow> read_une32 d (r_offset rel);
       Some (0, rela\<lparr>ra_addend := scast (arm_branch insn)\<rparr>, d)
     }
     else if t = R_ARM_COPY \<or> t = R_ARM_GLOB_DAT \<or> t = R_ARM_TLS_DTPMOD32 \<or> t = R_ARM_TLS_DESC then
       Some (0, rela\<lparr>ra_addend := 0\<rparr>, d)
     else Some (0, rela, d))"

definition arm_rela_to_rel :: "dso \<Rightarrow> elf_rela \<Rightarrow> elf_rel \<Rightarrow> (int \<times> elf_rel \<times> dso) option" where
  "arm_rela_to_rel d rela rel = (
     let rel = rel\<lparr>r_offset := ra_offset rela, r_info := ra_info rela\<rparr>;
         t = GELF_R_TYPE (r_info rel) in
     if t = R_ARM_JUMP_SLOT then None
     else if arm_addend_type t then do {
       (_, d) \<leftarrow> write_ne32 d (ra_offset rela) (ucast (ra_addend rela));
       Some (0, rel, d)
     }
     else if t = R_ARM_PC24 then do {
       (insn, d) \<leftarrow> read_une32 d (ra_offset rela);
       (_, d) \<leftarrow> write_ne32 d (ra_offset rela)
         (arm_insn insn (ucast (signed_drop_bit 2 (ra_addend rela) AND 0xffffff)));
       Some (0, rel, d)
     }
     else if t = R_ARM_GLOB_DAT \<or> t = R_ARM_TLS_DTPMOD32 then do {
       (_, d) \<leftarrow> write_ne32 d (ra_offset rela) 0;
       Some (0, rel, d)
     }
     else Some (0, rel, d))"

text \<open>The scan over the records of one block. The case \<^verbatim>\<open>R_ARM_TLS_TPOFF32\<close> falls through to a \<^verbatim>\<open>return 1\<close>, so
  that its test of \<^verbatim>\<open>e_type\<close> has no effect.\<close>

definition arm_rel_needs_rela :: "nat \<Rightarrow> nat \<Rightarrow> nat \<Rightarrow> dso \<Rightarrow> (int \<times> dso) option" where
  "arm_rel_needs_rela n k ndx d = do {
     b \<leftarrow> block_at d n k;
     buf \<leftarrow> d_buf b;
     off \<leftarrow> peek (host_ld32 (host_lsb d)) (ndx * 8) buf;
     inf \<leftarrow> peek (host_ld32 (host_lsb d)) (ndx * 8 + 4) buf;
     let t = ucast (ELF32_R_TYPE inf);
     if t = R_ARM_ABS32 then do {
       (v, d) \<leftarrow> read_une32 d (ucast off);
       Some (if v = 0 then 0 else 1, d)
     }
     else if t = R_ARM_PC24 then Some (1, d)
     else if t = R_ARM_TLS_TPOFF32 then
       (if e_type (ehdr d) = ET_EXEC then Some (1, d) else Some (1, d))
     else if t = R_ARM_TLS_DTPOFF32 then Some (1, d)
     else Some (0, d)
   }"

definition arm_need_rel_to_rela :: "dso \<Rightarrow> nat \<Rightarrow> nat \<Rightarrow> (int \<times> dso) option" where
  "arm_need_rel_to_rela d first last_sec =
     for_ndx (\<lambda>n d. do {
       sc \<leftarrow> nth_opt (scn d) n;
       for_ndx (\<lambda>k d. do {
         b \<leftarrow> block_at d n k;
         for_ndx (\<lambda>ndx d. arm_rel_needs_rela n k ndx d) 0 (unat (d_size b) div 8) d
       }) 0 (length (scn_data sc)) d
     }) first (Suc last_sec - first) d"

section \<open>Whole-object hooks and undo\<close>

definition arm_arch_prelink :: "pl_info \<Rightarrow> dso \<Rightarrow> (int \<times> dso) option" where
  "arm_arch_prelink pi d =
     (if info d DT_PLTGOT \<noteq> 0 then do {
        (sec, d) \<leftarrow> addr_to_sec d (info d DT_PLTGOT);
        if sec = None then Some (1, d)
        else do {
          i \<leftarrow> find_progbits d ''.plt'' 1;
          if i = unat (e_shnum (ehdr d)) then Some (0, d)
          else do {
            (_, d) \<leftarrow> write_ne32 d (info d DT_PLTGOT + 4) (ucast (sh_addr (shdr d ! i)));
            Some (0, d)
          }
        }
      } else Some (0, d))"

definition arm_arch_undo_prelink :: "dso \<Rightarrow> (int \<times> dso) option" where
  "arm_arch_undo_prelink d =
     (if info d DT_PLTGOT \<noteq> 0 then do {
        (sec, d) \<leftarrow> addr_to_sec d (info d DT_PLTGOT);
        if sec = None then Some (1, d)
        else do {
          i \<leftarrow> find_progbits d ''.plt'' 1;
          if i = unat (e_shnum (ehdr d)) then Some (0, d)
          else do {
            (data, d) \<leftarrow> read_une32 d (info d DT_PLTGOT + 4);
            (_, d) \<leftarrow> (if ucast data = sh_addr (shdr d ! i)
                      then write_ne32 d (info d DT_PLTGOT + 4) 0 else Some (0, d));
            Some (0, d)
          }
        }
      } else Some (0, d))"

text \<open>The case \<^verbatim>\<open>R_ARM_JUMP_SLOT\<close>, where \<^verbatim>\<open>dso->shdr[sec]\<close> is read before \<^verbatim>\<open>sec\<close> is tested for -1.\<close>

definition arm_undo_jump_slot :: "dso \<Rightarrow> elf_rel \<Rightarrow> (int \<times> elf_rel \<times> dso) option" where
  "arm_undo_jump_slot d rel = do {
     (sec, d) \<leftarrow> addr_to_sec d (r_offset rel);
     sec \<leftarrow> sec;
     got \<leftarrow> sec_name_is d sec ''.got'';
     gotplt \<leftarrow> (if got then Some False else sec_name_is d sec ''.got.plt'');
     if \<not> got \<and> \<not> gotplt then Some (1, rel, d)
     else do {
       s \<leftarrow> nth_opt (shdr d) sec;
       (data, d) \<leftarrow> read_une32 d (sh_addr s + 4);
       _ \<leftarrow> guard_opt (r_offset rel \<ge> sh_addr s + 12);
       _ \<leftarrow> guard_opt ((r_offset rel - sh_addr s) AND 3 = 0);
       (_, d) \<leftarrow> write_ne32 d (r_offset rel) data;
       Some (0, rel, d)
     }
   }"

definition arm_undo_glob_dat :: "dso \<Rightarrow> elf_rel \<Rightarrow> (int \<times> elf_rel \<times> dso) option" where
  "arm_undo_glob_dat d rel = do {
     (sec, d) \<leftarrow> addr_to_sec d (r_offset rel);
     (_, d) \<leftarrow> write_ne32 d (r_offset rel) 0;
     case sec of
       None \<Rightarrow> Some (0, rel, d)
     | Some i \<Rightarrow> do {
         got \<leftarrow> sec_name_is d i ''.got'';
         if got then Some (0, rel, d)
         else Some (2, rel\<lparr>r_info := GELF_R_INFO (GELF_R_SYM (r_info rel)) R_ARM_ABS32\<rparr>, d)
       }
   }"

definition arm_undo_prelink_rel :: "dso \<Rightarrow> elf_rel \<Rightarrow> u64 \<Rightarrow> (int \<times> elf_rel \<times> dso) option" where
  "arm_undo_prelink_rel d rel reladdr = (
     let t = GELF_R_TYPE (r_info rel) in
     if t = R_ARM_RELATIVE \<or> t = R_ARM_IRELATIVE \<or> t = R_ARM_NONE then Some (0, rel, d)
     else if t = R_ARM_JUMP_SLOT then arm_undo_jump_slot d rel
     else if t = R_ARM_GLOB_DAT then arm_undo_glob_dat d rel
     else if t = R_ARM_ABS32 \<or> t = R_ARM_PC24 then Some (1, rel, d)
     else if t = R_ARM_COPY then
       (if e_type (ehdr d) = ET_EXEC then Some (0, rel, d) else Some (1, rel, d))
     else if t = R_ARM_TLS_DTPMOD32 \<or> t = R_ARM_TLS_DTPOFF32 then do {
       (_, d) \<leftarrow> write_ne32 d (r_offset rel) 0;
       Some (0, rel, d)
     }
     else if t = R_ARM_TLS_TPOFF32 then Some (0, rel, d)
     else if t = R_ARM_TLS_DESC then do {
       (_, d) \<leftarrow> write_ne32 d (r_offset rel + 4) 0;
       Some (0, rel, d)
     }
     else Some (1, rel, d))"

definition arm_reloc_size :: "u64 \<Rightarrow> int option" where
  "arm_reloc_size t = do { _ \<leftarrow> guard_opt (t \<noteq> R_ARM_COPY); Some 4 }"

section \<open>The target\<close>

definition plarch_arm :: pl_arch where
  "plarch_arm = \<lparr>arch_name = ''ARM'', arch_class = ELFCLASS32, arch_machine = EM_ARM,
     alternate_machine = [0], max_reloc_size = 4, dynamic_linker = ''/lib/ld-linux.so.3'',
     R_COPY = R_ARM_COPY, R_JMP_SLOT = R_ARM_JUMP_SLOT, R_RELATIVE = R_ARM_RELATIVE,
     rtype_class_valid = RTYPE_CLASS_VALID, arch_adjust = None, adjust_section = None,
     adjust_dyn = arm_adjust_dyn, adjust_rel = arm_adjust_rel, adjust_rela = arm_adjust_rela,
     prelink_rel = arm_prelink_rel, prelink_rela = arm_prelink_rela,
     prelink_conflict_rel = arm_prelink_conflict_rel,
     prelink_conflict_rela = arm_prelink_conflict_rela,
     apply_conflict_rela = arm_apply_conflict_rela, apply_rel = arm_apply_rel,
     apply_rela = arm_apply_rela, rel_to_rela = arm_rel_to_rela, rela_to_rel = Some arm_rela_to_rel,
     need_rel_to_rela = arm_need_rel_to_rela, reloc_size = arm_reloc_size,
     arch_reloc_class = arm_reloc_class, arch_prelink = arm_arch_prelink,
     arch_undo_prelink = arm_arch_undo_prelink, undo_prelink_rel = Some arm_undo_prelink_rel,
     undo_prelink_rela = None, mmap_base = 0x41000000, mmap_end = 0x50000000,
     max_page_size = 0x10000, page_size = 0x1000\<rparr>"

section \<open>The bits of a branch\<close>

lemma arm_masks: "(0xffffff :: u32) = mask 24" "(0xffffff :: u64) = mask 24" "(0xff000000 :: u32) = push_bit 24 (mask 8)"
  by (simp_all add: mask_eq_exp_minus_1 push_bit_eq_mult)

lemma bit_arm_insn: "n < 32 \<Longrightarrow> bit (arm_insn insn imm) n \<longleftrightarrow> (24 \<le> n \<and> bit insn n) \<or> bit imm n"
  by (auto simp: arm_insn_def arm_masks bit_simps)

lemma bit_arm_branch: "n < 32 \<Longrightarrow> bit (arm_branch x) n \<longleftrightarrow> (if n < 26 then 2 \<le> n \<and> bit x (n - 2) else bit x 23)"
  by (auto simp: arm_branch_def bit_simps min_def)

lemma arm_insn_back:
  assumes "w AND 0xff000000 = v AND 0xff000000"
  shows "arm_insn w (ucast (signed_drop_bit 2 (scast (arm_branch v) :: u64) AND 0xffffff)) = v"
proof -
  let ?i = "ucast (signed_drop_bit 2 (scast (arm_branch v) :: u64) AND 0xffffff)"
  have "bit (scast (arm_branch v) :: u64) (n + 2) = bit v n" if "n < 24" for n
    using that by (auto simp: bit_signed_iff bit_arm_branch)
  then have "bit (arm_insn v ?i) n = bit v n" if "n < 32" for n
    using that by (cases "n < 24") (auto simp: bit_arm_insn arm_masks bit_simps min_def)
  then have "arm_insn v ?i = v" by (intro bit_word_eqI) simp
  then show ?thesis using assms by (simp add: arm_insn_def)
qed

lemma arm_pc24_range:
  "arm_pc24 v = (if - 0x2000000 \<le> sint v \<and> sint v < 0x2000000 then Some (signed_drop_bit 2 v AND 0xffffff) else None)"
proof -
  let ?s = "signed_drop_bit 2 v"
  have s: "sint ?s = sint v div 4" by (simp add: sint_signed_drop_bit_eq drop_bit_eq_div)
  have r: "- (2 ^ 31) \<le> sint v" "sint v < 2 ^ 31" using sint_greater_eq [of v] sint_less [of v] by simp_all
  have "uint (?s + 0x800000) = (sint ?s + 0x800000) mod 2 ^ 32"
    using uint_word_of_int [of "sint ?s + 0x800000", where ?'a = 32] by simp
  then have u: "uint (?s + 0x800000) = (sint v div 4 + 0x800000) mod 4294967296" using s by simp
  have "uint (?s + 0x800000) < 0x1000000 \<longleftrightarrow> - 0x2000000 \<le> sint v \<and> sint v < 0x2000000"
  proof -
    define q where "q = sint v div 4"
    have q: "- 0x20000000 \<le> q" "q < 0x20000000" "- 0x800000 \<le> q \<longleftrightarrow> - 0x2000000 \<le> sint v"
      "q < 0x800000 \<longleftrightarrow> sint v < 0x2000000"
      using r unfolding q_def by auto
    have "(q + 0x800000) mod 4294967296 = (if - 0x800000 \<le> q then q + 0x800000 else q + 0x800000 + 4294967296)"
      using q(1,2) mod_pos_pos_trivial [of "q + 0x800000 + 4294967296" 4294967296]
        mod_add_self2 [of "q + 0x800000" 4294967296]
      by (auto simp del: mod_add_self2 simp: mod_pos_pos_trivial)
    then show ?thesis unfolding u q_def [symmetric] using q by auto
  qed
  then show ?thesis by (auto simp: arm_pc24_def Let_def word_le_def not_le word_less_def)
qed

lemma arm_branch_of_pc24:
  assumes "arm_pc24 v = Some imm"
  shows "sint (arm_branch (arm_insn insn imm)) = 4 * (sint v div 4)"
    and "arm_insn insn imm AND 0xff000000 = insn AND 0xff000000"
proof -
  let ?s = "signed_drop_bit 2 v"
  have v: "- 0x2000000 \<le> sint v" "sint v < 0x2000000" and imm: "imm = ?s AND 0xffffff"
    using assms by (auto simp: arm_pc24_range split: if_splits)
  show "arm_insn insn imm AND 0xff000000 = insn AND 0xff000000" unfolding imm
    by (rule bit_word_eqI) (auto simp: bit_arm_insn arm_masks bit_simps)
  have s: "sint ?s = sint v div 4" by (simp add: sint_signed_drop_bit_eq drop_bit_eq_div)
  then have "signed_take_bit 23 (sint ?s) = sint ?s" using v by (simp add: signed_take_bit_int_eq_self_iff) linarith
  then have h: "bit ?s n = bit ?s 23" if "23 \<le> n" "n < 32" for n
    using that bit_signed_take_bit_iff [of 23 "sint ?s" n] by (simp add: bit_sint_iff min_def)
  have "arm_branch (arm_insn insn imm) = push_bit 2 ?s"
  proof (rule bit_word_eqI)
    fix n assume n: "n < LENGTH(32)"
    show "bit (arm_branch (arm_insn insn imm)) n = bit (push_bit 2 ?s) n"
      using n h [of "n - 2"]
      by (cases "n < 26") (auto simp: bit_arm_branch bit_arm_insn imm arm_masks bit_push_bit_iff bit_and_iff bit_mask_iff bit_imp_le_length)
  qed
  moreover have "sint (push_bit 2 ?s) = 4 * sint ?s"
  proof -
    have "sint (word_of_int k :: u32) = signed_take_bit 31 k" for k by (simp add: signed_of_int)
    from this [of "4 * sint ?s"] have "sint (push_bit 2 ?s) = signed_take_bit 31 (4 * sint ?s)"
      by (simp add: push_bit_eq_mult mult.commute)
    moreover have "signed_take_bit 31 (4 * sint ?s) = 4 * sint ?s"
      using v s by (simp add: signed_take_bit_int_eq_self_iff) linarith
    ultimately show ?thesis by simp
  qed
  ultimately show "sint (arm_branch (arm_insn insn imm)) = 4 * (sint v div 4)" using s by simp
qed

section \<open>Handlers change only their cell\<close>

text \<open>The word a handler for REL sections writes: of a TLS descriptor it is the second.\<close>

definition arm_cell :: "elf_rel \<Rightarrow> u64" where
  "arm_cell r = (if GELF_R_TYPE (r_info r) = R_ARM_TLS_DESC then r_offset r + 4 else r_offset r)"

lemma arm_tlsdesc_cell:
  "wf_dso d \<Longrightarrow> keeps d (a + 4) 4 snd (arm_prelink_tlsdesc d a)"
  "wf_dso d \<Longrightarrow> arm_prelink_tlsdesc d a = Some (rc, d1) \<Longrightarrow> within d d1 (a + 4) 4"
  unfolding arm_prelink_tlsdesc_def
  by ((rule keeps_rules | simp)+) (auto simp: opt_simps intro: ne_read_then split: if_splits)

lemma arm_prelink_rel_keeps:
  assumes "wf_dso d"
  shows "keeps d (arm_cell r) 4 (\<lambda>r. snd (snd r)) (arm_prelink_rel pi d r ra)"
proof (cases "GELF_R_TYPE (r_info r) = R_ARM_TLS_DESC")
  case True
  then show ?thesis
    using keeps_bind [OF arm_tlsdesc_cell(1) [OF assms, of "r_offset r"], of "\<lambda>r. snd (snd r)" "\<lambda>(rc, d). Some (rc, r, d)"]
    by (simp add: arm_prelink_rel_def arm_cell_def r_arm keeps_Some)
next
  case False
  then show ?thesis
    using assms unfolding arm_prelink_rel_def arm_cell_def Let_def by - (rule keeps_rules | simp)+
qed

lemma arm_prelink_within:
  assumes "wf_dso d" and "arm_prelink_rel pi d r ra = Some (rc, r', d1)"
  shows "within d d1 (arm_cell r) 4 \<and> only_cell d d1 (arm_cell r) 4 \<and> (GELF_R_TYPE (r_info r) \<noteq> R_ARM_ABS32 \<longrightarrow> r' = r)"
proof -
  have "within d d1 (arm_cell r) 4 \<and> (GELF_R_TYPE (r_info r) \<noteq> R_ARM_ABS32 \<longrightarrow> r' = r)"
    using assms by (auto simp: arm_prelink_rel_def arm_cell_def Let_def opt_simps r_arm
      intro: ne_read_then arm_tlsdesc_cell(2) ne_within split: if_splits)
  then show ?thesis using keepsD [OF arm_prelink_rel_keeps [OF assms(1)] assms(2)] by simp
qed

lemma arm_undo_cases:
  "arm_undo_glob_dat = undo_glob_dat write_ne32 R_ARM_ABS32"
  "arm_undo_jump_slot = undo_jump_slot read_une32 write_ne32 (\<lambda>x data. data)"
  by (intro ext, simp add: arm_undo_glob_dat_def undo_glob_dat_def)
    (intro ext, simp only: arm_undo_jump_slot_def undo_jump_slot_def)

section \<open>Undo after prelink\<close>


text \<open>A prelinked \<^verbatim>\<open>R_ARM_ABS32\<close> outside \<^verbatim>\<open>.got\<close> becomes \<^verbatim>\<open>R_ARM_GLOB_DAT\<close>, and undoing gives it back.\<close>

lemma arm_undo_restores_abs32:
  assumes wf: "wf_dso d" and ready: "undo_ready d" and t: "GELF_R_TYPE (r_info r) = R_ARM_ABS32"
    and p: "arm_prelink_rel pi d r ra = Some (2, r', d1)"
    and s: "sec_of d (r_offset r) = Some i" "sec_name_is d i ''.got'' = Some False"
  shows "\<exists>e. arm_undo_prelink_rel d1 r' ra' = Some (2, r, e) \<and> same_img d e"
proof -
  obtain d0 where rd: "read_une32 d (r_offset r) = Some (0, d0)"
    and r': "r' = r\<lparr>r_info := GELF_R_INFO (GELF_R_SYM (r_info r)) R_ARM_GLOB_DAT\<rparr>"
    using p t by (auto simp: arm_prelink_rel_def Let_def r_arm opt_simps split: if_splits)
  have "arm_cell r = r_offset r" using t by (simp add: arm_cell_def r_arm)
  then have w: "within d d1 (r_offset r) 4" "only_cell d d1 (r_offset r) 4"
    using arm_prelink_within [OF wf p] by simp_all
  have "GELF_R_TYPE (r_info r') = R_ARM_GLOB_DAT" unfolding r' by (simp add: GELF_R_retype r_arm)
  then have "arm_undo_prelink_rel d1 r' ra' = undo_glob_dat write_ne32 R_ARM_ABS32 d1 r'"
    by (simp add: arm_undo_prelink_rel_def arm_undo_cases r_arm)
  then show ?thesis
    using ne_cell.undo_glob_dat_restores [OF wf ready t rd w _ s, of R_ARM_GLOB_DAT] r'
    by (simp add: R_ARM_GLOB_DAT_def)
qed

section \<open>The way through RELA\<close>

text \<open>C16: a relocation that needs its addend, a branch included, survives the way through RELA: converted to
  RELA, prelinked and converted back, it is the original relocation and the image is the original image.\<close>

theorem arm_rela_and_back:
  assumes wf: "wf_dso d"
    and t: "arm_addend_type (GELF_R_TYPE (r_info r)) \<or> GELF_R_TYPE (r_info r) = R_ARM_PC24"
    and c: "arm_rel_to_rela d r rela0 = Some (rc, rela, d0)"
    and p: "arm_prelink_rela pi d0 rela ra = Some (0, rela', d1)"
  shows "rela' = rela \<and> (\<exists>e. arm_rela_to_rel d1 rela' rel0 = Some (0, r, e) \<and> same_img d e)"
proof -
  let ?a = "r_offset r"
  obtain v where v: "read_une32 d ?a = Some (v, d0)" "ra_offset rela = ?a" "ra_info rela = r_info r"
      "ra_addend rela = scast (if GELF_R_TYPE (r_info r) = R_ARM_PC24 then arm_branch v else v)"
    using c t by (auto simp: arm_rel_to_rela_def Let_def arm_addend_type_def r_arm opt_simps split: if_splits)
  have d0: "d0 = touch d ?a" "wf_dso d0" using ne_read_touch [OF wf v(1)] wf by simp_all
  obtain x e0 where e0: "write_ne32 d ?a v = Some (x, e0)" "same_img d e0"
    using write_back_une32 [OF wf v(1)] by blast
  have r: "rel0\<lparr>r_offset := ?a, r_info := r_info r\<rparr> = r" by (cases r; cases rel0) simp
  have fin: ?thesis if w: "within d0 d1' ?a 4" and q: "rela' = rela"
    "arm_rela_to_rel d1 rela rel0 = do { (_, d) \<leftarrow> write_ne32 d1' ?a v; Some (0, r, d) }" for d1'
  proof -
    obtain e where "write_ne32 d1' ?a v = Some (x, e)" "same_img e0 e"
      using ne_replace [OF wf e0(1)] within_touch_left w d0(1) by blast
    then show ?thesis using q same_img_trans [OF e0(2)] by simp
  qed
  show ?thesis
  proof (cases "GELF_R_TYPE (r_info r) = R_ARM_PC24")
    case False
    then have "within d0 d1 ?a 4" "rela' = rela"
      using p t d0(2) v(2,3) by (auto simp: arm_prelink_rela_def arm_addend_type_def Let_def r_arm opt_simps
        dest: ne_within split: if_splits prod.splits option.splits)
    moreover have "arm_rela_to_rel d1 rela rel0 = do { (_, d) \<leftarrow> write_ne32 d1 ?a v; Some (0, r, d) }"
      using v t False by (auto simp: r arm_rela_to_rel_def ucast_scast32 Let_def arm_addend_type_def r_arm)
    ultimately show ?thesis by (rule fin)
  next
    case True
    have v1: "read_une32 d0 ?a = Some (v, touch d0 ?a)" using ne_read_again [OF wf v(1)] d0(1) by simp
    obtain imm z y where i: "arm_pc24 z = Some imm" and w: "write_ne32 (touch d0 ?a) ?a (arm_insn v imm) = Some (y, d1)"
      and q: "rela' = rela"
      using p True v1 v(2,3) by (auto simp: arm_prelink_rela_def Let_def r_arm opt_simps
        split: option.splits prod.splits)
    have d1: "within d0 d1 ?a 4" using ne_read_then(2) [OF d0(2) v1 w] .
    obtain u where u: "read_une32 d1 ?a = Some (u, touch d1 ?a)" "u AND 0xff000000 = v AND 0xff000000"
    proof -
      note rd = ne_write_read [OF wf_touch [OF d0(2)] ne_read_again [OF d0(2) v1] w]
      show thesis
        using that rd ne_read_touch [of d1 ?a] within_img [OF d1] arm_branch_of_pc24(2) [OF i] by (auto split: if_splits)
    qed
    have "arm_rela_to_rel d1 rela rel0 = do { (_, d) \<leftarrow> write_ne32 (touch d1 ?a) ?a v; Some (0, r, d) }"
      using True v(2-4) u(1) arm_insn_back [OF u(2)] by (simp add: r arm_rela_to_rel_def Let_def arm_addend_type_def r_arm)
    with within_touch_right [OF d1] q show ?thesis by (rule fin)
  qed
qed
section \<open>Branches\<close>

text \<open>C17: a branch relocation is refused, and the object left alone, when the distance to the target does not
  fit into 26 signed bits; otherwise the instruction keeps its opcode byte, the displacement it decodes to is
  the distance (to a multiple of four), and nothing but the instruction is changed.\<close>

theorem arm_prelink_branch:
  assumes "wf_dso d" and "GELF_R_TYPE (ra_info r) = R_ARM_PC24" and "locate d (ra_offset r) \<noteq> None"
    and "read_une32 d (ra_offset r) = Some (insn, d0)"
    and "dist = sint (ucast (fst (resolve pi (GELF_R_SYM (ra_info r)) R_ARM_PC24) + ra_addend r - ra_offset r) :: u32)"
  shows "if dist < - 0x2000000 \<or> dist \<ge> 0x2000000 then arm_prelink_rela pi d r ra = Some (1, r, d)
    else \<exists>d1 insn' d2. arm_prelink_rela pi d r ra = Some (0, r, d1) \<and> only_cell d d1 (ra_offset r) 4
      \<and> read_une32 d1 (ra_offset r) = Some (insn', d2)
      \<and> insn' AND 0xff000000 = insn AND 0xff000000 \<and> sint (arm_branch insn') = 4 * (dist div 4)"
proof -
  let ?a = "ra_offset r"
  let ?v = "ucast (fst (resolve pi (GELF_R_SYM (ra_info r)) R_ARM_PC24) + ra_addend r - ?a) :: u32"
  have run: "arm_prelink_rela pi d r ra = (case arm_pc24 ?v of None \<Rightarrow> Some (1, r, d)
      | Some imm \<Rightarrow> do { (insn, d) \<leftarrow> read_une32 d ?a; (_, d) \<leftarrow> write_ne32 d ?a (arm_insn insn imm); Some (0, r, d) })"
    using assms(2) by (simp add: arm_prelink_rela_def Let_def r_arm split_beta)
  show ?thesis
  proof (cases "arm_pc24 ?v")
    case None
    then have "dist < - 0x2000000 \<or> dist \<ge> 0x2000000"
      unfolding assms(5) by (simp add: arm_pc24_range not_le not_less split: if_splits)
    then show ?thesis using run None by simp
  next
    case (Some imm)
    have range: "\<not> (dist < - 0x2000000 \<or> dist \<ge> 0x2000000)"
      unfolding assms(5) using Some by (simp add: arm_pc24_range split: if_splits)
    have d0: "d0 = touch d ?a" "wf_dso d0" "read_une32 d0 ?a = Some (insn, touch d0 ?a)"
      using ne_read_touch [OF assms(1,4)] ne_read_again [OF assms(1,4)] assms(1) by simp_all
    obtain x d1 where w: "write_ne32 d0 ?a (arm_insn insn imm) = Some (x, d1)"
      using ne_write_defined [OF d0(2,3)] by blast
    have c: "only_cell d d1 ?a 4"
      using only_cell_trans [OF only_cell_touch [OF assms(1)] ne_only [OF d0(2) w, unfolded d0(1)]] .
    obtain d2 where "read_une32 d1 ?a = Some (arm_insn insn imm, d2)"
      using ne_write_read [OF d0(2,3) w] assms(3) d0(1) by auto
    then show ?thesis
      using run Some range w c assms(4,5) arm_branch_of_pc24 [OF Some, of insn] by auto
  qed
qed

section \<open>Replaying conflicts\<close>

definition arm_applied :: "u64 \<Rightarrow> bool" where
  "arm_applied t \<longleftrightarrow> t = R_ARM_GLOB_DAT \<or> t = R_ARM_JUMP_SLOT \<or> t = R_ARM_ABS32"

lemma arm_entry_replay:
  assumes "arm_applied (GELF_R_TYPE (ra_info r))" and "\<not> ifunc c"
    and "arm_conflict_entry_rela d pi (Some c) r val = Some (0, e, d')"
  shows "d' = d \<and> ra_offset e = ra_offset r \<and> buf_result (arm_apply_conflict_rela pi2 d e buf dest)
      = buf_result (arm_apply_rela (pi3\<lparr>resolve := \<lambda>_ _. (val, None)\<rparr>) d r buf)"
  using assms(1) unfolding arm_applied_def
  by (elim disjE; use assms(2,3) in \<open>auto simp: arm_conflict_entry_rela_def arm_apply_rela_def
      arm_apply_conflict_rela_def conflict_ifunc_def GELF_R_TYPE_INFO0 r_arm bind_Some_map
      buf_result_def option.map_comp comp_def\<close>)

interpretation arm_conflicts: conflict_target arm_reloc_class
  "\<lambda>t. t = R_ARM_RELATIVE \<or> t = R_ARM_NONE" "\<lambda>t. t = R_ARM_TLS_DTPMOD32 \<or> t = R_ARM_TLS_TPOFF32"
  "\<lambda>t. t = R_ARM_IRELATIVE \<or> t = R_ARM_TLS_DESC" "\<lambda>t. t = R_ARM_TLS_DTPOFF32" arm_applied
  arm_conflict_entry_rela arm_prelink_conflict_rela arm_apply_conflict_rela arm_apply_rela
proof (unfold_locales, goal_cases)
  case 1
  show ?case by (simp only: arm_prelink_conflict_rela_def)
next
  case (2 t)
  then show ?case by (auto simp: arm_applied_def r_arm)
next
  case 3
  then show ?case by (rule arm_entry_replay)
qed

section \<open>Evaluations\<close>

text \<open>A big-endian object.\<close>

definition sample_arm_dso :: dso where
  "sample_arm_dso = sample_dso\<lparr>ehdr := sample_ehdr\<lparr>ei_class := ELFCLASS32, ei_data := ELFDATA2MSB,
     e_machine := EM_ARM\<rparr>, info_DT_TLSDESC_PLT := 0x400\<rparr>"

lemma sample_arm_ok: "wf_dso sample_arm_dso" "undo_ready sample_arm_dso"
  by (simp_all add: wf_dso_def sample_upt sample_arm_dso_def sample_defs sec_disj_def sec_live_def RELOCATE_SCN_def
      elf_consts wf_block_def undo_ready_def)

lemmas arm_exec = arch_exec sample_arm_dso_def sample_rel_def r_arm Let_def read_une32_def write_ne32_def
  read_ube32_def write_be32_def


theorem arm_rela_and_back_witness:
  "\<exists>rela d0 d1 e. arm_rel_to_rela sample_arm_dso (sample_rel 1 0x408) zero_rela = Some (0, rela, d0)
     \<and> arm_prelink_rela sample_info d0 rela 0 = Some (0, rela, d1)
     \<and> arm_rela_to_rel d1 rela (sample_rel 0 0) = Some (0, sample_rel 1 0x408, e) \<and> same_img sample_arm_dso e"
proof -
  let ?r = "sample_rel 1 0x408"
  have t: "arm_addend_type (GELF_R_TYPE (r_info ?r)) \<or> GELF_R_TYPE (r_info ?r) = R_ARM_PC24" by (simp add: arm_exec)
  obtain rela d0 where c: "arm_rel_to_rela sample_arm_dso ?r zero_rela = Some (0, rela, d0)"
    and x: "\<exists>d1. arm_prelink_rela sample_info d0 rela 0 = Some (0, rela, d1)"
    by (simp add: arm_rel_to_rela_def arm_prelink_rela_def arm_addend_type_def zero_rela_def arm_pc24_def arm_branch_def
        arm_insn_def arm_exec)
  from x obtain d1 where p: "arm_prelink_rela sample_info d0 rela 0 = Some (0, rela, d1)" ..
  from arm_rela_and_back [OF sample_arm_ok(1) t c p, of "sample_rel 0 0"] c p show ?thesis by blast
qed

theorem arm_prelink_branch_witness:
  "\<exists>d1 insn d2. arm_prelink_rela sample_info sample_arm_dso (sample_rela 1 0x408) 0 = Some (0, sample_rela 1 0x408, d1)
     \<and> read_une32 d1 0x408 = Some (insn, d2) \<and> insn AND 0xff000000 = 0x90000000 \<and> sint (arm_branch insn) = 0x1bfc"
proof -
  let ?r = "sample_rela 1 0x408"
  have r: "ra_offset ?r = 0x408" "GELF_R_SYM (ra_info ?r) = 0" "GELF_R_TYPE (ra_info ?r) = R_ARM_PC24"
    by (simp_all add: arm_exec)
  have l: "locate sample_arm_dso (ra_offset ?r) \<noteq> None"
    by (simp add: locate_def sec_of_def sec_holds_def RELOCATE_SCN_def elf_consts sample_arm_dso_def sample_defs sample_rela_def)
  obtain d0 where rd: "read_une32 sample_arm_dso (ra_offset ?r) = Some (0x90909090, d0)"
    by (simp add: arm_exec)
  have "sint (ucast (fst (resolve sample_info (GELF_R_SYM (ra_info ?r)) R_ARM_PC24) + ra_addend ?r - ra_offset ?r) :: u32)
      = 0x1bfc"
    unfolding r by (simp add: sample_info_def sample_rela_def)
  from arm_prelink_branch [OF sample_arm_ok(1) r(3) l rd this [symmetric], of 0] r(1) show ?thesis by auto
qed

end
