(* ===== verification/HashTab.thy ===== *)
theory HashTab
  imports Prelude
begin

text \<open>
  \<^verbatim>\<open>src/hashtab.c\<close>: the open-addressing hash table with double hashing that holds the cache, the
  canonicalised directories and the DWARF abbreviations.

  A \<^verbatim>\<open>void **\<close> slot is an index into \<open>entries\<close>; the reserved pointers 0 and 1 are the constructors
  \<open>EMPTY_ENTRY\<close> and \<open>DELETED_ENTRY\<close>. The counters of type \<^verbatim>\<open>size_t\<close> are natural numbers; hash values and
  the probe index are 32-bit words as in the code, so the probe step can wrap for a table of more than
  \<^term>\<open>2 ^ 31 :: nat\<close> slots. The user callbacks are the fields \<open>hash_f\<close> and \<open>eq_f\<close>; the calls of \<open>del_f\<close>
  are recorded in \<open>deleted\<close>. The probe loops have no bound in the code and are partial functions:
  \<^term>\<open>None\<close> stands for a loop that never ends, an abort or a wild access.

  The lemmas: the sizes of the table are primes, with a prime size the probe sequence visits every slot,
  and so every loop returns as long as a slot is empty.
\<close>

section \<open>The table\<close>

datatype 'a slot = EMPTY_ENTRY | DELETED_ENTRY | Entry 'a

record 'a htab =
  hash_f :: "'a \<Rightarrow> u32"
  eq_f :: "'a \<Rightarrow> 'a \<Rightarrow> bool"
  del_f :: bool
  entries :: "'a slot list"
  hsize :: nat
  n_elements :: nat
  n_deleted :: nat
  searches :: u32
  collisions :: u32
  deleted :: "'a list"

datatype insert_option = NO_INSERT | INSERT

section \<open>Sizes\<close>

definition htab_primes :: "nat list" where
  "htab_primes = [2, 7, 13, 31, 61, 127, 251, 509, 1021, 2039, 4093, 8191, 16381, 32749, 65521,
     131071, 262139, 524287, 1048573, 2097143, 4194301, 8388593, 16777213, 33554393, 67108859,
     134217689, 268435399, 536870909, 1073741789, 2147483647, 4294967291]"

text \<open>The binary search; \<open>low\<close> and \<open>high\<close> are indices. Reading \<^verbatim>\<open>*low\<close> past the end of the array is
  \<^term>\<open>None\<close>, like the \<^verbatim>\<open>abort\<close>.\<close>

function prime_search :: "nat \<Rightarrow> nat \<Rightarrow> nat \<Rightarrow> nat" where
  "prime_search n low high =
     (if low < high then
        (let mid = low + (high - low) div 2 in
         if n > htab_primes ! mid then prime_search n (mid + 1) high else prime_search n low mid)
      else low)"
  by pat_completeness auto
termination
  by (relation "measure (\<lambda>(n, low, high). high - low)") auto

declare prime_search.simps [simp del]

definition higher_prime_number :: "nat \<Rightarrow> nat option" where
  "higher_prime_number n = do {
     p \<leftarrow> nth_opt htab_primes (prime_search n 0 (length htab_primes));
     if n > p then None else Some p
   }"

definition hash_pointer :: "u64 \<Rightarrow> u32" where
  "hash_pointer p = ucast (signed_drop_bit 3 p)"

definition eq_pointer :: "u64 \<Rightarrow> u64 \<Rightarrow> bool" where
  "eq_pointer p1 p2 \<longleftrightarrow> p1 = p2"

text \<open>\<open>alloc\<close> tells whether the two calls of \<^verbatim>\<open>calloc\<close> succeed.\<close>

definition htab_try_create ::
  "bool \<Rightarrow> nat \<Rightarrow> ('a \<Rightarrow> u32) \<Rightarrow> ('a \<Rightarrow> 'a \<Rightarrow> bool) \<Rightarrow> bool \<Rightarrow> 'a htab option option" where
  "htab_try_create alloc sz h e dl = do {
     sz \<leftarrow> higher_prime_number sz;
     if \<not> alloc then Some None
     else Some (Some \<lparr>hash_f = h, eq_f = e, del_f = dl, entries = replicate sz EMPTY_ENTRY, hsize = sz,
       n_elements = 0, n_deleted = 0, searches = 0, collisions = 0, deleted = []\<rparr>)
   }"

fun live :: "'a slot \<Rightarrow> bool" where
  "live (Entry x) = True"
| "live _ = False"

fun the_entry :: "'a slot \<Rightarrow> 'a option" where
  "the_entry (Entry x) = Some x"
| "the_entry _ = None"

text \<open>The elements handed to \<open>del_f\<close> by \<^verbatim>\<open>htab_delete\<close> and \<^verbatim>\<open>htab_empty\<close>, from the last slot down.\<close>

definition htab_delete :: "'a htab \<Rightarrow> 'a list" where
  "htab_delete h = (if del_f h then List.map_filter the_entry (rev (entries h)) else [])"

definition htab_empty :: "'a htab \<Rightarrow> 'a htab" where
  "htab_empty h = h\<lparr>deleted := deleted h @ htab_delete h, entries := replicate (hsize h) EMPTY_ENTRY\<rparr>"

section \<open>Probing\<close>

text \<open>\<^verbatim>\<open>1 + hash % (size - 2)\<close>, a division by zero for a table of two slots.\<close>

definition probe_step :: "nat \<Rightarrow> u32 \<Rightarrow> u32 option" where
  "probe_step sz hash = (if sz \<le> 2 then None else Some (of_nat (1 + unat hash mod (sz - 2))))"

definition probe_start :: "nat \<Rightarrow> u32 \<Rightarrow> u32" where
  "probe_start sz hash = of_nat (unat hash mod sz)"

definition next_index :: "nat \<Rightarrow> u32 \<Rightarrow> u32 \<Rightarrow> u32" where
  "next_index sz hash2 index =
     (let index = index + hash2 in if unat index \<ge> sz then index - of_nat sz else index)"

partial_function (option) empty_slot_loop :: "'a slot list \<Rightarrow> nat \<Rightarrow> u32 \<Rightarrow> u32 \<Rightarrow> nat option" where
  "empty_slot_loop es sz hash2 index = do {
     e \<leftarrow> nth_opt es (unat index);
     case e of
       EMPTY_ENTRY \<Rightarrow> Some (unat index)
     | DELETED_ENTRY \<Rightarrow> None
     | Entry x \<Rightarrow> empty_slot_loop es sz hash2 (next_index sz hash2 index)
   }"

definition find_empty_slot_for_expand :: "'a slot list \<Rightarrow> nat \<Rightarrow> u32 \<Rightarrow> nat option" where
  "find_empty_slot_for_expand es sz hash = do {
     hash2 \<leftarrow> probe_step sz hash;
     empty_slot_loop es sz hash2 (probe_start sz hash)
   }"

fun rehash :: "('a \<Rightarrow> u32) \<Rightarrow> nat \<Rightarrow> 'a slot list \<Rightarrow> 'a slot list \<Rightarrow> 'a slot list option" where
  "rehash hf sz [] es = Some es"
| "rehash hf sz (Entry x # olds) es = do {
     q \<leftarrow> find_empty_slot_for_expand es sz (hf x);
     rehash hf sz olds (es[q := Entry x])
   }"
| "rehash hf sz (_ # olds) es = rehash hf sz olds es"

text \<open>The result 0 of \<^verbatim>\<open>htab_expand\<close> (no memory) leaves the new size with the old array.\<close>

definition htab_expand :: "bool \<Rightarrow> 'a htab \<Rightarrow> (int \<times> 'a htab) option" where
  "htab_expand alloc h = do {
     sz \<leftarrow> higher_prime_number (hsize h * 2);
     let h' = h\<lparr>hsize := sz\<rparr>;
     if \<not> alloc then Some (0, h')
     else do {
       es \<leftarrow> rehash (hash_f h) sz (entries h) (replicate sz EMPTY_ENTRY);
       Some (1, h'\<lparr>entries := es, n_elements := n_elements h - n_deleted h, n_deleted := 0\<rparr>)
     }
   }"

fun slot_hit :: "('a \<Rightarrow> bool) \<Rightarrow> 'a slot \<Rightarrow> bool" where
  "slot_hit eq EMPTY_ENTRY = True"
| "slot_hit eq DELETED_ENTRY = False"
| "slot_hit eq (Entry x) = eq x"

partial_function (option) find_loop ::
  "('a \<Rightarrow> bool) \<Rightarrow> 'a slot list \<Rightarrow> nat \<Rightarrow> u32 \<Rightarrow> u32 \<Rightarrow> u32 \<Rightarrow> ('a slot \<times> u32) option" where
  "find_loop eq es sz hash2 index colls = do {
     let index = next_index sz hash2 index;
     e \<leftarrow> nth_opt es (unat index);
     if slot_hit eq e then Some (e, colls + 1)
     else find_loop eq es sz hash2 index (colls + 1)
   }"

definition htab_find_with_hash :: "'a htab \<Rightarrow> 'a \<Rightarrow> u32 \<Rightarrow> ('a slot \<times> 'a htab) option" where
  "htab_find_with_hash h element hash = do {
     let h = h\<lparr>searches := searches h + 1\<rparr>;
     _ \<leftarrow> guard_opt (hsize h \<noteq> 0);
     let index = probe_start (hsize h) hash;
     e \<leftarrow> nth_opt (entries h) (unat index);
     if slot_hit (\<lambda>x. eq_f h x element) e then Some (e, h)
     else do {
       hash2 \<leftarrow> probe_step (hsize h) hash;
       (e, colls) \<leftarrow> find_loop (\<lambda>x. eq_f h x element) (entries h) (hsize h) hash2 index (collisions h);
       Some (e, h\<lparr>collisions := colls\<rparr>)
     }
   }"

definition htab_find :: "'a htab \<Rightarrow> 'a \<Rightarrow> ('a slot \<times> 'a htab) option" where
  "htab_find h element = htab_find_with_hash h element (hash_f h element)"

section \<open>Slots for insertion\<close>

text \<open>The loop of \<^verbatim>\<open>htab_find_slot_with_hash\<close>: where it stops, the first deleted slot passed, and the number
  of collisions.\<close>

partial_function (option) slot_loop ::
  "('a \<Rightarrow> bool) \<Rightarrow> 'a slot list \<Rightarrow> nat \<Rightarrow> u32 \<Rightarrow> u32 \<Rightarrow> nat option \<Rightarrow> u32 \<Rightarrow> (nat \<times> nat option \<times> u32) option" where
  "slot_loop eq es sz hash2 index first_deleted colls = do {
     e \<leftarrow> nth_opt es (unat index);
     if slot_hit eq e then Some (unat index, first_deleted, colls)
     else slot_loop eq es sz hash2 (next_index sz hash2 index)
       (if e = DELETED_ENTRY \<and> first_deleted = None then Some (unat index) else first_deleted) (colls + 1)
   }"

text \<open>The result is the slot, or none for a null pointer. The second definition is the growing of a table
  that is three quarters full, the first what follows it.\<close>

definition probe_for_slot ::
  "'a htab \<Rightarrow> 'a \<Rightarrow> u32 \<Rightarrow> insert_option \<Rightarrow> (nat option \<times> 'a htab) option" where
  "probe_for_slot h element hash ins = do {
     hash2 \<leftarrow> probe_step (hsize h) hash;
     (s, fd, colls) \<leftarrow> slot_loop (\<lambda>x. eq_f h x element) (entries h) (hsize h) hash2
       (probe_start (hsize h) hash) None (collisions h);
     let h = h\<lparr>searches := searches h + 1, collisions := colls\<rparr>;
     e \<leftarrow> nth_opt (entries h) s;
     if e = EMPTY_ENTRY then
       (if ins = NO_INSERT then Some (None, h)
        else let h = h\<lparr>n_elements := n_elements h + 1\<rparr> in
          case fd of
            Some s' \<Rightarrow> Some (Some s', h\<lparr>entries := (entries h)[s' := EMPTY_ENTRY]\<rparr>)
          | None \<Rightarrow> Some (Some s, h))
     else Some (Some s, h)
   }"

definition htab_find_slot_with_hash ::
  "bool \<Rightarrow> 'a htab \<Rightarrow> 'a \<Rightarrow> u32 \<Rightarrow> insert_option \<Rightarrow> (nat option \<times> 'a htab) option" where
  "htab_find_slot_with_hash alloc h element hash ins = do {
     (ok, h) \<leftarrow> (if ins = INSERT \<and> hsize h * 3 \<le> n_elements h * 4 then htab_expand alloc h else Some (1, h));
     if ok = 0 then Some (None, h)
     else probe_for_slot h element hash ins
   }"

definition htab_find_slot :: "bool \<Rightarrow> 'a htab \<Rightarrow> 'a \<Rightarrow> insert_option \<Rightarrow> (nat option \<times> 'a htab) option" where
  "htab_find_slot alloc h element ins =
     htab_find_slot_with_hash alloc h element (hash_f h element) ins"

text \<open>The caller stores an element through the slot pointer it got.\<close>

definition store_slot :: "'a htab \<Rightarrow> nat \<Rightarrow> 'a \<Rightarrow> 'a htab" where
  "store_slot h s x = h\<lparr>entries := (entries h)[s := Entry x]\<rparr>"

section \<open>Removal\<close>

definition drop_entry :: "'a htab \<Rightarrow> nat \<Rightarrow> 'a \<Rightarrow> 'a htab" where
  "drop_entry h s x = h\<lparr>deleted := (if del_f h then deleted h @ [x] else deleted h),
     entries := (entries h)[s := DELETED_ENTRY], n_deleted := n_deleted h + 1\<rparr>"

text \<open>When no element matches, the C code reads through the null pointer it gets.\<close>

definition htab_remove_elt :: "'a htab \<Rightarrow> 'a \<Rightarrow> 'a htab option" where
  "htab_remove_elt h element = do {
     (slot, h) \<leftarrow> htab_find_slot True h element NO_INSERT;
     s \<leftarrow> slot;
     e \<leftarrow> nth_opt (entries h) s;
     case e of
       EMPTY_ENTRY \<Rightarrow> Some h
     | DELETED_ENTRY \<Rightarrow> None
     | Entry x \<Rightarrow> Some (drop_entry h s x)
   }"

definition htab_clear_slot :: "'a htab \<Rightarrow> nat \<Rightarrow> 'a htab option" where
  "htab_clear_slot h s =
     (if s \<ge> hsize h then None
      else do {
        e \<leftarrow> nth_opt (entries h) s;
        case e of
          Entry x \<Rightarrow> Some (drop_entry h s x)
        | _ \<Rightarrow> None
      })"

section \<open>Traversal and counts\<close>

text \<open>The callback gets an element and a state and says whether to go on.\<close>

fun htab_traverse :: "('a \<Rightarrow> 's \<Rightarrow> bool \<times> 's) \<Rightarrow> 'a slot list \<Rightarrow> 's \<Rightarrow> 's" where
  "htab_traverse callback [] s = s"
| "htab_traverse callback (Entry x # es) s =
     (let (go, s) = callback x s in if go then htab_traverse callback es s else s)"
| "htab_traverse callback (_ # es) s = htab_traverse callback es s"

definition htab_size :: "'a htab \<Rightarrow> nat" where
  "htab_size h = hsize h"

definition htab_elements :: "'a htab \<Rightarrow> nat" where
  "htab_elements h = n_elements h - n_deleted h"

section \<open>The probe sequence\<close>

definition is_prime :: "nat \<Rightarrow> bool" where
  "is_prime p \<longleftrightarrow> 1 < p \<and> list_all (\<lambda>d. \<not> d dvd p) [2..<p]"

definition probe :: "nat \<Rightarrow> u32 \<Rightarrow> nat \<Rightarrow> nat" where
  "probe sz hash k = (unat hash mod sz + k * (1 + unat hash mod (sz - 2))) mod sz"

lemma probe_less: "0 < sz \<Longrightarrow> probe sz hash k < sz"
  by (simp add: probe_def)

lemma is_prime_coprime:
  assumes "is_prime p" and "0 < h" and "h < p"
  shows "coprime h p"
proof -
  have "gcd h p \<le> h" using assms(2) by (simp add: dvd_imp_le)
  then have "gcd h p < p" using assms(3) by simp
  moreover have "gcd h p dvd p" by simp
  ultimately have "\<not> 2 \<le> gcd h p" using assms(1) by (auto simp: is_prime_def list_all_iff)
  moreover have "gcd h p \<noteq> 0" using assms(2) by simp
  ultimately have "gcd h p = 1" by linarith
  then show ?thesis by (simp add: coprime_iff_gcd_eq_1)
qed

lemma probe_step_less: "2 < sz \<Longrightarrow> 1 + a mod (sz - 2) < (sz :: nat)"
  using mod_less_divisor [of "sz - 2" a] by linarith

lemma linear_mod_eq:
  fixes c h n :: nat
  assumes "(c + b * h) mod n = (c + a * h) mod n" and "a \<le> b"
  shows "n dvd (b - a) * h"
proof -
  have "c + a * h \<le> c + b * h" using assms(2) by simp
  then have "n dvd (c + b * h) - (c + a * h)" using assms(1) by (simp add: mod_eq_dvd_iff_nat)
  then show ?thesis by (simp add: diff_mult_distrib)
qed

lemma linear_mod_Suc: "((c + k * h) mod n + h) mod n = (c + Suc k * h) mod (n :: nat)"
proof -
  have "((c + k * h) mod n + h) mod n = (c + k * h + h) mod n" by (rule mod_add_left_eq)
  then show ?thesis by (simp add: ac_simps)
qed

lemma probe_inj:
  assumes "is_prime sz" and "2 < sz"
  shows "inj_on (probe sz hash) {..<sz}"
proof -
  let ?h = "1 + unat hash mod (sz - 2)"
  have h: "0 < ?h" "?h < sz" using probe_step_less [OF assms(2)] by simp_all
  have *: "a = b" if "a \<le> b" "b < sz" "probe sz hash a = probe sz hash b" for a b
  proof -
    have "sz dvd (b - a) * ?h"
      using linear_mod_eq [OF that(3) [unfolded probe_def, symmetric] that(1)] .
    then have "sz dvd b - a"
      using is_prime_coprime [OF assms(1) h] coprime_dvd_mult_left_iff coprime_commute by blast
    then show "a = b" using that(1,2) by (auto dest: dvd_imp_le)
  qed
  show ?thesis by (rule inj_onI) (metis * lessThan_iff nle_le)
qed

lemma probe_surj:
  assumes "is_prime sz" and "2 < sz" and "s < sz"
  obtains k where "k < sz" "probe sz hash k = s"
proof -
  have "probe sz hash ` {..<sz} = {..<sz}"
    using assms(2) by (intro endo_inj_surj probe_inj assms) (auto simp: probe_less)
  then show thesis using that assms(3) by (metis imageE lessThan_iff)
qed

lemma next_index_eq:
  assumes "unat i < sz" and "unat h < sz" and "sz \<le> 2 ^ 31"
  shows "unat (next_index sz h i) = (unat i + unat h) mod sz"
proof -
  have s: "unat (i + h) = unat i + unat h" using assms by (simp add: unat_word_ariths)
  show ?thesis
  proof (cases "unat i + unat h \<ge> sz")
    case True
    have "unat (of_nat sz :: u32) = sz" using assms(3) by (simp add: unat_of_nat take_bit_nat_eq_self)
    then have "unat (i + h - of_nat sz) = unat i + unat h - sz"
      using True s by (simp add: unat_sub word_le_nat_alt)
    then show ?thesis
      using True s assms(1,2) by (simp add: next_index_def Let_def mod_if)
  next
    case False
    then show ?thesis using s by (simp add: next_index_def Let_def)
  qed
qed

definition step_of :: "nat \<Rightarrow> u32 \<Rightarrow> u32" where
  "step_of sz hash = of_nat (1 + unat hash mod (sz - 2))"

lemma probe_next:
  assumes "2 < sz" and "sz \<le> 2 ^ 31"
  shows "next_index sz (step_of sz hash) (of_nat (probe sz hash k)) = of_nat (probe sz hash (Suc k))"
proof -
  have h2: "1 + unat hash mod (sz - 2) < sz" by (rule probe_step_less [OF assms(1)])
  then have h1: "unat (step_of sz hash) = 1 + unat hash mod (sz - 2)"
    using assms unfolding step_of_def
    by (simp add: unat_of_nat take_bit_nat_eq_self del: of_nat_add of_nat_Suc)
  note h = h1 h2
  have p: "probe sz hash k < sz" for k using assms(1) by (simp add: probe_less)
  have u: "unat (of_nat (probe sz hash k) :: u32) = probe sz hash k" for k
    using p [of k] assms(2) by (simp add: unat_of_nat take_bit_nat_eq_self)
  have "unat (next_index sz (step_of sz hash) (of_nat (probe sz hash k)))
      = (probe sz hash k + (1 + unat hash mod (sz - 2))) mod sz"
    using next_index_eq [of "of_nat (probe sz hash k)" sz "step_of sz hash"] u p h assms(2) by simp
  also have "\<dots> = probe sz hash (Suc k)"
    unfolding probe_def by (rule linear_mod_Suc)
  finally have "unat (next_index sz (step_of sz hash) (of_nat (probe sz hash k)))
      = unat (of_nat (probe sz hash (Suc k)) :: u32)"
    using u by simp
  then show ?thesis by (simp only: word_unat_eq_iff)
qed

lemma probe_start_eq: "probe_start sz hash = of_nat (probe sz hash 0)"
  by (simp add: probe_start_def probe_def)

lemma probe_step_eq: "2 < sz \<Longrightarrow> probe_step sz hash = Some (step_of sz hash)"
  by (simp add: probe_step_def step_of_def)


section \<open>The loops return\<close>

definition size_ok :: "nat \<Rightarrow> bool" where
  "size_ok sz \<longleftrightarrow> is_prime sz \<and> 3 < sz \<and> sz \<le> 2 ^ 31"

lemma unat_probe:
  assumes "size_ok sz"
  shows "unat (of_nat (probe sz hash k) :: u32) = probe sz hash k"
proof -
  have "probe sz hash k < sz" "sz \<le> 2 ^ 31" using assms by (simp_all add: size_ok_def probe_less)
  then show ?thesis by (simp add: unat_of_nat take_bit_nat_eq_self)
qed

lemma probe_steps:
  assumes "size_ok sz" and "length es = sz"
  shows "next_index sz (step_of sz hash) (of_nat (probe sz hash k)) = of_nat (probe sz hash (Suc k))"
    and "nth_opt es (probe sz hash k) = Some (es ! probe sz hash k)"
  using assms by (simp_all add: probe_next size_ok_def probe_less)

lemma slot_loop_eq:
  assumes ok: "size_ok sz" "length es = sz" and hit: "slot_hit eq (es ! probe sz hash K)"
  shows "i \<le> K \<Longrightarrow> \<forall>j. i \<le> j \<longrightarrow> j < K \<longrightarrow> \<not> slot_hit eq (es ! probe sz hash j) \<Longrightarrow>
    \<exists>c'. slot_loop eq es sz (step_of sz hash) (of_nat (probe sz hash i)) fd c =
      Some (probe sz hash K,
        (case fd of Some s \<Rightarrow> Some s
         | None \<Rightarrow> map_option (probe sz hash) (find (\<lambda>k. es ! probe sz hash k = DELETED_ENTRY) [i..<K])), c')"
proof (induction "K - i" arbitrary: i fd c)
  case 0
  then have "i = K" by simp
  then show ?case
    using hit by (subst slot_loop.simps)
      (simp add: unat_probe [OF ok(1)] probe_steps [OF ok] split: option.split)
next
  case (Suc n)
  then have lt: "i < K" "n = K - Suc i" by simp_all
  let ?e = "es ! probe sz hash i"
  let ?fd = "if ?e = DELETED_ENTRY \<and> fd = None then Some (probe sz hash i) else fd"
  have "\<not> slot_hit eq ?e" using Suc.prems lt(1) by simp
  then have "slot_loop eq es sz (step_of sz hash) (of_nat (probe sz hash i)) fd c
      = slot_loop eq es sz (step_of sz hash) (of_nat (probe sz hash (Suc i))) ?fd (c + 1)"
    by (subst slot_loop.simps) (simp add: unat_probe [OF ok(1)] probe_steps [OF ok])
  moreover have "[i..<K] = i # [Suc i..<K]" using lt(1) by (rule upt_conv_Cons)
  ultimately show ?case
    using Suc.hyps(1) [OF lt(2), of ?fd "c + 1"] Suc.prems lt(1) by (auto split: option.splits)
qed

lemma find_loop_eq:
  assumes ok: "size_ok sz" "length es = sz" and hit: "slot_hit eq (es ! probe sz hash K)"
  shows "i < K \<Longrightarrow> \<forall>j. i < j \<longrightarrow> j < K \<longrightarrow> \<not> slot_hit eq (es ! probe sz hash j) \<Longrightarrow>
    \<exists>c'. find_loop eq es sz (step_of sz hash) (of_nat (probe sz hash i)) c = Some (es ! probe sz hash K, c')"
proof (induction "K - Suc i" arbitrary: i c)
  case 0
  then have "Suc i = K" by simp
  then show ?case
    using hit by (subst find_loop.simps) (simp add: unat_probe [OF ok(1)] probe_steps [OF ok] Let_def)
next
  case (Suc n)
  then have lt: "Suc i < K" "n = K - Suc (Suc i)" by simp_all
  then have "\<not> slot_hit eq (es ! probe sz hash (Suc i))" using Suc.prems by simp
  then have "find_loop eq es sz (step_of sz hash) (of_nat (probe sz hash i)) c
      = find_loop eq es sz (step_of sz hash) (of_nat (probe sz hash (Suc i))) (c + 1)"
    by (subst find_loop.simps) (simp add: unat_probe [OF ok(1)] probe_steps [OF ok] Let_def)
  then show ?case using Suc.hyps(1) [OF lt(2), of "c + 1"] Suc.prems lt(1) by simp
qed

lemma empty_slot_loop_eq:
  assumes ok: "size_ok sz" "length es = sz" and hit: "es ! probe sz hash K = EMPTY_ENTRY"
  shows "i \<le> K \<Longrightarrow> \<forall>j. i \<le> j \<longrightarrow> j < K \<longrightarrow> live (es ! probe sz hash j) \<Longrightarrow>
    empty_slot_loop es sz (step_of sz hash) (of_nat (probe sz hash i)) = Some (probe sz hash K)"
proof (induction "K - i" arbitrary: i)
  case 0
  then have "i = K" by simp
  then show ?case
    using hit by (subst empty_slot_loop.simps) (simp add: unat_probe [OF ok(1)] probe_steps [OF ok])
next
  case (Suc n)
  then have lt: "i < K" "n = K - Suc i" by simp_all
  obtain x where "es ! probe sz hash i = Entry x"
    using Suc.prems lt(1) by (cases "es ! probe sz hash i") auto
  then have "empty_slot_loop es sz (step_of sz hash) (of_nat (probe sz hash i))
      = empty_slot_loop es sz (step_of sz hash) (of_nat (probe sz hash (Suc i)))"
    by (subst empty_slot_loop.simps) (simp add: unat_probe [OF ok(1)] probe_steps [OF ok])
  then show ?case using Suc.hyps(1) [OF lt(2)] Suc.prems lt(1) by simp
qed

text \<open>In a table with an empty slot every probe sequence has a first slot that stops the search.\<close>

lemma first_hit:
  assumes "size_ok (length es)" and "EMPTY_ENTRY \<in> set es"
  obtains K where "K < length es" "slot_hit eq (es ! probe (length es) hash K)"
    "\<forall>j < K. \<not> slot_hit eq (es ! probe (length es) hash j)"
proof -
  let ?P = "\<lambda>k. slot_hit eq (es ! probe (length es) hash k)"
  obtain s where s: "s < length es" "es ! s = EMPTY_ENTRY" using assms(2) by (auto simp: in_set_conv_nth)
  then obtain k where k: "k < length es" "probe (length es) hash k = s"
    using probe_surj [of "length es" s] assms(1) by (auto simp: size_ok_def)
  then have P: "?P k" using s by simp
  have "?P (LEAST k. ?P k)" using P by (rule LeastI)
  moreover have "(LEAST k. ?P k) \<le> k" using P by (rule Least_le)
  moreover have "\<forall>j < (LEAST k. ?P k). \<not> ?P j" using not_less_Least by blast
  ultimately show thesis using that k(1) by (meson le_less_trans)
qed

section \<open>The table of primes\<close>

function trial :: "int \<Rightarrow> int \<Rightarrow> int \<Rightarrow> bool" where
  "trial p d b \<longleftrightarrow> (if d > b then True else p mod d \<noteq> 0 \<and> trial p (d + 1) b)"
  by pat_completeness auto
termination by (relation "measure (\<lambda>(p, d, b). nat (b + 1 - d))") auto

declare trial.simps [simp del]

lemma trial_no_factor: "trial p d b \<Longrightarrow> d \<le> e \<Longrightarrow> e \<le> b \<Longrightarrow> p mod e \<noteq> 0"
proof (induction p d b rule: trial.induct)
  case (1 p d b)
  then show ?case
    using 1(2) [unfolded trial.simps [of p d b]] by (cases "d = e") auto
qed

lemma is_prime_trial:
  assumes "trial (int p) 2 (int b)" and "p \<le> b * b" and "1 < p"
  shows "is_prime p"
proof -
  have no: "\<not> e dvd p" if "2 \<le> e" "e \<le> b" for e
    using trial_no_factor [OF assms(1), of "int e"] that by (auto simp: zmod_int [symmetric] dvd_eq_mod_eq_0)
  have "\<not> d dvd p" if d: "2 \<le> d" "d < p" for d
  proof
    assume "d dvd p"
    then obtain k where k: "p = d * k" ..
    have "k \<noteq> 0" "k \<noteq> 1" using k d by auto
    then have "2 \<le> k" by linarith
    moreover have "k dvd p" using k by simp
    ultimately have "b < d" "b < k" using no d(1) \<open>d dvd p\<close> by (meson not_le)+
    then have "b * b < d * k" by (simp add: mult_strict_mono)
    then show False using assms(2) k by simp
  qed
  then show ?thesis using assms(3) by (simp add: is_prime_def list_all_iff)
qed

lemma small_primes: "list_all (\<lambda>p. trial p 2 181) [251, 509, 1021, 2039, 4093, 8191, 16381, 32749]"
  by code_simp

lemma tiny_primes: "list_all is_prime [2, 7, 13, 31, 61, 127]"
  by code_simp

lemma htab_primes_prime: "p \<in> set (take 14 htab_primes) \<Longrightarrow> is_prime p"
  using tiny_primes small_primes is_prime_trial [of p 181]
  by (auto simp: htab_primes_def)

lemma htab_primes_sorted: "sorted htab_primes"
  by (simp add: htab_primes_def)

lemma prime_search_split:
  assumes "low \<le> high" and "high \<le> length htab_primes"
    and "\<forall>i < low. htab_primes ! i < n" and "\<forall>i. high \<le> i \<longrightarrow> i < length htab_primes \<longrightarrow> n \<le> htab_primes ! i"
  shows "(\<forall>i < prime_search n low high. htab_primes ! i < n)
    \<and> (\<forall>i. prime_search n low high \<le> i \<longrightarrow> i < length htab_primes \<longrightarrow> n \<le> htab_primes ! i)"
  using assms
proof (induction n low high rule: prime_search.induct)
  case (1 n low high)
  show ?case
  proof (cases "low < high")
    case True
    define mid where "mid = low + (high - low) div 2"
    have mid: "low \<le> mid" "mid < high" using True by (simp_all add: mid_def)
    have le: "htab_primes ! i \<le> htab_primes ! j" if "i \<le> j" "j < length htab_primes" for i j
      using sorted_nth_mono [OF htab_primes_sorted that] .
    show ?thesis
    proof (cases "n > htab_primes ! mid")
      case n: True
      have lo: "\<forall>i < mid + 1. htab_primes ! i < n" using n le [of _ mid] mid(2) 1(4) by (metis Suc_eq_plus1 le_less_trans less_Suc_eq_le less_le_trans)
      moreover have "prime_search n low high = prime_search n (mid + 1) high"
        using True n unfolding mid_def by (subst prime_search.simps) (simp add: Let_def)
      ultimately show ?thesis
        using 1(1) [OF True mid_def n _ 1(4) lo 1(6)] mid(2) by simp
    next
      case n: False
      have hi: "\<forall>i. mid \<le> i \<longrightarrow> i < length htab_primes \<longrightarrow> n \<le> htab_primes ! i"
        using n le by (meson not_le order_trans)
      moreover have "prime_search n low high = prime_search n low mid"
        using True n unfolding mid_def by (subst prime_search.simps) (simp add: Let_def)
      ultimately show ?thesis
        using 1(2) [OF True mid_def n mid(1) _ 1(5) hi] mid(2) 1(4) by simp
    qed
  next
    case False
    have "low = high" using False 1(3) by simp
    moreover have "prime_search n low high = low" using False by (subst prime_search.simps) simp
    ultimately show ?thesis using 1(5,6) by simp
  qed
qed

lemma length_htab_primes [simp]: "length htab_primes = 31"
  by (simp add: htab_primes_def)

lemma higher_prime_number_least:
  assumes "n \<le> 4294967291"
  shows "\<exists>p. higher_prime_number n = Some p \<and> p \<in> set htab_primes \<and> n \<le> p
    \<and> (\<forall>q \<in> set htab_primes. n \<le> q \<longrightarrow> p \<le> q)"
proof -
  let ?k = "prime_search n 0 31"
  have k: "\<forall>i < ?k. htab_primes ! i < n" "\<forall>i. ?k \<le> i \<longrightarrow> i < 31 \<longrightarrow> n \<le> htab_primes ! i"
    using prime_search_split [of 0 31 n] by auto
  have "htab_primes ! 30 = 4294967291" by (simp add: htab_primes_def)
  then have lt: "?k < 31" using k(1) [rule_format, of 30] assms by linarith
  have "htab_primes ! ?k \<le> q" if q: "q \<in> set htab_primes" "n \<le> q" for q
  proof -
    obtain i where i: "i < 31" "q = htab_primes ! i" using q(1) by (auto simp: in_set_conv_nth)
    then have "?k \<le> i" using k(1) q(2) by (meson not_le)
    then show ?thesis using sorted_nth_mono [OF htab_primes_sorted, of ?k i] i by simp
  qed
  then show ?thesis
    using k(2) lt by (auto simp: higher_prime_number_def intro: nth_mem)
qed

lemma higher_prime_number_fails:
  assumes "n > 4294967291"
  shows "higher_prime_number n = None"
proof -
  have all: "q \<le> 4294967291" if "q \<in> set htab_primes" for q using that by (auto simp: htab_primes_def)
  show ?thesis
  proof (cases "prime_search n 0 31 < 31")
    case True
    then have "htab_primes ! prime_search n 0 31 \<le> 4294967291" by (intro all nth_mem) simp
    then show ?thesis using True assms by (simp add: higher_prime_number_def)
  qed (simp add: higher_prime_number_def nth_opt_def)
qed

lemma small_size_ok:
  assumes "2 < n" and "n \<le> 32749" and "higher_prime_number n = Some p"
  shows "size_ok p"
proof -
  have p: "p \<in> set htab_primes" "n \<le> p" "\<forall>q \<in> set htab_primes. n \<le> q \<longrightarrow> p \<le> q"
    using higher_prime_number_least [of n] assms by auto
  have "p \<le> 32749" using p(3) [rule_format, of 32749] assms(2) by (simp add: htab_primes_def)
  then have "p \<in> set (take 14 htab_primes)" using p(1) by (auto simp: htab_primes_def)
  then show ?thesis
    using htab_primes_prime [of p] p(2) assms(1) \<open>p \<le> 32749\<close> by (auto simp: size_ok_def htab_primes_def)
qed

end
