(* ===== verification/HashProps.thy ===== *)
theory HashProps
  imports HashTab
begin

text \<open>
  The invariant of the hash table of \<^verbatim>\<open>src/hashtab.c\<close> and what its operations do to the set of elements.

  The locale \<open>hash_ops\<close> is the contract of the callbacks: an equivalence that the hash function respects.
  Under it every slot is found again by the probe sequence of its element; creating, finding, inserting
  (with growing) and removing refine the operations of a set of elements up to the equivalence, and the
  load factor of 3/4 keeps a slot empty, so that every search ends.
\<close>

section \<open>The table invariant\<close>

text \<open>Every element is reached by its own probe sequence before an empty slot, and no two slots hold
  equal elements.\<close>

definition reachable :: "('a \<Rightarrow> u32) \<Rightarrow> 'a slot list \<Rightarrow> bool" where
  "reachable hf es \<longleftrightarrow> (\<forall>s x. s < length es \<longrightarrow> es ! s = Entry x \<longrightarrow>
     (\<exists>k < length es. probe (length es) (hf x) k = s
        \<and> (\<forall>j < k. es ! probe (length es) (hf x) j \<noteq> EMPTY_ENTRY)))"

definition distinct_eq :: "('a \<Rightarrow> 'a \<Rightarrow> bool) \<Rightarrow> 'a slot list \<Rightarrow> bool" where
  "distinct_eq eq es \<longleftrightarrow> (\<forall>s t x y. s < length es \<longrightarrow> t < length es \<longrightarrow> es ! s = Entry x \<longrightarrow>
     es ! t = Entry y \<longrightarrow> eq x y \<longrightarrow> s = t)"

definition tab_ok :: "('a \<Rightarrow> u32) \<Rightarrow> ('a \<Rightarrow> 'a \<Rightarrow> bool) \<Rightarrow> 'a slot list \<Rightarrow> bool" where
  "tab_ok hf eq es \<longleftrightarrow> size_ok (length es) \<and> reachable hf es \<and> distinct_eq eq es"

definition elems :: "'a slot list \<Rightarrow> 'a set" where
  "elems es = {x. Entry x \<in> set es}"

definition nlive :: "'a slot list \<Rightarrow> nat" where
  "nlive es = length (filter live es)"

definition nfull :: "'a slot list \<Rightarrow> nat" where
  "nfull es = length (filter (\<lambda>e. e \<noteq> EMPTY_ENTRY) es)"

lemma filter_update_count:
  "i < length xs \<Longrightarrow> length (filter P (xs[i := y])) + (if P (xs ! i) then 1 else 0)
     = length (filter P xs) + (if P y then 1 else 0)"
proof (induction xs arbitrary: i)
  case (Cons x xs)
  then show ?case by (cases i) auto
qed simp

lemma nfull_less_empty:
  assumes "nfull es < length es"
  shows "EMPTY_ENTRY \<in> set es"
proof (rule ccontr)
  assume "EMPTY_ENTRY \<notin> set es"
  then have "filter (\<lambda>e. e \<noteq> EMPTY_ENTRY) es = es" by (intro filter_True) auto
  then show False using assms by (simp add: nfull_def)
qed

lemma elems_iff: "x \<in> elems es \<longleftrightarrow> (\<exists>t < length es. es ! t = Entry x)"
  by (auto simp: elems_def in_set_conv_nth)

lemma elems_update_iff:
  assumes "s < length es"
  shows "x \<in> elems (es[s := e]) \<longleftrightarrow> e = Entry x \<or> (\<exists>t < length es. t \<noteq> s \<and> es ! t = Entry x)"
  unfolding elems_iff length_list_update using assms
  by (metis nth_list_update_eq nth_list_update_neq)

lemma elems_other:
  assumes "distinct_eq eq es" and "\<And>x. eq x x" and "s < length es"
  shows "(\<exists>t < length es. t \<noteq> s \<and> es ! t = Entry x) \<longleftrightarrow> x \<in> elems es \<and> es ! s \<noteq> Entry x"
proof
  assume "\<exists>t < length es. t \<noteq> s \<and> es ! t = Entry x"
  then obtain t where t: "t < length es" "t \<noteq> s" "es ! t = Entry x" by blast
  then have "es ! s \<noteq> Entry x"
    using assms(1) [unfolded distinct_eq_def, rule_format, of t s x x] assms(2,3) by auto
  then show "x \<in> elems es \<and> es ! s \<noteq> Entry x" using t by (auto simp: elems_iff)
next
  assume "x \<in> elems es \<and> es ! s \<noteq> Entry x"
  then show "\<exists>t < length es. t \<noteq> s \<and> es ! t = Entry x" by (auto simp: elems_iff)
qed

lemma elems_update:
  assumes "distinct_eq eq es" and "\<And>x. eq x x" and "s < length es"
  shows "elems (es[s := e]) = {x. e = Entry x} \<union> (elems es - {x. es ! s = Entry x})"
  using elems_update_iff [OF assms(3)] elems_other [OF assms] by blast

section \<open>Searching, inserting and clearing in the array\<close>

text \<open>What the user of a table promises of its callbacks.\<close>

locale hash_ops =
  fixes hf :: "'a \<Rightarrow> u32" and eq :: "'a \<Rightarrow> 'a \<Rightarrow> bool"
  assumes eq_refl: "eq x x" and eq_sym: "eq x y \<Longrightarrow> eq y x"
    and eq_trans: "eq x y \<Longrightarrow> eq y z \<Longrightarrow> eq x z" and eq_hash: "eq x y \<Longrightarrow> hf x = hf y"
begin

lemma hit_complete:
  assumes ok: "tab_ok hf eq es" and y: "y \<in> elems es" "eq y x"
    and K: "K < length es" "slot_hit (\<lambda>z. eq z x) (es ! probe (length es) (hf x) K)"
      "\<forall>j < K. \<not> slot_hit (\<lambda>z. eq z x) (es ! probe (length es) (hf x) j)"
  shows "es ! probe (length es) (hf x) K = Entry y"
proof -
  let ?p = "probe (length es) (hf x)"
  obtain t where t: "t < length es" "es ! t = Entry y" using y(1) by (auto simp: elems_iff)
  then have "\<exists>k < length es. probe (length es) (hf y) k = t
      \<and> (\<forall>j < k. es ! probe (length es) (hf y) j \<noteq> EMPTY_ENTRY)"
    using ok by (auto simp: tab_ok_def reachable_def)
  then obtain k where k: "?p k = t" "\<forall>j < k. es ! ?p j \<noteq> EMPTY_ENTRY"
    unfolding eq_hash [OF y(2)] by blast
  have "\<not> k < K" using K(3) k(1) t(2) y(2) by auto
  then have "es ! ?p K \<noteq> EMPTY_ENTRY" using k t(2) by (cases "K = k") auto
  then obtain z where z: "es ! ?p K = Entry z" "eq z x" using K(2) by (cases "es ! ?p K") auto
  have "?p K < length es" by (rule probe_less) (use t(1) in linarith)
  then have "?p K = t"
    using ok [unfolded tab_ok_def distinct_eq_def] z(1) t eq_trans [OF z(2) eq_sym [OF y(2)]] by auto
  then show ?thesis using t(2) by simp
qed

lemma insert_ok:
  assumes ok: "tab_ok hf eq es" and K: "K < length es" "es ! probe (length es) (hf x) K = EMPTY_ENTRY"
      "\<forall>j < K. \<not> slot_hit (\<lambda>z. eq z x) (es ! probe (length es) (hf x) j)"
    and k: "k \<le> K" "s = probe (length es) (hf x) k"
  shows "tab_ok hf eq (es[s := Entry x])"
proof -
  let ?p = "probe (length es)" and ?es = "es[s := Entry x]"
  have no: "\<not> eq y x" if "y \<in> elems es" for y
    using hit_complete [OF ok that _ K(1) _ K(3)] K(2) by auto
  have s: "s < length es" unfolding k(2) by (rule probe_less) (use K(1) in linarith)
  have keep: "?es ! i \<noteq> EMPTY_ENTRY" if "es ! i \<noteq> EMPTY_ENTRY" for i
    using that s by (cases "i = s") auto
  have "reachable hf ?es"
    unfolding reachable_def
  proof (intro allI impI)
    fix t y
    assume t: "t < length ?es" "?es ! t = Entry y"
    show "\<exists>k < length ?es. probe (length ?es) (hf y) k = t
        \<and> (\<forall>j < k. ?es ! probe (length ?es) (hf y) j \<noteq> EMPTY_ENTRY)"
    proof (cases "t = s")
      case True
      then have "y = x" using t s by simp
      moreover have "es ! ?p (hf x) j \<noteq> EMPTY_ENTRY" if "j < k" for j
        using K(3) [rule_format, of j] k(1) that by auto
      ultimately show ?thesis
        using True k K(1) keep by (intro exI [of _ k]) auto
    next
      case False
      then obtain m where "m < length es" "?p (hf y) m = t" "\<forall>j < m. es ! ?p (hf y) j \<noteq> EMPTY_ENTRY"
        using ok t unfolding tab_ok_def reachable_def by auto
      then show ?thesis using keep by (intro exI [of _ m]) auto
    qed
  qed
  moreover have "distinct_eq eq ?es"
    unfolding distinct_eq_def
  proof (intro allI impI)
    fix t u y z
    assume *: "t < length ?es" "u < length ?es" "?es ! t = Entry y" "?es ! u = Entry z" "eq y z"
    have e: "y \<in> elems es" if "t \<noteq> s" using * that by (auto simp: elems_iff)
    have f: "z \<in> elems es" if "u \<noteq> s" using * that by (auto simp: elems_iff)
    show "t = u"
    proof (cases "t = s \<or> u = s")
      case True
      then show ?thesis using * s e f no eq_sym by fastforce
    next
      case False
      then show ?thesis using * ok unfolding tab_ok_def distinct_eq_def by auto
    qed
  qed
  ultimately show ?thesis using ok by (simp add: tab_ok_def)
qed

lemma clear_ok:
  assumes ok: "tab_ok hf eq es" and s: "s < length es"
  shows "tab_ok hf eq (es[s := DELETED_ENTRY])"
proof -
  let ?es = "es[s := DELETED_ENTRY]"
  have keep: "?es ! i \<noteq> EMPTY_ENTRY" if "es ! i \<noteq> EMPTY_ENTRY" for i
    using that s by (cases "i = s") auto
  have old: "es ! t = Entry y" if "?es ! t = Entry y" for t y
    using that s by (cases "t = s") auto
  have "reachable hf ?es"
    using ok old keep unfolding tab_ok_def reachable_def length_list_update by metis
  moreover have "distinct_eq eq ?es"
    using ok old unfolding tab_ok_def distinct_eq_def length_list_update by blast
  ultimately show ?thesis using ok by (simp add: tab_ok_def)
qed

end

lemma distinct_eq_tl: "distinct_eq eq (e # es) \<Longrightarrow> distinct_eq eq es"
  unfolding distinct_eq_def by (metis Suc_less_eq length_Cons nat.inject nth_Cons_Suc)

lemma distinct_eq_hd:
  assumes "distinct_eq eq (Entry x # es)" and "y \<in> elems es"
  shows "\<not> eq x y"
proof
  assume "eq x y"
  obtain t where "t < length es" "es ! t = Entry y" using assms(2) by (auto simp: elems_iff)
  then show False
    using assms(1) [unfolded distinct_eq_def, rule_format, of 0 "Suc t" x y] \<open>eq x y\<close> by simp
qed

lemma nfull_no_deleted:
  assumes "DELETED_ENTRY \<notin> set es"
  shows "nfull es = nlive es"
  unfolding nfull_def nlive_def
proof (intro arg_cong [of _ _ length] filter_cong refl)
  fix e assume "e \<in> set es"
  then show "(e \<noteq> EMPTY_ENTRY) = live e" using assms by (cases e rule: slot.exhaust) auto
qed

context hash_ops
begin

lemma replace_ok:
  assumes ok: "tab_ok hf eq es" and s: "s < length es" "es ! s = Entry y" "eq y x"
  shows "tab_ok hf eq (es[s := Entry x])"
proof -
  let ?es = "es[s := Entry x]"
  have keep: "?es ! i \<noteq> EMPTY_ENTRY" if "es ! i \<noteq> EMPTY_ENTRY" for i
    using that s by (cases "i = s") auto
  have old: "\<exists>w. es ! t = Entry w \<and> eq w z" if "?es ! t = Entry z" for t z
    using that s eq_refl by (cases "t = s") auto
  have "reachable hf ?es"
    unfolding reachable_def
  proof (intro allI impI)
    fix t z
    assume "t < length ?es" "?es ! t = Entry z"
    moreover from this obtain w where w: "es ! t = Entry w" "eq w z" using old by blast
    ultimately have "\<exists>k < length es. probe (length es) (hf w) k = t
        \<and> (\<forall>j < k. es ! probe (length es) (hf w) j \<noteq> EMPTY_ENTRY)"
      using ok by (auto simp: tab_ok_def reachable_def)
    then show "\<exists>k < length ?es. probe (length ?es) (hf z) k = t
        \<and> (\<forall>j < k. ?es ! probe (length ?es) (hf z) j \<noteq> EMPTY_ENTRY)"
      unfolding eq_hash [OF w(2)] length_list_update using keep by blast
  qed
  moreover have "distinct_eq eq ?es"
    unfolding distinct_eq_def
  proof (intro allI impI)
    fix t u a b
    assume *: "t < length ?es" "u < length ?es" "?es ! t = Entry a" "?es ! u = Entry b" "eq a b"
    obtain v w where vw: "es ! t = Entry v" "eq v a" "es ! u = Entry w" "eq w b"
      using old * by meson
    have "eq v w" using eq_trans [OF eq_trans [OF vw(2) *(5)] eq_sym [OF vw(4)]] .
    then show "t = u" using ok [unfolded tab_ok_def distinct_eq_def] * vw(1,3) by auto
  qed
  ultimately show ?thesis using ok by (simp add: tab_ok_def)
qed

text \<open>Inserting the elements of an old array into a new one without deleted slots.\<close>

lemma expand_slot:
  assumes ok: "tab_ok hf eq es" and nd: "DELETED_ENTRY \<notin> set es" and e: "EMPTY_ENTRY \<in> set es"
    and new: "\<And>z. z \<in> elems es \<Longrightarrow> \<not> eq z x"
  obtains q where "find_empty_slot_for_expand es (length es) (hf x) = Some q" "q < length es"
    "es ! q = EMPTY_ENTRY" "tab_ok hf eq (es[q := Entry x])"
proof -
  let ?p = "probe (length es) (hf x)"
  have sz: "size_ok (length es)" using ok by (simp add: tab_ok_def)
  obtain K where K: "K < length es" "slot_hit (\<lambda>_. False) (es ! ?p K)"
      "\<forall>j < K. \<not> slot_hit (\<lambda>_. False) (es ! ?p j)"
    using first_hit [OF sz e] by metis
  have pl: "?p j < length es" for j using K(1) by (intro probe_less) linarith
  have nD: "es ! ?p j \<noteq> DELETED_ENTRY" for j using nd nth_mem [OF pl] by metis
  have hit: "es ! ?p K = EMPTY_ENTRY" using K(2) by (cases "es ! ?p K") auto
  have l: "live (es ! ?p j)" if "j < K" for j
    using K(3) that nD [of j] by (cases "es ! ?p j") auto
  have "empty_slot_loop es (length es) (step_of (length es) (hf x)) (of_nat (?p 0)) = Some (?p K)"
    by (rule empty_slot_loop_eq [OF sz refl hit]) (use l in auto)
  then have "find_empty_slot_for_expand es (length es) (hf x) = Some (?p K)"
    using sz by (simp add: find_empty_slot_for_expand_def probe_step_eq probe_start_eq size_ok_def)
  moreover have "\<not> slot_hit (\<lambda>z. eq z x) (es ! ?p j)" if j: "j < K" for j
  proof -
    obtain z where z: "es ! ?p j = Entry z" using l [OF j] by (cases "es ! ?p j") auto
    then have "z \<in> elems es" using pl by (auto simp: elems_iff)
    then show ?thesis using new z by simp
  qed
  then have "tab_ok hf eq (es[?p K := Entry x])"
    by (intro insert_ok [OF ok K(1) hit _ order_refl refl]) simp
  ultimately show thesis using that pl hit by blast
qed

lemma rehash_ok:
  assumes "tab_ok hf eq es" and "DELETED_ENTRY \<notin> set es" and "distinct_eq eq olds"
    and "\<And>y z. y \<in> elems olds \<Longrightarrow> z \<in> elems es \<Longrightarrow> \<not> eq z y"
    and "nlive olds + nlive es < length es"
  shows "\<exists>es'. rehash hf (length es) olds es = Some es' \<and> length es' = length es \<and> tab_ok hf eq es'
     \<and> DELETED_ENTRY \<notin> set es' \<and> elems es' = elems olds \<union> elems es \<and> nlive es' = nlive olds + nlive es"
  using assms
proof (induction olds arbitrary: es)
  case Nil
  then show ?case by (simp add: elems_def nlive_def)
next
  case (Cons o1 olds)
  have d: "distinct_eq eq olds" using Cons.prems(3) by (rule distinct_eq_tl)
  show ?case
  proof (cases o1)
    case (Entry x)
    have new: "\<And>z. z \<in> elems es \<Longrightarrow> \<not> eq z x" using Cons.prems(4) Entry by (simp add: elems_def)
    have e: "EMPTY_ENTRY \<in> set es"
      using nfull_less_empty [of es] Cons.prems(2,5) Entry nfull_no_deleted by fastforce
    obtain q where q: "find_empty_slot_for_expand es (length es) (hf x) = Some q" "q < length es"
        "es ! q = EMPTY_ENTRY" "tab_ok hf eq (es[q := Entry x])"
      using expand_slot [OF Cons.prems(1,2) e new] by metis
    let ?es = "es[q := Entry x]"
    have el: "elems ?es = insert x (elems es)"
      using elems_update [of eq es q "Entry x"] Cons.prems(1) eq_refl q(2,3) by (auto simp: tab_ok_def)
    have nl: "nlive ?es = Suc (nlive es)"
      using filter_update_count [OF q(2), of live "Entry x"] q(3) by (simp add: nlive_def)
    have nd: "DELETED_ENTRY \<notin> set ?es"
      using Cons.prems(2) set_update_subset_insert [of es q "Entry x"] by blast
    have xo: "\<not> eq x y" if "y \<in> elems olds" for y
      using distinct_eq_hd [OF Cons.prems(3) [unfolded Entry] that] .
    have "\<exists>es'. rehash hf (length ?es) olds ?es = Some es' \<and> length es' = length ?es \<and> tab_ok hf eq es'
     \<and> DELETED_ENTRY \<notin> set es' \<and> elems es' = elems olds \<union> elems ?es \<and> nlive es' = nlive olds + nlive ?es"
    proof (rule Cons.IH [OF q(4) nd d])
      show "\<not> eq z y" if "y \<in> elems olds" "z \<in> elems ?es" for y z
        using that xo Cons.prems(4) [of y z] unfolding el by (auto simp: elems_def)
      show "nlive olds + nlive ?es < length ?es"
        using Cons.prems(5) nl Entry by (simp add: nlive_def)
    qed
    then show ?thesis
      unfolding Entry using q(1) el nl by (auto simp: elems_def nlive_def)
  qed (use Cons.IH [OF Cons.prems(1,2) d] Cons.prems(4,5) in \<open>simp_all add: elems_def nlive_def\<close>)
qed

end

section \<open>The operations on a table\<close>

definition htab_ok :: "'a htab \<Rightarrow> bool" where
  "htab_ok h \<longleftrightarrow> tab_ok (hash_f h) (eq_f h) (entries h) \<and> hsize h = length (entries h)
     \<and> n_deleted h \<le> n_elements h \<and> nlive (entries h) = n_elements h - n_deleted h
     \<and> nfull (entries h) \<le> n_elements h \<and> n_elements h < hsize h"

definition same_table :: "'a htab \<Rightarrow> 'a htab \<Rightarrow> bool" where
  "same_table h h' \<longleftrightarrow> (\<exists>s c. h' = h\<lparr>searches := s, collisions := c\<rparr>)"

lemma same_table_fields [simp]:
  "same_table h h' \<Longrightarrow> entries h' = entries h" "same_table h h' \<Longrightarrow> hash_f h' = hash_f h"
  "same_table h h' \<Longrightarrow> eq_f h' = eq_f h" "same_table h h' \<Longrightarrow> hsize h' = hsize h"
  "same_table h h' \<Longrightarrow> n_elements h' = n_elements h" "same_table h h' \<Longrightarrow> n_deleted h' = n_deleted h"
  "same_table h h' \<Longrightarrow> del_f h' = del_f h" "same_table h h' \<Longrightarrow> deleted h' = deleted h"
  by (auto simp: same_table_def)

lemma htab_ok_empty_slot: "htab_ok h \<Longrightarrow> EMPTY_ENTRY \<in> set (entries h)"
  by (rule nfull_less_empty) (simp add: htab_ok_def)

lemma htab_ok_size: "htab_ok h \<Longrightarrow> size_ok (length (entries h)) \<and> hsize h = length (entries h)"
  by (simp add: htab_ok_def tab_ok_def)

definition user_ok :: "'a htab \<Rightarrow> bool" where
  "user_ok h \<longleftrightarrow> hash_ops (hash_f h) (eq_f h)"

lemma elems_unique:
  assumes "user_ok h" and "htab_ok h" and "y \<in> elems (entries h)" and "z \<in> elems (entries h)"
    and "eq_f h y x" and "eq_f h z x"
  shows "y = z"
proof -
  have "eq_f h y z"
    using assms(1,5,6) unfolding user_ok_def by (meson hash_ops.eq_sym hash_ops.eq_trans)
  moreover obtain s t where "s < length (entries h)" "entries h ! s = Entry y"
      "t < length (entries h)" "entries h ! t = Entry z"
    using assms(3,4) by (auto simp: elems_iff)
  ultimately have "Entry y = Entry z"
    using assms(2) by (metis htab_ok_def tab_ok_def distinct_eq_def)
  then show ?thesis by simp
qed

lemma same_table_ok: "htab_ok h \<Longrightarrow> same_table h h' \<Longrightarrow> htab_ok h'"
  by (simp add: htab_ok_def)

text \<open>What \<open>htab_find\<close> returns.\<close>

lemma find_with_hash:
  assumes ok: "htab_ok h" and K: "K < length (entries h)"
      "slot_hit (\<lambda>z. eq_f h z x) (entries h ! probe (length (entries h)) hash K)"
      "\<forall>j < K. \<not> slot_hit (\<lambda>z. eq_f h z x) (entries h ! probe (length (entries h)) hash j)"
  shows "\<exists>h'. htab_find_with_hash h x hash = Some (entries h ! probe (length (entries h)) hash K, h')
    \<and> same_table h h'"
proof -
  let ?n = "length (entries h)" and ?eq = "\<lambda>z. eq_f h z x"
  let ?p = "probe ?n hash"
  have sz: "size_ok ?n" "hsize h = ?n" using htab_ok_size [OF ok] by simp_all
  have gt: "2 < ?n" using sz(1) by (simp add: size_ok_def)
  have at: "nth_opt (entries h) (unat (of_nat (?p k) :: u32)) = Some (entries h ! ?p k)" for k
    using probe_steps(2) [OF sz(1) refl] unat_probe [OF sz(1)] by simp
  show ?thesis
  proof (cases K)
    case 0
    then have "htab_find_with_hash h x hash
        = Some (entries h ! ?p K, h\<lparr>searches := searches h + 1, collisions := collisions h\<rparr>)"
      using K gt at [of 0] sz(2) unfolding htab_find_with_hash_def
      by (auto simp: Let_def guard_opt_def probe_start_eq)
    then show ?thesis unfolding same_table_def by blast
  next
    case (Suc k)
    obtain c where c: "find_loop ?eq (entries h) ?n (step_of ?n hash) (of_nat (?p 0)) (collisions h)
        = Some (entries h ! ?p K, c)"
      using find_loop_eq [OF sz(1) refl K(2), of 0 "collisions h"] K(3) Suc by auto
    have "\<not> slot_hit ?eq (entries h ! ?p 0)" using K(3) Suc by simp
    then have "htab_find_with_hash h x hash
        = Some (entries h ! ?p K, h\<lparr>searches := searches h + 1, collisions := c\<rparr>)"
      using c gt at [of 0] sz(2) unfolding htab_find_with_hash_def
      by (auto simp: Let_def guard_opt_def probe_start_eq probe_step_eq)
    then show ?thesis unfolding same_table_def by blast
  qed
qed

lemma find_correct:
  assumes "user_ok h" and ok: "htab_ok h"
  shows "\<exists>e h'. htab_find h x = Some (e, h') \<and> same_table h h' \<and> htab_ok h' \<and>
    (case the_entry e of Some y \<Rightarrow> y \<in> elems (entries h) \<and> eq_f h y x
     | None \<Rightarrow> \<forall>y \<in> elems (entries h). \<not> eq_f h y x)"
proof -
  let ?es = "entries h"
  let ?p = "probe (length ?es) (hash_f h x)" and ?eq = "\<lambda>z. eq_f h z x"
  have tab: "tab_ok (hash_f h) (eq_f h) ?es" using ok by (simp add: htab_ok_def)
  obtain K where K: "K < length ?es" "slot_hit ?eq (?es ! ?p K)" "\<forall>j < K. \<not> slot_hit ?eq (?es ! ?p j)"
    using first_hit htab_ok_size [OF ok] htab_ok_empty_slot [OF ok] by metis
  obtain h' where h': "htab_find h x = Some (?es ! ?p K, h')" "same_table h h'"
    using find_with_hash [OF ok K] unfolding htab_find_def by blast
  have pl: "?p K < length ?es" using K(1) by (intro probe_less) linarith
  have "case the_entry (?es ! ?p K) of Some y \<Rightarrow> y \<in> elems ?es \<and> eq_f h y x
     | None \<Rightarrow> \<forall>y \<in> elems ?es. \<not> eq_f h y x"
  proof (cases "?es ! ?p K")
    case EMPTY_ENTRY
    then show ?thesis
      using hash_ops.hit_complete [OF assms(1) [unfolded user_ok_def] tab _ _ K] by auto
  next
    case (Entry y)
    then show ?thesis using K(2) pl by (auto simp: elems_iff)
  qed (use K(2) in auto)
  then show ?thesis using h' same_table_ok [OF ok h'(2)] by blast
qed


text \<open>The slot the search for insertion ends at.\<close>

lemma probe_insert:
  assumes us: "user_ok h" and ok: "htab_ok h" and room: "n_elements h + 1 < hsize h"
  shows "\<exists>s h'. probe_for_slot h x (hash_f h x) INSERT = Some (Some s, h') \<and> s < length (entries h)
    \<and> htab_ok (store_slot h' s x)
    \<and> elems (entries (store_slot h' s x)) = insert x {y \<in> elems (entries h). \<not> eq_f h y x}
    \<and> hash_f h' = hash_f h \<and> eq_f h' = eq_f h"
proof -
  let ?es = "entries h" and ?n = "length (entries h)" and ?eq = "\<lambda>z. eq_f h z x"
  let ?p = "probe ?n (hash_f h x)"
  have tab: "tab_ok (hash_f h) (eq_f h) ?es" using ok by (simp add: htab_ok_def)
  have sz: "size_ok ?n" "hsize h = ?n" using htab_ok_size [OF ok] by simp_all
  note user = us [unfolded user_ok_def]
  note el = elems_update [of "eq_f h" ?es, OF _ hash_ops.eq_refl [OF user]]
  have d: "distinct_eq (eq_f h) ?es" using tab by (simp add: tab_ok_def)
  obtain K where K: "K < ?n" "slot_hit ?eq (?es ! ?p K)" "\<forall>j < K. \<not> slot_hit ?eq (?es ! ?p j)"
    using first_hit sz htab_ok_empty_slot [OF ok] by metis
  define fd where "fd = map_option ?p (find (\<lambda>k. ?es ! ?p k = DELETED_ENTRY) [0..<K])"
  obtain c where c: "slot_loop ?eq ?es ?n (step_of ?n (hash_f h x)) (of_nat (?p 0)) None (collisions h)
      = Some (?p K, fd, c)"
    using slot_loop_eq [OF sz(1) refl K(2), of 0 None "collisions h"] K(3) unfolding fd_def by auto
  have pl: "?p j < ?n" for j using K(1) by (intro probe_less) linarith
  let ?h = "h\<lparr>searches := searches h + 1, collisions := c\<rparr>"
  have run: "probe_for_slot h x (hash_f h x) INSERT =
     (if ?es ! ?p K = EMPTY_ENTRY then
        (case fd of
           Some s' \<Rightarrow> Some (Some s', ?h\<lparr>n_elements := n_elements h + 1, entries := ?es[s' := EMPTY_ENTRY]\<rparr>)
         | None \<Rightarrow> Some (Some (?p K), ?h\<lparr>n_elements := n_elements h + 1\<rparr>))
      else Some (Some (?p K), ?h))"
    using c pl sz by (simp add: probe_for_slot_def probe_step_eq probe_start_eq Let_def size_ok_def
        split: option.split)
  show ?thesis
  proof (cases "?es ! ?p K = EMPTY_ENTRY")
    case False
    then obtain y where y: "?es ! ?p K = Entry y" "eq_f h y x" using K(2) by (cases "?es ! ?p K") auto
    have "tab_ok (hash_f h) (eq_f h) (?es[?p K := Entry x])"
      by (rule hash_ops.replace_ok [OF user tab pl y])
    moreover have "elems (?es[?p K := Entry x]) = insert x {z \<in> elems ?es. \<not> eq_f h z x}"
      using hash_ops.hit_complete [OF user tab _ _ K] y unfolding el [OF d pl] by auto
    moreover have "nlive (?es[?p K := Entry x]) = nlive ?es" "nfull (?es[?p K := Entry x]) = nfull ?es"
      using filter_update_count [OF pl [of K], of live "Entry x"]
        filter_update_count [OF pl [of K], of "\<lambda>e. e \<noteq> EMPTY_ENTRY" "Entry x"] y(1)
      by (simp_all add: nlive_def nfull_def)
    ultimately show ?thesis
      using ok False pl unfolding run by (simp add: htab_ok_def store_slot_def)
  next
    case True
    have none: "\<not> eq_f h y x" if "y \<in> elems ?es" for y
      using hash_ops.hit_complete [OF user tab that _ K] True by auto
    obtain k where k: "k \<le> K" "\<not> live (?es ! ?p k)"
        "probe_for_slot h x (hash_f h x) INSERT = Some (Some (?p k), ?h\<lparr>n_elements := n_elements h + 1,
           entries := (case fd of Some s' \<Rightarrow> ?es[s' := EMPTY_ENTRY] | None \<Rightarrow> ?es)\<rparr>)"
        "fd = None \<or> fd = Some (?p k)"
    proof (cases "find (\<lambda>k. ?es ! ?p k = DELETED_ENTRY) [0..<K]")
      case None
      then show thesis using that [of K] True unfolding run by (simp add: fd_def)
    next
      case (Some k)
      then have "k < K" "?es ! ?p k = DELETED_ENTRY" by (auto simp: find_Some_iff)
      then show thesis using that [of k] True Some unfolding run by (simp add: fd_def)
    qed
    have tab': "tab_ok (hash_f h) (eq_f h) (?es[?p k := Entry x])"
      by (rule hash_ops.insert_ok [OF user tab K(1) True K(3) k(1) refl])
    have "elems (?es[?p k := Entry x]) = insert x {z \<in> elems ?es. \<not> eq_f h z x}"
      using none k(2) unfolding el [OF d pl] by auto
    moreover have "nlive (?es[?p k := Entry x]) = nlive ?es + 1" "nfull (?es[?p k := Entry x]) \<le> nfull ?es + 1"
      using filter_update_count [OF pl [of k], of live "Entry x"] k(2)
        filter_update_count [OF pl [of k], of "\<lambda>e. e \<noteq> EMPTY_ENTRY" "Entry x"]
      by (simp_all add: nlive_def nfull_def)
    moreover have "(case fd of Some s' \<Rightarrow> ?es[s' := EMPTY_ENTRY] | None \<Rightarrow> ?es)[?p k := Entry x]
        = ?es[?p k := Entry x]"
      using k(4) by auto
    ultimately show ?thesis
      using ok tab' pl room unfolding k(3)
      by (auto simp: htab_ok_def store_slot_def Suc_diff_le split: option.split)
  qed
qed


lemma expand_ok:
  assumes us: "user_ok h" and ok: "htab_ok h" and sz: "higher_prime_number (hsize h * 2) = Some sz" "size_ok sz"
    "hsize h * 2 \<le> sz"
  shows "\<exists>h'. htab_expand True h = Some (1, h') \<and> htab_ok h' \<and> elems (entries h') = elems (entries h)
    \<and> hash_f h' = hash_f h \<and> eq_f h' = eq_f h \<and> hsize h' = sz \<and> n_elements h' = htab_elements h
    \<and> n_deleted h' = 0"
proof -
  let ?new = "replicate sz EMPTY_ENTRY :: 'a slot list"
  note user = us [unfolded user_ok_def]
  have tab: "tab_ok (hash_f h) (eq_f h) ?new"
    using sz(2) by (auto simp: tab_ok_def reachable_def distinct_eq_def)
  have nl: "nlive (entries h) < sz" using ok sz(3) by (auto simp: htab_ok_def)
  have "\<exists>es'. rehash (hash_f h) (length ?new) (entries h) ?new = Some es' \<and> length es' = length ?new
      \<and> tab_ok (hash_f h) (eq_f h) es' \<and> DELETED_ENTRY \<notin> set es' \<and> elems es' = elems (entries h) \<union> elems ?new
      \<and> nlive es' = nlive (entries h) + nlive ?new"
    by (rule hash_ops.rehash_ok [OF user tab])
      (use ok nl in \<open>auto simp: htab_ok_def tab_ok_def elems_def nlive_def\<close>)
  then obtain es' where es': "rehash (hash_f h) sz (entries h) ?new = Some es'" "length es' = sz"
      "tab_ok (hash_f h) (eq_f h) es'" "DELETED_ENTRY \<notin> set es'" "elems es' = elems (entries h)"
      "nlive es' = nlive (entries h)"
    by (auto simp: elems_def nlive_def)
  then show ?thesis
    using ok sz nl nfull_no_deleted [OF es'(4)]
    by (simp add: htab_expand_def Let_def htab_ok_def htab_elements_def)
qed

lemma insert_correct:
  assumes us: "user_ok h" and ok: "htab_ok h" and bound: "2 * hsize h \<le> 32749"
  shows "\<exists>s h'. htab_find_slot True h x INSERT = Some (Some s, h') \<and> htab_ok (store_slot h' s x)
    \<and> elems (entries (store_slot h' s x)) = insert x {y \<in> elems (entries h). \<not> eq_f h y x}
    \<and> hash_f h' = hash_f h \<and> eq_f h' = eq_f h"
proof (cases "hsize h * 3 \<le> n_elements h * 4")
  case False
  then have "n_elements h + 1 < hsize h" using ok by (auto simp: htab_ok_def tab_ok_def size_ok_def)
  then obtain s h' where "probe_for_slot h x (hash_f h x) INSERT = Some (Some s, h')"
      "htab_ok (store_slot h' s x)"
      "elems (entries (store_slot h' s x)) = insert x {y \<in> elems (entries h). \<not> eq_f h y x}"
      "hash_f h' = hash_f h" "eq_f h' = eq_f h"
    using probe_insert [OF us ok, of x] by blast
  then show ?thesis
    using False by (auto simp: htab_find_slot_def htab_find_slot_with_hash_def)
next
  case True
  have "2 < hsize h" using ok by (auto simp: htab_ok_def tab_ok_def size_ok_def)
  then have n: "2 < hsize h * 2" "hsize h * 2 \<le> 32749" "hsize h * 2 \<le> 4294967291" using bound by simp_all
  then obtain sz where sz: "higher_prime_number (hsize h * 2) = Some sz" "hsize h * 2 \<le> sz"
    using higher_prime_number_least by blast
  obtain h1 where h1: "htab_expand True h = Some (1, h1)" "htab_ok h1" "elems (entries h1) = elems (entries h)"
      "hash_f h1 = hash_f h" "eq_f h1 = eq_f h" "hsize h1 = sz" "n_elements h1 = htab_elements h"
    using expand_ok [OF us ok sz(1) small_size_ok [OF n(1,2) sz(1)] sz(2)] by metis
  have "n_elements h1 + 1 < hsize h1"
    using h1(6,7) sz(2) ok \<open>2 < hsize h\<close> by (auto simp: htab_elements_def htab_ok_def)
  moreover have "user_ok h1" using us h1(4,5) by (simp add: user_ok_def)
  ultimately obtain s h' where "probe_for_slot h1 x (hash_f h1 x) INSERT = Some (Some s, h')"
      "htab_ok (store_slot h' s x)"
      "elems (entries (store_slot h' s x)) = insert x {y \<in> elems (entries h1). \<not> eq_f h1 y x}"
      "hash_f h' = hash_f h1" "eq_f h' = eq_f h1"
    using probe_insert [of h1 x] h1(2) by blast
  then show ?thesis
    using True h1 by (auto simp: htab_find_slot_def htab_find_slot_with_hash_def)
qed

lemma clear_correct:
  assumes us: "user_ok h" and ok: "htab_ok h" and s: "s < hsize h" "entries h ! s = Entry x"
  shows "\<exists>h'. htab_clear_slot h s = Some h' \<and> htab_ok h' \<and> elems (entries h') = elems (entries h) - {x}
    \<and> htab_elements h = Suc (htab_elements h') \<and> deleted h' = deleted h @ (if del_f h then [x] else [])"
proof -
  let ?es = "(entries h)[s := DELETED_ENTRY]"
  note user = us [unfolded user_ok_def]
  have tab: "tab_ok (hash_f h) (eq_f h) (entries h)" and len: "s < length (entries h)"
    using ok s by (simp_all add: htab_ok_def)
  have "tab_ok (hash_f h) (eq_f h) ?es" by (rule hash_ops.clear_ok [OF user tab len])
  moreover have "elems ?es = elems (entries h) - {x}"
    using elems_update [of "eq_f h" "entries h" s, OF _ hash_ops.eq_refl [OF user] len] tab s(2) by (simp add: tab_ok_def)
  moreover have "nlive (entries h) = Suc (nlive ?es)" "nfull ?es = nfull (entries h)"
    using filter_update_count [OF len, of live DELETED_ENTRY] s(2)
      filter_update_count [OF len, of "\<lambda>e. e \<noteq> EMPTY_ENTRY" DELETED_ENTRY]
    by (simp_all add: nlive_def nfull_def)
  moreover have "n_elements h - n_deleted h = Suc (n_elements h - Suc (n_deleted h))"
  proof -
    have "nlive (entries h) = n_elements h - n_deleted h" using ok by (simp add: htab_ok_def)
    then show ?thesis using calculation(3) by linarith
  qed
  ultimately show ?thesis
    using ok s len by (simp add: htab_clear_slot_def drop_entry_def htab_ok_def htab_elements_def)
qed


lemma probe_no_insert:
  assumes us: "user_ok h" and ok: "htab_ok h"
  shows "\<exists>r h'. probe_for_slot h x (hash_f h x) NO_INSERT = Some (r, h') \<and> same_table h h' \<and>
    (case r of Some s \<Rightarrow> s < length (entries h) \<and> (\<exists>y. entries h ! s = Entry y \<and> eq_f h y x)
     | None \<Rightarrow> \<forall>y \<in> elems (entries h). \<not> eq_f h y x)"
proof -
  let ?es = "entries h" and ?n = "length (entries h)" and ?eq = "\<lambda>z. eq_f h z x"
  let ?p = "probe ?n (hash_f h x)"
  have tab: "tab_ok (hash_f h) (eq_f h) ?es" using ok by (simp add: htab_ok_def)
  have sz: "size_ok ?n" "hsize h = ?n" using htab_ok_size [OF ok] by simp_all
  obtain K where K: "K < ?n" "slot_hit ?eq (?es ! ?p K)" "\<forall>j < K. \<not> slot_hit ?eq (?es ! ?p j)"
    using first_hit sz htab_ok_empty_slot [OF ok] by metis
  obtain fd c where c: "slot_loop ?eq ?es ?n (step_of ?n (hash_f h x)) (of_nat (?p 0)) None (collisions h)
      = Some (?p K, fd, c)"
    using slot_loop_eq [OF sz(1) refl K(2), of 0 None "collisions h"] K(3) by auto
  have pl: "?p K < ?n" using K(1) by (intro probe_less) linarith
  have run: "probe_for_slot h x (hash_f h x) NO_INSERT =
     Some (if ?es ! ?p K = EMPTY_ENTRY then None else Some (?p K),
       h\<lparr>searches := searches h + 1, collisions := c\<rparr>)"
    using c pl sz by (simp add: probe_for_slot_def probe_step_eq probe_start_eq Let_def size_ok_def)
  have "case (if ?es ! ?p K = EMPTY_ENTRY then None else Some (?p K)) of
      Some s \<Rightarrow> s < length (entries h) \<and> (\<exists>y. entries h ! s = Entry y \<and> eq_f h y x)
    | None \<Rightarrow> \<forall>y \<in> elems (entries h). \<not> eq_f h y x"
  proof (cases "?es ! ?p K")
    case EMPTY_ENTRY
    then show ?thesis using hash_ops.hit_complete [OF us [unfolded user_ok_def] tab _ _ K] by auto
  qed (use K(2) pl in auto)
  then show ?thesis unfolding run same_table_def by blast
qed

text \<open>Removing an element removes it up to \<open>eq_f\<close>; without a matching element the code reads through a null
  pointer.\<close>

lemma remove_correct:
  assumes us: "user_ok h" and ok: "htab_ok h"
  shows "if \<exists>y \<in> elems (entries h). eq_f h y x
    then \<exists>h'. htab_remove_elt h x = Some h' \<and> htab_ok h'
      \<and> elems (entries h') = {y \<in> elems (entries h). \<not> eq_f h y x}
      \<and> htab_elements h = Suc (htab_elements h')
    else htab_remove_elt h x = None"
proof -
  obtain r h1 where r: "probe_for_slot h x (hash_f h x) NO_INSERT = Some (r, h1)" "same_table h h1"
      "case r of Some s \<Rightarrow> s < length (entries h) \<and> (\<exists>y. entries h ! s = Entry y \<and> eq_f h y x)
       | None \<Rightarrow> \<forall>y \<in> elems (entries h). \<not> eq_f h y x"
    using probe_no_insert [OF us ok, of x] by blast
  have run: "htab_find_slot True h x NO_INSERT = Some (r, h1)"
    using r(1) by (simp add: htab_find_slot_def htab_find_slot_with_hash_def)
  show ?thesis
  proof (cases r)
    case None
    then show ?thesis using r(3) run by (simp add: htab_remove_elt_def)
  next
    case (Some s)
    then obtain y where s: "s < length (entries h)" "entries h ! s = Entry y" "eq_f h y x"
      using r(3) by auto
    have "hsize h1 = length (entries h)" using ok r(2) by (simp add: htab_ok_def)
    then have h1: "htab_ok h1" "user_ok h1" "s < hsize h1" "entries h1 ! s = Entry y"
      using same_table_ok [OF ok r(2)] us s r(2) by (simp_all add: user_ok_def)
    obtain h' where h': "htab_clear_slot h1 s = Some h'" "htab_ok h'"
        "elems (entries h') = elems (entries h1) - {y}" "htab_elements h1 = Suc (htab_elements h')"
      using clear_correct [OF h1(2,1,3,4)] by metis
    have run1: "htab_remove_elt h x = htab_clear_slot h1 s"
      using run Some h1(3,4) s r(2) by (simp add: htab_remove_elt_def htab_clear_slot_def)
    have y: "y \<in> elems (entries h)" using s by (auto simp: elems_iff)
    then have ex: "\<exists>y \<in> elems (entries h). eq_f h y x" using s(3) by blast
    have "z = y" if "z \<in> elems (entries h)" "eq_f h z x" for z
      using elems_unique [OF us ok that(1) y] that(2) s(3) by blast
    then have el: "elems (entries h') = {y \<in> elems (entries h). \<not> eq_f h y x}"
      unfolding h'(3) same_table_fields(1) [OF r(2)] using s(3) by blast
    have "htab_elements h = Suc (htab_elements h')"
      using h'(4) r(2) by (simp add: htab_elements_def)
    then show ?thesis
      unfolding if_P [OF ex] run1 using h'(1,2) el by blast
  qed
qed

lemma tab_ok_empty: "size_ok sz \<Longrightarrow> tab_ok hf eq (replicate sz EMPTY_ENTRY)"
  by (auto simp: tab_ok_def reachable_def distinct_eq_def)

section \<open>Properties\<close>

interpretation pointer_ops: hash_ops hash_pointer eq_pointer
  by unfold_locales (simp_all add: eq_pointer_def)

lemma reachable_code [code]:
  "reachable hf es \<longleftrightarrow> (let n = length es in list_all (\<lambda>s. case es ! s of
       Entry x \<Rightarrow> list_ex (\<lambda>k. probe n (hf x) k = s \<and>
          list_all (\<lambda>j. es ! probe n (hf x) j \<noteq> EMPTY_ENTRY) [0..<k]) [0..<n]
     | _ \<Rightarrow> True) [0..<n])"
  unfolding reachable_def list_all_iff list_ex_iff Let_def set_upt Ball_def Bex_def atLeastLessThan_iff
  by (auto split: slot.splits)

lemma distinct_eq_code [code]:
  "distinct_eq eq es \<longleftrightarrow> (let n = length es in list_all (\<lambda>s. list_all (\<lambda>t.
     case (es ! s, es ! t) of (Entry x, Entry y) \<Rightarrow> eq x y \<longrightarrow> s = t | _ \<Rightarrow> True) [0..<n]) [0..<n])"
  unfolding distinct_eq_def list_all_iff Let_def set_upt Ball_def atLeastLessThan_iff
  by (auto split: slot.splits)

text \<open>A table of seven slots whose keys are their own hash values, like the abbreviation codes of DWARF: 8
  and 15 share their first slot, 3 was removed.\<close>

definition sample_htab :: "u32 htab" where
  "sample_htab = \<lparr>hash_f = \<lambda>x. x, eq_f = (=), del_f = True,
     entries = [EMPTY_ENTRY, Entry 8, Entry 15, DELETED_ENTRY, EMPTY_ENTRY, EMPTY_ENTRY, Entry 13],
     hsize = 7, n_elements = 4, n_deleted = 1, searches = 9, collisions = 2, deleted = [3]\<rparr>"

lemma sample_user: "user_ok sample_htab"
  by (auto simp: user_ok_def sample_htab_def hash_ops_def)

lemma upto7: "[0..<7] = [0, 1, 2, 3, 4, 5, 6 :: nat]"
  by (simp add: upt_rec)

lemma sample_htab_ok: "htab_ok sample_htab"
proof -
  have "size_ok 7" using tiny_primes by (simp add: size_ok_def)
  then have "size_ok (length (entries sample_htab))" by (simp add: sample_htab_def eval_nat_numeral)
  then show ?thesis
    by (simp add: htab_ok_def sample_htab_def tab_ok_def reachable_code distinct_eq_code probe_def upto7
        nlive_def nfull_def upt_rec)
qed

lemma sample_elems: "elems (entries sample_htab) = {8, 15, 13}"
  by (auto simp: elems_def sample_htab_def)


text \<open>C24: the binary search of \<open>higher_prime_number\<close> ends and returns the least prime of the table that is
  not below the request; a request above the last prime reads past the table.\<close>

theorem higher_prime_number_spec:
  "if n \<le> 4294967291
   then \<exists>p. higher_prime_number n = Some p \<and> p \<in> set htab_primes \<and> n \<le> p
     \<and> (\<forall>q \<in> set htab_primes. n \<le> q \<longrightarrow> p \<le> q)
   else higher_prime_number n = None"
  using higher_prime_number_least higher_prime_number_fails by simp

theorem higher_prime_number_spec_witness:
  "\<exists>p. higher_prime_number 100 = Some p \<and> p \<in> set htab_primes \<and> 100 \<le> p
     \<and> (\<forall>q \<in> set htab_primes. 100 \<le> q \<longrightarrow> p \<le> q)"
  using higher_prime_number_spec [of 100] by simp



text \<open>C21: a search in a table that satisfies the invariant returns; the result is the element equal to the one
  searched, or an empty slot when the table holds none, and the table keeps its contents.\<close>

theorem htab_find_refines:
  assumes "user_ok h" and "htab_ok h"
  shows "\<exists>e h'. htab_find h x = Some (e, h') \<and> same_table h h' \<and> htab_ok h' \<and>
    (case the_entry e of Some y \<Rightarrow> y \<in> elems (entries h) \<and> eq_f h y x
     | None \<Rightarrow> \<forall>y \<in> elems (entries h). \<not> eq_f h y x)"
  using assms by (rule find_correct)

theorem htab_find_refines_witness:
  "\<exists>e h'. htab_find sample_htab 15 = Some (e, h') \<and> same_table sample_htab h' \<and> htab_ok h' \<and>
    (case the_entry e of Some y \<Rightarrow> y \<in> elems (entries sample_htab) \<and> eq_f sample_htab y 15
     | None \<Rightarrow> \<forall>y \<in> elems (entries sample_htab). \<not> eq_f sample_htab y 15)"
  using sample_user sample_htab_ok by (rule htab_find_refines)



text \<open>C22: removing an element removes exactly the element equal to it, keeps the invariant and lowers the count
  by one; when the table holds no such element the code reads through a null pointer.\<close>

theorem htab_remove_refines:
  assumes "user_ok h" and "htab_ok h"
  shows "if \<exists>y \<in> elems (entries h). eq_f h y x
    then \<exists>h'. htab_remove_elt h x = Some h' \<and> htab_ok h'
      \<and> elems (entries h') = {y \<in> elems (entries h). \<not> eq_f h y x}
      \<and> htab_elements h = Suc (htab_elements h')
    else htab_remove_elt h x = None"
  using assms by (rule remove_correct)

theorem htab_remove_refines_witness:
  "(\<exists>h'. htab_remove_elt sample_htab 15 = Some h' \<and> htab_ok h' \<and> elems (entries h') = {8, 13}
      \<and> htab_elements sample_htab = Suc (htab_elements h')) \<and> htab_remove_elt sample_htab 22 = None"
proof -
  have e: "eq_f sample_htab = (=)" by (simp add: sample_htab_def)
  have "{y \<in> elems (entries sample_htab). y \<noteq> 15} = {8, 13}" by (auto simp: sample_elems)
  then show ?thesis
    using htab_remove_refines [OF sample_user sample_htab_ok, of 15]
      htab_remove_refines [OF sample_user sample_htab_ok, of 22] unfolding e sample_elems by simp
qed

end
