(* ===== verification/Layout.thy ===== *)
theory Layout
  imports HashTab
begin

text \<open>
  \<^verbatim>\<open>src/layout.c\<close>: the assignment of virtual address slots to libraries.

  The entries of the cache (\<^verbatim>\<open>struct prelink_entry\<close>) live in a store indexed by natural numbers that stand
  for their addresses; the members that layout uses are kept. The doubly linked list of placed entries is
  the list of their indices; \<^verbatim>\<open>list->prev\<close> is its last element. Addresses are 64-bit words and wrap. An
  \<^verbatim>\<open>error (EXIT_FAILURE, ...)\<close> and an \<^verbatim>\<open>abort\<close> are values of \<open>layout_error\<close>. \<^verbatim>\<open>qsort\<close> is a stable sort, as in the
  GNU C library; the C standard leaves the order of equal elements open. What the code reads from
  \<^verbatim>\<open>/dev/urandom\<close>, \<^verbatim>\<open>time\<close> and \<^verbatim>\<open>random\<close> is part of the options. The hooks of a target are functions on
  \<^verbatim>\<open>struct layout_libs\<close> and the store.
\<close>

section \<open>Entries and state\<close>

record pl_entry =
  e_filename :: string
  e_soname :: string
  e_base :: u64
  e_end :: u64
  e_layend :: u64
  e_dev :: u64
  e_ino :: u64
  e_type :: int
  e_done :: u32
  e_refs :: int
  e_flags :: u32
  e_tmp :: int
  e_depends :: "nat list"

type_synonym estore = "nat \<Rightarrow> pl_entry"

text \<open>\<^verbatim>\<open>arch_data\<close> is what the hooks of i386 keep there, the only ones that use it: an array of addresses.\<close>

record layout_libs =
  ll_libs :: "nat list"
  ll_binlibs :: "nat list"
  ll_list :: "nat list"
  ll_fake :: "nat list"
  ll_mmap_base :: u64
  ll_mmap_start :: u64
  ll_mmap_fin :: u64
  ll_mmap_end :: u64
  ll_max_page_size :: u64
  ll_arch_data :: "u32 list"
  ll_flags :: u32

type_synonym lstate = "layout_libs \<times> estore"

text \<open>The options and the sources of randomness.\<close>

record layout_opts =
  lo_force :: bool
  lo_conserve :: bool
  lo_random_base :: u32
  lo_seed :: u64
  lo_reg_start :: u64
  lo_reg_end :: u64
  lo_page_size :: u64
  lo_urandom :: "u64 option"
  lo_time :: u64
  lo_random :: "nat \<Rightarrow> int"

datatype layout_error = Not_supported u32 | Bad_region | Page_size_too_large | No_slot string | Abort

type_synonym 'a lresult = "layout_error + 'a"

text \<open>The members of \<^verbatim>\<open>struct PLArch\<close> that layout uses. The first hook may also change the options.\<close>

record layout_arch =
  la_class64 :: bool
  la_machine :: u32
  la_max_page_size :: u64
  la_mmap_base :: u64
  la_mmap_end :: u64
  la_init :: "(layout_opts \<times> lstate \<Rightarrow> (layout_opts \<times> lstate) lresult) option"
  la_pre :: "(lstate \<Rightarrow> lstate lresult) option"
  la_post :: "(lstate \<Rightarrow> lstate) option"

fun lbind :: "'a lresult \<Rightarrow> ('a \<Rightarrow> 'b lresult) \<Rightarrow> 'b lresult" where
  "lbind (Inl e) f = Inl e"
| "lbind (Inr x) f = f x"

definition ET_EXEC_I :: int where "ET_EXEC_I = 2"
definition ET_DYN_I :: int where "ET_DYN_I = 3"
definition ET_CACHE_EXEC :: int where "ET_CACHE_EXEC = 6"
definition ET_CACHE_DYN :: int where "ET_CACHE_DYN = 7"
definition PCF_ELF64 :: u32 where "PCF_ELF64 = 0x10000"
definition PCF_MACHINE :: u32 where "PCF_MACHINE = 0xffff"

lemmas layout_consts = ET_EXEC_I_def ET_DYN_I_def ET_CACHE_EXEC_def ET_CACHE_DYN_def PCF_ELF64_def PCF_MACHINE_def

definition arch_bits :: "pl_entry \<Rightarrow> u32" where
  "arch_bits e = e_flags e AND (PCF_ELF64 OR PCF_MACHINE)"

definition round_up :: "u64 \<Rightarrow> u64 \<Rightarrow> u64" where
  "round_up x page = (x + page - 1) AND NOT (page - 1)"

section \<open>Collecting the entries\<close>

definition is_object :: "int \<Rightarrow> bool" where
  "is_object t \<longleftrightarrow> t = ET_DYN_I \<or> t = ET_EXEC_I \<or> t = ET_CACHE_DYN \<or> t = ET_CACHE_EXEC"

definition find_arches :: "nat \<Rightarrow> lstate \<Rightarrow> bool \<times> lstate" where
  "find_arches p = (\<lambda>(l, s).
     if is_object (e_type (s p)) \<and> \<not> list_ex (\<lambda>b. arch_bits (s b) = arch_bits (s p)) (ll_binlibs l)
     then (True, l\<lparr>ll_binlibs := ll_binlibs l @ [p]\<rparr>, s)
     else (True, l, s))"

definition find_libs :: "bool \<Rightarrow> nat \<Rightarrow> lstate \<Rightarrow> bool \<times> lstate" where
  "find_libs force p = (\<lambda>(l, s).
     if arch_bits (s p) \<noteq> ll_flags l then (True, l, s)
     else
       let t = e_type (s p);
           l = (if is_object t then l\<lparr>ll_binlibs := ll_binlibs l @ [p]\<rparr> else l);
           l = (if t = ET_DYN_I \<or> t = ET_CACHE_DYN then l\<lparr>ll_libs := ll_libs l @ [p]\<rparr> else l);
           e = (if force then (s p)\<lparr>e_done := 0\<rparr> else s p);
           e = (if t = ET_CACHE_DYN \<or> t = ET_CACHE_EXEC then e\<lparr>e_done := 2\<rparr> else e);
           e = (if e_base e AND (ll_max_page_size l - 1) \<noteq> 0
                then e\<lparr>e_done := 0, e_end := e_end e - e_base e, e_base := 0\<rparr> else e)
       in (True, l, s(p := e)))"

section \<open>Orders\<close>

fun strcmp :: "string \<Rightarrow> string \<Rightarrow> int" where
  "strcmp [] [] = 0"
| "strcmp [] (_ # _) = - 1"
| "strcmp (_ # _) [] = 1"
| "strcmp (a # as) (b # bs) =
     (let x = of_char a :: int; y = of_char b in if x < y then - 1 else if x > y then 1 else strcmp as bs)"

text \<open>The part that \<^verbatim>\<open>refs_cmp\<close> and \<^verbatim>\<open>refs_rnd_cmp\<close> share, with the condition under which the sonames count.\<close>

definition size_name_cmp :: "bool \<Rightarrow> pl_entry \<Rightarrow> pl_entry \<Rightarrow> int" where
  "size_name_cmp by_soname a b =
     (let sa = e_layend a - e_base a; sb = e_layend b - e_base b in
      if sa > sb then - 1 else if sa < sb then 1
      else if by_soname \<and> strcmp (e_soname a) (e_soname b) \<noteq> 0 then strcmp (e_soname a) (e_soname b)
      else strcmp (e_filename a) (e_filename b))"

definition refs_cmp :: "pl_entry \<Rightarrow> pl_entry \<Rightarrow> int" where
  "refs_cmp a b =
     (if e_depends a = [] \<and> e_depends b \<noteq> [] then - 1
      else if e_depends a \<noteq> [] \<and> e_depends b = [] then 1
      else if e_refs a > e_refs b then - 1
      else if e_refs a < e_refs b then 1
      else size_name_cmp (e_refs a \<noteq> 0) a b)"

definition refs_rnd_cmp :: "pl_entry \<Rightarrow> pl_entry \<Rightarrow> int" where
  "refs_rnd_cmp a b =
     (if e_depends a = [] \<and> e_depends b \<noteq> [] then - 1
      else if e_depends a \<noteq> [] \<and> e_depends b = [] then 1
      else
        let refs = min (e_refs a) (e_refs b);
            i = (if refs < 8 then 1 else if refs < 32 then 2 else if refs < 128 then 4 else 8) in
        if e_refs a > e_refs b \<and> e_refs a - e_refs b \<ge> i then - 1
        else if e_refs a < e_refs b \<and> e_refs b - e_refs a \<ge> i then 1
        else if e_tmp a < e_tmp b then - 1
        else if e_tmp a > e_tmp b then 1
        else size_name_cmp (e_refs a \<noteq> 0 \<and> e_refs b \<noteq> 0) a b)"

definition addr_cmp :: "pl_entry \<Rightarrow> pl_entry \<Rightarrow> int" where
  "addr_cmp a b =
     (if e_done a = 0 then (if e_done b \<noteq> 0 then 1 else 0)
      else if e_done b = 0 then - 1
      else if e_base a < e_base b then - 1
      else if e_base a > e_base b then 1
      else if e_layend a < e_layend b then - 1
      else if e_layend a > e_layend b then 1
      else 0)"

definition deps_cmp :: "pl_entry \<Rightarrow> pl_entry \<Rightarrow> int" where
  "deps_cmp a b = (if e_base a < e_base b then - 1 else if e_base a > e_base b then 1 else 0)"

fun insort_cmp :: "('a \<Rightarrow> 'a \<Rightarrow> int) \<Rightarrow> 'a \<Rightarrow> 'a list \<Rightarrow> 'a list" where
  "insort_cmp cmp x [] = [x]"
| "insort_cmp cmp x (y # ys) = (if cmp x y \<le> 0 then x # y # ys else y # insort_cmp cmp x ys)"

definition qsort :: "('a \<Rightarrow> 'a \<Rightarrow> int) \<Rightarrow> 'a list \<Rightarrow> 'a list" where
  "qsort cmp xs = foldr (insort_cmp cmp) xs []"

definition sort_entries :: "(pl_entry \<Rightarrow> pl_entry \<Rightarrow> int) \<Rightarrow> estore \<Rightarrow> nat list \<Rightarrow> nat list" where
  "sort_entries cmp s = qsort (\<lambda>a b. cmp (s a) (s b))"

section \<open>Libraries to place again\<close>

definition set_layends :: "u64 \<Rightarrow> nat list \<Rightarrow> estore \<Rightarrow> estore" where
  "set_layends page libs s =
     fold (\<lambda>i s. s(i := (s i)\<lparr>e_layend := round_up (e_end (s i) + 8192) page\<rparr>)) libs s"

text \<open>The loop over the sorted dependencies of one object: of two that overlap, the one with fewer references
  loses its place. \<open>deps\<close> holds \<^verbatim>\<open>deps[0], ..., deps[k - 1]\<close>.\<close>

function clear_overlaps :: "estore \<Rightarrow> nat list \<Rightarrow> nat \<Rightarrow> nat list \<times> estore" where
  "clear_overlaps s deps j =
     (if j < length deps then
        (let a = s (deps ! (j - 1)); b = s (deps ! j) in
         if e_base b < e_end a \<and> (e_type b = ET_DYN_I \<or> e_type a = ET_DYN_I) then
           (let j = (if e_refs a < e_refs b then j - 1 else j);
                s = s(deps ! j := (s (deps ! j))\<lparr>e_done := 0\<rparr>);
                deps = take j deps @ drop (Suc j) deps;
                j = (if j > 0 then j - 1 else j)
            in clear_overlaps s deps (Suc j))
         else clear_overlaps s deps (Suc j))
      else (deps, s))"
  by pat_completeness auto
termination
  by (relation "measure (\<lambda>(s, deps, j). 2 * length deps - j)") (auto split: if_splits simp flip: length_greater_0_conv)

declare clear_overlaps.simps [simp del]

definition placed_deps :: "estore \<Rightarrow> nat \<Rightarrow> nat list" where
  "placed_deps s b = filter (\<lambda>d. e_type (s d) = ET_DYN_I \<and> e_done (s d) \<noteq> 0) (e_depends (s b))"

text \<open>With the assertion \<^verbatim>\<open>k < l.nlibs\<close>.\<close>

fun clear_all_overlaps :: "nat \<Rightarrow> nat list \<Rightarrow> estore \<Rightarrow> estore lresult" where
  "clear_all_overlaps nlibs [] s = Inr s"
| "clear_all_overlaps nlibs (b # bs) s =
     (let deps = placed_deps s b in
      if length deps > nlibs then Inl Abort
      else clear_all_overlaps nlibs bs (snd (clear_overlaps s (sort_entries deps_cmp s deps) 1)))"

definition clear_dependents :: "nat list \<Rightarrow> estore \<Rightarrow> estore" where
  "clear_dependents libs s =
     fold (\<lambda>i s. if e_done (s i) \<noteq> 0 \<and> list_ex (\<lambda>d. e_done (s d) = 0) (e_depends (s i))
       then s(i := (s i)\<lparr>e_done := 0\<rparr>) else s) libs s"

section \<open>The list of placed libraries\<close>

text \<open>From the libraries sorted by \<^verbatim>\<open>addr_cmp\<close>: the list and the new \<^verbatim>\<open>random_base\<close>.\<close>

definition build_list :: "estore \<Rightarrow> u64 \<Rightarrow> u64 \<Rightarrow> nat list \<Rightarrow> u32 \<Rightarrow> nat list \<times> u32" where
  "build_list s base fin libs rb =
     (let rest = dropWhile (\<lambda>i. e_done (s i) \<noteq> 0 \<and> e_layend (s i) < base) libs in
      case rest of
        [] \<Rightarrow> ([], rb)
      | i # is \<Rightarrow>
          (if e_done (s i) = 0 then ([], rb)
           else
             let more = takeWhile (\<lambda>j. e_done (s j) \<noteq> 0 \<and> e_base (s j) < fin) is;
                 clash = e_base (s i) < base
                   \<or> list_ex (\<lambda>j. e_base (s j) < base \<or> e_layend (s j) > fin) more
             in (i # more, if clash then 0 else rb)))"

section \<open>The random base\<close>

definition choose_start :: "layout_opts \<Rightarrow> u32 \<Rightarrow> u64 \<Rightarrow> u64 \<Rightarrow> u64 \<Rightarrow> u64 \<times> u64" where
  "choose_start opts rb page base fin =
     (if rb AND 2 \<noteq> 0 then
        (let st = lo_seed opts; st = (if st < base \<or> st \<ge> fin then base else st)
         in (round_up st page, lo_seed opts))
      else if rb \<noteq> 0 then
        (let st = (case lo_urandom opts of Some x \<Rightarrow> x mod (fin - base) + base | None \<Rightarrow> 0);
             st = (if st = 0 then drop_bit 16 (fin - base) * (lo_time opts AND 0xffff) + base else st)
         in (round_up st page, st))
      else (base, lo_seed opts))"

definition order_libs :: "layout_opts \<Rightarrow> u32 \<Rightarrow> nat list \<Rightarrow> estore \<Rightarrow> nat list \<times> estore" where
  "order_libs opts rb libs s =
     (if rb \<noteq> 0 then
        (let s = fold (\<lambda>(k, i) s. s(i := (s i)\<lparr>e_tmp := lo_random opts k\<rparr>)) (zip [0..<length libs] libs) s
         in (sort_entries refs_rnd_cmp s libs, s))
      else (sort_entries refs_cmp s libs, s))"

section \<open>Moving the entries below the start\<close>

definition shift_entry :: "u64 \<Rightarrow> pl_entry \<Rightarrow> pl_entry" where
  "shift_entry delta e = e\<lparr>e_base := e_base e + delta, e_end := e_end e + delta,
     e_layend := e_layend e + delta, e_done := e_done e OR 0x80\<rparr>"

definition unshift_entry :: "u64 \<Rightarrow> pl_entry \<Rightarrow> pl_entry" where
  "unshift_entry delta e = e\<lparr>e_base := e_base e - delta, e_end := e_end e - delta,
     e_layend := e_layend e - delta, e_done := e_done e AND NOT 0x80\<rparr>"

text \<open>The loop: the entries it leaves, the start it ends with and the store.\<close>

fun shift_below :: "u64 \<Rightarrow> u64 \<Rightarrow> nat list \<Rightarrow> u64 \<Rightarrow> estore \<Rightarrow> nat list \<times> u64 \<times> estore" where
  "shift_below page delta [] start s = ([], start, s)"
| "shift_below page delta (e # es) start s =
     (if e_base (s e) \<ge> start then (e # es, start, s)
      else
        shift_below page delta es
          (if e_layend (s e) > start then round_up (e_layend (s e)) page else start)
          (s(e := shift_entry delta (s e))))"

definition fake_entry :: "u64 \<Rightarrow> pl_entry" where
  "fake_entry a = \<lparr>e_filename = [], e_soname = [], e_base = a, e_end = a, e_layend = a, e_dev = 0, e_ino = 0,
     e_type = 0, e_done = 0, e_refs = 0, e_flags = 0, e_tmp = - 1, e_depends = []\<rparr>"

text \<open>\<open>fk\<close> is the address of the local variable \<^verbatim>\<open>fakeent\<close>.\<close>

definition wrap_list :: "nat \<Rightarrow> lstate \<Rightarrow> lstate" where
  "wrap_list fk = (\<lambda>(l, s).
     if ll_mmap_start l \<noteq> ll_mmap_base l \<and> ll_list l \<noteq> [] then
       let delta = ll_mmap_end l - ll_mmap_base l;
           (rest, start, s') = shift_below (ll_max_page_size l) delta (ll_list l) (ll_mmap_start l) s
       in if start < ll_mmap_end l then
            (if rest \<noteq> [] \<and> length rest < length (ll_list l) then
               (l\<lparr>ll_mmap_start := start, ll_fake := [fk],
                  ll_list := rest @ fk # take (length (ll_list l) - length rest) (ll_list l)\<rparr>,
                s'(fk := fake_entry (ll_mmap_end l)))
             else (l\<lparr>ll_mmap_start := start\<rparr>, s'))
          else
            (l\<lparr>ll_mmap_start := ll_mmap_base l\<rparr>,
             fold (\<lambda>e s. if e_done (s e) AND 0x80 \<noteq> 0 then s(e := unshift_entry delta (s e)) else s) (ll_list l) s')
     else (l, s))"

section \<open>Placing one library\<close>

definition set_tmp :: "int \<Rightarrow> nat list \<Rightarrow> estore \<Rightarrow> estore" where
  "set_tmp m is s = fold (\<lambda>i s. s(i := (s i)\<lparr>e_tmp := m\<rparr>)) is s"

text \<open>Mark what appears together with library \<open>lib\<close> in a dependency list.\<close>

definition mark_objects :: "int \<Rightarrow> nat list \<Rightarrow> nat \<Rightarrow> estore \<Rightarrow> estore" where
  "mark_objects m binlibs lib s =
     fold (\<lambda>b s. if lib \<in> set (e_depends (s b)) then set_tmp m (e_depends (s b)) s else s) binlibs s"

definition mark_together :: "int \<Rightarrow> nat list \<Rightarrow> nat list \<Rightarrow> nat \<Rightarrow> estore \<Rightarrow> estore" where
  "mark_together m binlibs fake lib s = set_tmp m fake (mark_objects m binlibs lib s)"

text \<open>The scan for a free range: the base reached, and where in the list it stopped.\<close>

fun find_slot :: "estore \<Rightarrow> int \<Rightarrow> u64 \<Rightarrow> nat list \<Rightarrow> u64 \<Rightarrow> u64 \<times> nat option" where
  "find_slot s m sz [] base = (base, None)"
| "find_slot s m sz (e # es) base =
     (if e_tmp (s e) = m then
        (if base + sz \<le> e_base (s e) then (base, Some 0)
         else
           (let (b, r) = find_slot s m sz es (if base < e_layend (s e) then e_layend (s e) else base)
            in (b, map_option Suc r)))
      else (let (b, r) = find_slot s m sz es base in (b, map_option Suc r)))"

text \<open>\<^verbatim>\<open>while (e != list && e->base > base) e = e->prev\<close>, on positions.\<close>

fun walk_back :: "estore \<Rightarrow> nat list \<Rightarrow> u64 \<Rightarrow> nat \<Rightarrow> nat" where
  "walk_back s xs base 0 = 0"
| "walk_back s xs base (Suc i) = (if e_base (s (xs ! Suc i)) > base then walk_back s xs base i else Suc i)"

text \<open>Link the library into the list: from the element before the one the scan stopped at, or from the last
  one when the scan stopped at the first or at none.\<close>

definition link_lib :: "estore \<Rightarrow> nat list \<Rightarrow> nat option \<Rightarrow> nat \<Rightarrow> u64 \<Rightarrow> nat list" where
  "link_lib s xs stop lib base =
     (if xs = [] then [lib]
      else
        let st = (case stop of Some (Suc i) \<Rightarrow> i | _ \<Rightarrow> length xs - 1);
            i = walk_back s xs base st
        in if e_base (s (xs ! i)) > base then lib # xs
           else take (Suc i) xs @ lib # drop (Suc i) xs)"

text \<open>The check under \<^verbatim>\<open>DEBUG_LAYOUT\<close>.\<close>

definition bases_ascend :: "estore \<Rightarrow> nat list \<Rightarrow> bool" where
  "bases_ascend s xs \<longleftrightarrow> sorted_wrt (\<le>) (map (\<lambda>i. e_base (s i)) xs)"

definition place_at :: "u32 \<Rightarrow> u64 \<Rightarrow> u64 \<Rightarrow> u64 \<Rightarrow> pl_entry \<Rightarrow> pl_entry" where
  "place_at done lim base sz e = e\<lparr>e_end := e_end e + (base - e_base e), e_base := base,
     e_layend := base + sz, e_done := (if base \<ge> lim then done else 1)\<rparr>"

definition place_lib :: "bool \<Rightarrow> u32 \<Rightarrow> nat \<Rightarrow> nat \<Rightarrow> lstate \<Rightarrow> lstate lresult" where
  "place_lib conserve done k lib = (\<lambda>(l, s).
     let m = (if conserve then int k else - 1);
         s = (if conserve then mark_together m (ll_binlibs l) (ll_fake l) lib s else s);
         sz = e_layend (s lib) - e_base (s lib);
         (base, stop) = find_slot s m sz (ll_list l) (ll_mmap_start l)
     in if stop = None \<and> base + sz > ll_mmap_fin l then Inl (No_slot (e_filename (s lib)))
        else
          let s = s(lib := place_at done (ll_mmap_end l) base sz (s lib));
              xs = link_lib s (ll_list l) stop lib base
          in if bases_ascend s xs then Inr (l\<lparr>ll_list := xs\<rparr>, s) else Inl Abort)"

text \<open>The loop over the libraries; \<open>k\<close> is the loop variable.\<close>

fun place_libs :: "bool \<Rightarrow> u32 \<Rightarrow> nat \<Rightarrow> nat list \<Rightarrow> lstate \<Rightarrow> lstate lresult" where
  "place_libs conserve done k [] ls = Inr ls"
| "place_libs conserve done k (i # is) ls =
     (if e_done (snd ls i) = 0 then lbind (place_lib conserve done k i ls) (place_libs conserve done (Suc k) is)
      else place_libs conserve done (Suc k) is ls)"

section \<open>Finishing\<close>

text \<open>The last loop subtracts \<^verbatim>\<open>mmap_base - mmap_base\<close> from \<^verbatim>\<open>layend\<close>.\<close>

definition unwrap_entry :: "u64 \<Rightarrow> pl_entry \<Rightarrow> pl_entry" where
  "unwrap_entry delta e = e\<lparr>e_base := e_base e - delta, e_end := e_end e - delta,
     e_done := e_done e AND NOT 0x80\<rparr>"

definition unwrap_list :: "u32 \<Rightarrow> lstate \<Rightarrow> lstate" where
  "unwrap_list done = (\<lambda>(l, s).
     (l, if done AND 0x80 \<noteq> 0
         then fold (\<lambda>e s. if e_done (s e) AND 0x80 \<noteq> 0
           then s(e := unwrap_entry (ll_mmap_end l - ll_mmap_base l) (s e)) else s) (ll_list l) s
         else s))"

text \<open>The final check under \<^verbatim>\<open>DEBUG_LAYOUT\<close>.\<close>

definition deps_clash :: "estore \<Rightarrow> u64 \<Rightarrow> nat \<Rightarrow> bool" where
  "deps_clash s page b =
     (let ds = e_depends (s b) in
      list_all (\<lambda>d. (e_type (s d) = ET_DYN_I \<or> e_type (s d) = ET_CACHE_DYN) \<and> e_done (s d) \<noteq> 0) ds
      \<and> (let xs = sort_entries deps_cmp s ds in
         list_ex (\<lambda>j. e_base (s (xs ! j)) < round_up (e_end (s (xs ! (j - 1)))) page
           \<and> (e_type (s (xs ! j)) = ET_DYN_I \<or> e_type (s (xs ! (j - 1))) = ET_DYN_I)) [1..<length xs]))"

section \<open>One architecture\<close>

definition find_arch :: "layout_arch list \<Rightarrow> u32 \<Rightarrow> layout_arch option" where
  "find_arch archs bits = List.find (\<lambda>a. la_class64 a = (bits AND PCF_ELF64 \<noteq> 0)
     \<and> la_machine a = bits AND PCF_MACHINE) archs"

definition all_ones :: u64 where
  "all_ones = - 1"

definition choose_region :: "layout_opts \<Rightarrow> u64 \<Rightarrow> u64 \<Rightarrow> u64 \<Rightarrow> (u64 \<times> u64) lresult" where
  "choose_region opts page base fin =
     (let base = (if lo_reg_start opts \<noteq> all_ones then lo_reg_start opts else base);
          fin = (if lo_reg_end opts \<noteq> all_ones then lo_reg_end opts else fin)
      in if base \<ge> fin then Inl Bad_region
         else if (base OR fin) AND (page - 1) \<noteq> 0 then Inl Page_size_too_large
         else Inr (base, fin))"

definition empty_ll :: layout_libs where
  "empty_ll = \<lparr>ll_libs = [], ll_binlibs = [], ll_list = [], ll_fake = [], ll_mmap_base = 0, ll_mmap_start = 0,
     ll_mmap_fin = 0, ll_mmap_end = 0, ll_max_page_size = 0, ll_arch_data = [], ll_flags = 0\<rparr>"

text \<open>Up to the choice of the region: collect, round, run the first hook.\<close>

definition collect_libs ::
  "layout_opts \<Rightarrow> layout_arch \<Rightarrow> nat slot list \<Rightarrow> u32 \<Rightarrow> estore \<Rightarrow> (layout_opts \<times> lstate) lresult" where
  "collect_libs opts a tab bits s =
     (let page = (if lo_page_size opts > la_max_page_size a then lo_page_size opts else la_max_page_size a);
          (l, s) = htab_traverse (find_libs (lo_force opts)) tab
            (empty_ll\<lparr>ll_flags := bits, ll_max_page_size := page\<rparr>, s);
          s = set_layends page (ll_libs l) s
      in lbind (case la_init a of Some f \<Rightarrow> f (opts, l, s)
            | None \<Rightarrow> Inr (opts, l\<lparr>ll_mmap_base := la_mmap_base a, ll_mmap_end := la_mmap_end a\<rparr>, s))
         (\<lambda>(opts, l, s). lbind (choose_region opts page (ll_mmap_base l) (ll_mmap_end l))
           (\<lambda>(base, fin). Inr (opts, l\<lparr>ll_mmap_base := base, ll_mmap_end := fin\<rparr>, s))))"

text \<open>From the overlaps to the order in which the libraries are placed, with \<^verbatim>\<open>random_base\<close> and \<^verbatim>\<open>seed\<close>.\<close>

definition prepare_list :: "layout_opts \<Rightarrow> lstate \<Rightarrow> (lstate \<times> u32 \<times> u64) lresult" where
  "prepare_list opts = (\<lambda>(l, s).
     let base = ll_mmap_base l; fin = ll_mmap_end l;
         rb = (if fin + (fin - base) \<le> fin then 0 else lo_random_base opts)
     in lbind (clear_all_overlaps (length (ll_libs l)) (ll_binlibs l) s) (\<lambda>s.
       let s = clear_dependents (ll_libs l) s;
           libs = sort_entries addr_cmp s (ll_libs l);
           (xs, rb) = build_list s base fin libs rb;
           (start, seed) = choose_start opts rb (ll_max_page_size l) base fin;
           (libs, s) = order_libs opts rb libs s
       in Inr ((l\<lparr>ll_libs := libs, ll_list := xs, ll_mmap_start := start, ll_mmap_fin := fin\<rparr>, s), rb, seed)))"

text \<open>Placing: the hook, the wrap around the random base, the loop over the libraries, the second hook.\<close>

definition place_all :: "bool \<Rightarrow> layout_arch \<Rightarrow> nat \<Rightarrow> lstate \<Rightarrow> lstate lresult" where
  "place_all conserve a fk ls =
     lbind (case la_pre a of Some f \<Rightarrow> f ls | None \<Rightarrow> Inr ls) (\<lambda>ls.
       let (l, s) = wrap_list fk ls;
           wrapped = (ll_mmap_start l \<noteq> ll_mmap_base l);
           l = (if wrapped then l\<lparr>ll_mmap_fin := ll_mmap_end l + (ll_mmap_start l - ll_mmap_base l)\<rparr> else l);
           done = (if wrapped then 1 OR 0x80 else 1);
           s = set_tmp (- 1) (ll_libs l) s
       in lbind (place_libs conserve done 0 (ll_libs l) (l, s)) (\<lambda>ls.
            Inr (unwrap_list done (case la_post a of Some f \<Rightarrow> f ls | None \<Rightarrow> ls))))"

definition layout_arch_libs ::
  "layout_opts \<Rightarrow> layout_arch \<Rightarrow> nat slot list \<Rightarrow> nat \<Rightarrow> u32 \<Rightarrow> estore \<Rightarrow> (layout_opts \<times> lstate) lresult" where
  "layout_arch_libs opts a tab fk bits s =
     lbind (collect_libs opts a tab bits s) (\<lambda>(opts, ls).
     lbind (prepare_list opts ls) (\<lambda>(ls, rb, seed).
     lbind (place_all (lo_conserve opts) a fk ls) (\<lambda>(l, s).
       if list_ex (deps_clash s (ll_max_page_size l)) (ll_binlibs l) then Inl Abort
       else Inr (opts\<lparr>lo_random_base := rb, lo_seed := seed\<rparr>, l, s))))"

section \<open>All architectures\<close>

fun layout_each ::
  "layout_opts \<Rightarrow> layout_arch list \<Rightarrow> nat slot list \<Rightarrow> nat \<Rightarrow> u32 list \<Rightarrow> estore \<Rightarrow> estore lresult" where
  "layout_each opts archs tab fk [] s = Inr s"
| "layout_each opts archs tab fk (bits # bs) s =
     (case find_arch archs bits of
        None \<Rightarrow> Inl (Not_supported bits)
      | Some a \<Rightarrow> lbind (layout_arch_libs opts a tab fk bits s) (\<lambda>(opts, l, s).
          layout_each opts archs tab fk bs s))"

definition layout_libs_all ::
  "layout_opts \<Rightarrow> layout_arch list \<Rightarrow> nat slot list \<Rightarrow> nat \<Rightarrow> estore \<Rightarrow> estore lresult" where
  "layout_libs_all opts archs tab fk s =
     (let l = fst (htab_traverse find_arches tab (empty_ll, s)) in
      layout_each opts archs tab fk (map (\<lambda>b. arch_bits (s b)) (ll_binlibs l)) s)"

end
