(* ===== verification/LayoutProps.thy ===== *)
theory LayoutProps
  imports Layout "HOL-Library.Sublist" "HOL-Library.Multiset"
begin

text \<open>
  What \<^verbatim>\<open>src/layout.c\<close> guarantees: the scan for a free range returns the lowest range that is free among the
  entries it considers; linking keeps the list sorted; so the libraries placed occupy disjoint ranges, the
  consistency checks never abort, and a missing slot is reported only when there is none. The loop that
  takes places away from overlapping dependencies leaves none that overlap. The locale \<open>qsort_cmp\<close> is what
  \<^verbatim>\<open>qsort\<close> asks of a comparison function.
\<close>

section \<open>The scan for a free range\<close>

definition slot_free :: "estore \<Rightarrow> u64 \<Rightarrow> u64 \<Rightarrow> nat \<Rightarrow> bool" where
  "slot_free s b sz e \<longleftrightarrow> b + sz \<le> e_base (s e) \<or> e_layend (s e) \<le> b"

definition fits :: "u64 \<Rightarrow> u64 \<Rightarrow> bool" where
  "fits b sz \<longleftrightarrow> unat b + unat sz < 2 ^ 64"

lemma fits_add: "fits b sz \<Longrightarrow> unat (b + sz) = unat b + unat sz"
  by (simp add: fits_def unat_word_ariths)

lemma fits_mono:
  assumes "a \<le> b" and "fits a sz" and "fits b sz"
  shows "a + sz \<le> b + sz"
  using assms by (simp add: word_le_nat_alt fits_add)

lemma find_slot_spec:
  assumes "sorted_wrt (\<le>) (map (\<lambda>i. e_base (s i)) xs)"
    and "\<forall>e \<in> set xs. fits (e_layend (s e)) sz" and "fits base sz" and "find_slot s m sz xs base = (b, r)"
  shows "base \<le> b \<and> fits b sz \<and> (\<forall>e \<in> set xs. e_tmp (s e) = m \<longrightarrow> slot_free s b sz e)
    \<and> (case r of Some q \<Rightarrow> q < length xs \<and> b + sz \<le> e_base (s (xs ! q)) | None \<Rightarrow> True)"
  using assms
proof (induction xs arbitrary: base b r)
  case Nil
  then show ?case by simp
next
  case (Cons e es)
  let ?base = "if e_tmp (s e) = m \<and> base < e_layend (s e) then e_layend (s e) else base"
  have srt: "sorted_wrt (\<le>) (map (\<lambda>i. e_base (s i)) es)" "\<forall>x \<in> set es. e_base (s e) \<le> e_base (s x)"
    using Cons.prems(1) by auto
  show ?case
  proof (cases "e_tmp (s e) = m \<and> base + sz \<le> e_base (s e)")
    case True
    then have "b = base" "r = Some 0" using Cons.prems(4) by simp_all
    then show ?thesis using True srt(2) Cons.prems(3) by (fastforce simp: slot_free_def)
  next
    case False
    then obtain r' where r': "find_slot s m sz es ?base = (b, r')" "r = map_option Suc r'"
      using Cons.prems(4) by (auto split: prod.splits if_splits)
    have "fits ?base sz" using Cons.prems(2,3) by simp
    then have ih: "?base \<le> b \<and> fits b sz \<and> (\<forall>e \<in> set es. e_tmp (s e) = m \<longrightarrow> slot_free s b sz e)
      \<and> (case r' of Some q \<Rightarrow> q < length es \<and> b + sz \<le> e_base (s (es ! q)) | None \<Rightarrow> True)"
      using Cons.IH [OF srt(1) _ _ r'(1)] Cons.prems(2) by simp
    then have "base \<le> b" by (auto split: if_splits)
    moreover have "slot_free s b sz e" if "e_tmp (s e) = m"
      using ih that by (auto simp: slot_free_def split: if_splits)
    ultimately show ?thesis using ih r'(2) by (auto split: option.splits)
  qed
qed

text \<open>No lower free range was passed over.\<close>

lemma find_slot_least:
  assumes "\<forall>e \<in> set xs. fits (e_layend (s e)) sz" and "fits base sz" and "find_slot s m sz xs base = (b, r)"
    and "base \<le> b'" and "fits b' sz" and "\<forall>e \<in> set xs. e_tmp (s e) = m \<longrightarrow> slot_free s b' sz e"
  shows "b \<le> b'"
  using assms
proof (induction xs arbitrary: base r)
  case (Cons e es)
  show ?case
  proof (cases "e_tmp (s e) = m")
    case False
    then show ?thesis
      using Cons.IH [of base] Cons.prems by (auto split: prod.splits)
  next
    case tmp: True
    show ?thesis
    proof (cases "base + sz \<le> e_base (s e)")
      case True
      then show ?thesis using tmp Cons.prems by simp
    next
      case False
      have "base + sz \<le> b' + sz" by (rule fits_mono [OF Cons.prems(4,2,5)])
      then have "e_layend (s e) \<le> b'" using False Cons.prems(6) tmp by (auto simp: slot_free_def)
      then show ?thesis
        using Cons.IH [of "if base < e_layend (s e) then e_layend (s e) else base"] Cons.prems False tmp
        by (auto split: prod.splits if_splits)
    qed
  qed
qed simp

section \<open>Linking a library into the list\<close>

lemma walk_back_spec:
  "walk_back s xs b st \<le> st \<and> (\<forall>k. walk_back s xs b st < k \<longrightarrow> k \<le> st \<longrightarrow> b < e_base (s (xs ! k)))
    \<and> (walk_back s xs b st = 0 \<or> e_base (s (xs ! walk_back s xs b st)) \<le> b)"
proof (induction st)
  case (Suc st)
  then show ?case using le_Suc_eq by (auto simp: not_less)
qed simp

lemma link_lib_mset: "mset (link_lib s xs stop lib b) = add_mset lib (mset xs)"
proof -
  have "mset (take n xs) + mset (drop n xs) = mset xs" for n
    by (metis append_take_drop_id mset_append)
  then show ?thesis by (simp add: link_lib_def Let_def)
qed

lemma link_lib_sorted:
  assumes srt: "sorted_wrt (\<le>) (map (\<lambda>i. e_base (s i)) xs)" and lib: "e_base (s lib) = b"
    and stop: "\<forall>q. stop = Some q \<longrightarrow> q < length xs \<and> b \<le> e_base (s (xs ! q))"
  shows "sorted_wrt (\<le>) (map (\<lambda>i. e_base (s i)) (link_lib s xs stop lib b))"
proof (cases "xs = []")
  case True
  then show ?thesis by (simp add: link_lib_def)
next
  case False
  define st where "st = (case stop of Some (Suc i) \<Rightarrow> i | _ \<Rightarrow> length xs - 1)"
  define i where "i = walk_back s xs b st"
  have nth: "e_base (s (xs ! j)) \<le> e_base (s (xs ! k))" if "j \<le> k" "k < length xs" for j k
    using sorted_wrt_nth_less [OF srt, of j k] that by (cases "j = k") auto
  have above: "b \<le> e_base (s (xs ! k))" if "st < k" "k < length xs" for k
    using stop nth [of "Suc st" k] that False by (auto simp: st_def split: option.splits nat.splits) 
  have st: "st < length xs"
    using stop False by (auto simp: st_def split: option.splits nat.splits)
  note w = walk_back_spec [of s xs b st, folded i_def]
  have il: "i < length xs" using w st by simp
  have hi: "b \<le> e_base (s (xs ! k))" if "i < k" "k < length xs" for k
    using w above [of k] that by (cases "k \<le> st") (auto intro: less_imp_le)
  show ?thesis
  proof (cases "b < e_base (s (xs ! i))")
    case True
    then have i0: "i = 0" using w by auto
    have "b \<le> e_base (s x)" if "x \<in> set xs" for x
    proof -
      obtain k where "k < length xs" "x = xs ! k" using \<open>x \<in> set xs\<close> by (auto simp: in_set_conv_nth)
      then show ?thesis using hi [of k] True i0 by (cases "k = 0") auto
    qed
    then show ?thesis
      using True False srt lib by (simp add: link_lib_def Let_def st_def [symmetric] i_def [symmetric])
  next
    case le: False
    have lo: "e_base (s x) \<le> b" if x: "x \<in> set (take (Suc i) xs)" for x
    proof -
      have "\<exists>k \<le> i. x = xs ! k" using x by (auto simp: in_set_conv_nth less_Suc_eq_le)
      then obtain k where "k \<le> i" "x = xs ! k" by blast
      then show ?thesis using nth [of k i] il le by auto
    qed
    have up: "b \<le> e_base (s x)" if x: "x \<in> set (drop (Suc i) xs)" for x
    proof -
      have "\<exists>k. k < length xs - Suc i \<and> x = xs ! (Suc i + k)" using x by (auto simp: in_set_conv_nth)
      then obtain k where "k < length xs - Suc i" "x = xs ! (Suc i + k)" by blast
      then show ?thesis using hi [of "Suc i + k"] by simp
    qed
    have "sorted_wrt (\<le>) (map (\<lambda>i. e_base (s i)) (take (Suc i) xs))" "sorted_wrt (\<le>) (map (\<lambda>i. e_base (s i)) (drop (Suc i) xs))"
      using srt by (simp_all add: sorted_wrt_take sorted_wrt_drop flip: take_map drop_map)
    moreover have "link_lib s xs stop lib b = take (Suc i) xs @ lib # drop (Suc i) xs"
      using False le by (simp add: link_lib_def Let_def st_def [symmetric] i_def [symmetric])
    ultimately show ?thesis
      using lo up lib by (auto simp: sorted_wrt_append intro: order_trans)
  qed
qed


section \<open>The invariant of the placement\<close>

text \<open>Two entries compete for addresses when memory is not conserved, when one is a fake entry, or when some
  object depends on both.\<close>

definition together :: "bool \<Rightarrow> layout_libs \<Rightarrow> estore \<Rightarrow> nat \<Rightarrow> nat \<Rightarrow> bool" where
  "together conserve l s a b \<longleftrightarrow> \<not> conserve \<or> a \<in> set (ll_fake l) \<or> b \<in> set (ll_fake l)
     \<or> (\<exists>o' \<in> set (ll_binlibs l). a \<in> set (e_depends (s o')) \<and> b \<in> set (e_depends (s o')))"

definition disjoint_slots :: "estore \<Rightarrow> nat \<Rightarrow> nat \<Rightarrow> bool" where
  "disjoint_slots s a b \<longleftrightarrow> e_layend (s a) \<le> e_base (s b) \<or> e_layend (s b) \<le> e_base (s a)"

definition slots_ok :: "bool \<Rightarrow> lstate \<Rightarrow> bool" where
  "slots_ok conserve = (\<lambda>(l, s). bases_ascend s (ll_list l) \<and> distinct (ll_list l)
     \<and> (\<forall>a \<in> set (ll_list l). \<forall>b \<in> set (ll_list l). a \<noteq> b \<longrightarrow> together conserve l s a b \<longrightarrow> disjoint_slots s a b))"

text \<open>What the loop relies on, with a bound \<open>B\<close> on the addresses in use and \<open>S\<close> on the sizes of the libraries to
  come: nothing wraps around, and the marks are older than the present turn.\<close>

definition layout_inv :: "bool \<Rightarrow> nat \<Rightarrow> nat \<Rightarrow> nat \<Rightarrow> nat list \<Rightarrow> lstate \<Rightarrow> bool" where
  "layout_inv conserve B S k rest = (\<lambda>(l, s). slots_ok conserve (l, s) \<and> B + S < 2 ^ 64
     \<and> unat (ll_mmap_start l) \<le> B \<and> unat (ll_mmap_fin l) \<le> B
     \<and> (\<forall>e \<in> set (ll_list l). unat (e_base (s e)) \<le> B \<and> unat (e_layend (s e)) \<le> B)
     \<and> distinct rest \<and> (\<forall>i \<in> set rest. i \<notin> set (ll_fake l))
     \<and> (\<forall>i \<in> set rest. e_done (s i) = 0 \<longrightarrow> i \<notin> set (ll_list l) \<and> unat (e_layend (s i) - e_base (s i)) \<le> S)
     \<and> (\<forall>i \<in> set rest \<union> set (ll_list l). if conserve then e_tmp (s i) < int k else e_tmp (s i) = - 1))"

lemma set_tmp_same [simp]:
  "e_base (set_tmp m is s i) = e_base (s i)" "e_layend (set_tmp m is s i) = e_layend (s i)"
  "e_depends (set_tmp m is s i) = e_depends (s i)" "e_done (set_tmp m is s i) = e_done (s i)"
  "e_filename (set_tmp m is s i) = e_filename (s i)" "e_end (set_tmp m is s i) = e_end (s i)"
  by (induction "is" arbitrary: s) (simp_all add: set_tmp_def)

lemma set_tmp_tmp [simp]: "e_tmp (set_tmp m is s i) = (if i \<in> set is then m else e_tmp (s i))"
  by (induction "is" arbitrary: s) (auto simp: set_tmp_def)

lemma mark_objects_same [simp]:
  "e_base (mark_objects m bs lib s i) = e_base (s i)" "e_layend (mark_objects m bs lib s i) = e_layend (s i)"
  "e_depends (mark_objects m bs lib s i) = e_depends (s i)" "e_done (mark_objects m bs lib s i) = e_done (s i)"
  "e_filename (mark_objects m bs lib s i) = e_filename (s i)"
  by (induction bs arbitrary: s) (simp_all add: mark_objects_def)

lemma mark_objects_tmp [simp]:
  "e_tmp (mark_objects m bs lib s i)
     = (if \<exists>b \<in> set bs. lib \<in> set (e_depends (s b)) \<and> i \<in> set (e_depends (s b)) then m else e_tmp (s i))"
  by (induction bs arbitrary: s) (auto simp: mark_objects_def)

lemma mark_together_same [simp]:
  "e_base (mark_together m bs fk lib s i) = e_base (s i)" "e_layend (mark_together m bs fk lib s i) = e_layend (s i)"
  "e_depends (mark_together m bs fk lib s i) = e_depends (s i)" "e_done (mark_together m bs fk lib s i) = e_done (s i)"
  "e_filename (mark_together m bs fk lib s i) = e_filename (s i)"
  by (simp_all add: mark_together_def)

lemma mark_together_tmp [simp]:
  "e_tmp (mark_together m bs fk lib s i) = (if i \<in> set fk
     \<or> (\<exists>b \<in> set bs. lib \<in> set (e_depends (s b)) \<and> i \<in> set (e_depends (s b))) then m else e_tmp (s i))"
  by (auto simp: mark_together_def)

lemma link_lib_set:
  "set (link_lib s xs stop lib b) = insert lib (set xs)"
  "distinct (link_lib s xs stop lib b) \<longleftrightarrow> distinct xs \<and> lib \<notin> set xs"
proof -
  have "set_mset (mset (link_lib s xs stop lib b)) = insert lib (set xs)"
    by (simp add: link_lib_mset)
  then show "set (link_lib s xs stop lib b) = insert lib (set xs)" by simp
  have "mset (link_lib s xs stop lib b) = mset (lib # xs)" by (simp add: link_lib_mset)
  then show "distinct (link_lib s xs stop lib b) \<longleftrightarrow> distinct xs \<and> lib \<notin> set xs"
    by (subst mset_eq_imp_distinct_iff [of _ "lib # xs"]) auto
qed

lemma find_slot_None_base:
  assumes "find_slot s m sz xs base = (b, r)"
  shows "b = base \<or> (\<exists>e \<in> set xs. b = e_layend (s e))"
  using assms by (induction xs arbitrary: base b r) (fastforce split: if_splits prod.splits)+

text \<open>The store of a turn after marking, the slot found and the entry placed there.\<close>

definition turn_store :: "bool \<Rightarrow> nat \<Rightarrow> nat \<Rightarrow> layout_libs \<Rightarrow> estore \<Rightarrow> estore" where
  "turn_store conserve k i l s = (if conserve then mark_together (int k) (ll_binlibs l) (ll_fake l) i s else s)"

lemma turn_store_same [simp]:
  "e_base (turn_store c k i l s j) = e_base (s j)" "e_layend (turn_store c k i l s j) = e_layend (s j)"
  "e_depends (turn_store c k i l s j) = e_depends (s j)" "e_done (turn_store c k i l s j) = e_done (s j)"
  "e_filename (turn_store c k i l s j) = e_filename (s j)"
  by (simp_all add: turn_store_def)

lemma turn_marks:
  assumes "layout_inv c B S k (i # rest) (l, s)" and "e \<in> set (ll_list l)" and "together c l s i e"
  shows "e_tmp (turn_store c k i l s e) = (if c then int k else - 1)"
  using assms by (auto simp: turn_store_def layout_inv_def together_def)

lemma turn_tmp:
  assumes "layout_inv c B S k (i # rest) (l, s)" and "e \<in> set (i # rest) \<union> set (ll_list l)"
  shows "if c then e_tmp (turn_store c k i l s e) < int (Suc k) else e_tmp (turn_store c k i l s e) = - 1"
proof -
  have t: "if c then e_tmp (s e) < int k else e_tmp (s e) = - 1" using assms by (auto simp: layout_inv_def)
  show ?thesis
  proof (cases c)
    case True
    then have "e_tmp (s e) < int k" using t by simp
    then show ?thesis using True by (simp add: turn_store_def)
  qed (use t in \<open>simp add: turn_store_def\<close>)
qed

lemma place_lib_eq:
  "place_lib c dn k i (l, s) =
    (let s1 = turn_store c k i l s; sz = e_layend (s i) - e_base (s i);
         (base, stop) = find_slot s1 (if c then int k else - 1) sz (ll_list l) (ll_mmap_start l)
     in if stop = None \<and> base + sz > ll_mmap_fin l then Inl (No_slot (e_filename (s i)))
        else
          let s2 = s1(i := place_at dn (ll_mmap_end l) base sz (s1 i));
              xs = link_lib s2 (ll_list l) stop i base
          in if bases_ascend s2 xs then Inr (l\<lparr>ll_list := xs\<rparr>, s2) else Inl Abort)"
  by (simp add: place_lib_def turn_store_def Let_def split: prod.split)

lemma turn_scan:
  assumes inv: "layout_inv c B S k (i # rest) (l, s)" and d: "e_done (s i) = 0"
    and f: "find_slot (turn_store c k i l s) (if c then int k else - 1) sz (ll_list l) (ll_mmap_start l) = (b, stop)"
    and sz: "sz = e_layend (s i) - e_base (s i)"
  shows "ll_mmap_start l \<le> b" and "fits b sz"
    and "\<forall>e \<in> set (ll_list l). together c l s i e \<longrightarrow> slot_free s b sz e"
    and "\<forall>q. stop = Some q \<longrightarrow> q < length (ll_list l) \<and> b + sz \<le> e_base (s (ll_list l ! q))"
proof -
  have "unat sz \<le> S" "B + S < 2 ^ 64" using inv d sz by (auto simp: layout_inv_def)
  then have fit: "fits x sz" if "unat x \<le> B" for x using that by (simp add: fits_def)
  have "sorted_wrt (\<le>) (map (\<lambda>i. e_base (turn_store c k i l s i)) (ll_list l))"
    using inv by (simp add: layout_inv_def slots_ok_def bases_ascend_def)
  note spec = find_slot_spec [OF _ _ _ f]
  have sp: "ll_mmap_start l \<le> b \<and> fits b sz
      \<and> (\<forall>e \<in> set (ll_list l). e_tmp (turn_store c k i l s e) = (if c then int k else - 1) \<longrightarrow>
          slot_free (turn_store c k i l s) b sz e)
      \<and> (case stop of Some q \<Rightarrow> q < length (ll_list l) \<and> b + sz \<le> e_base (turn_store c k i l s (ll_list l ! q))
         | None \<Rightarrow> True)"
    by (rule spec) (use inv fit in \<open>auto simp: layout_inv_def slots_ok_def bases_ascend_def\<close>)
  then show "ll_mmap_start l \<le> b" "fits b sz" by simp_all
  show "\<forall>e \<in> set (ll_list l). together c l s i e \<longrightarrow> slot_free s b sz e"
    using sp turn_marks [OF inv] by (auto simp: slot_free_def)
  show "\<forall>q. stop = Some q \<longrightarrow> q < length (ll_list l) \<and> b + sz \<le> e_base (s (ll_list l ! q))"
    using sp by auto
qed

lemma place_at_same [simp]:
  "e_base (place_at dn lim b sz e) = b" "e_layend (place_at dn lim b sz e) = b + sz"
  "e_depends (place_at dn lim b sz e) = e_depends e" "e_tmp (place_at dn lim b sz e) = e_tmp e"
  "e_filename (place_at dn lim b sz e) = e_filename e"
  by (simp_all add: place_at_def)

lemma layout_invI:
  assumes "slots_ok c (l, s)" and "B + S < 2 ^ 64" and "unat (ll_mmap_start l) \<le> B" and "unat (ll_mmap_fin l) \<le> B"
    and "\<And>e. e \<in> set (ll_list l) \<Longrightarrow> unat (e_base (s e)) \<le> B \<and> unat (e_layend (s e)) \<le> B"
    and "distinct rest" and "\<And>i. i \<in> set rest \<Longrightarrow> i \<notin> set (ll_fake l)"
    and "\<And>i. i \<in> set rest \<Longrightarrow> e_done (s i) = 0 \<Longrightarrow> i \<notin> set (ll_list l) \<and> unat (e_layend (s i) - e_base (s i)) \<le> S"
    and "\<And>i. i \<in> set rest \<union> set (ll_list l) \<Longrightarrow> if c then e_tmp (s i) < int k else e_tmp (s i) = - 1"
  shows "layout_inv c B S k rest (l, s)"
  using assms by (simp add: layout_inv_def)

lemma place_lib_step:
  assumes inv: "layout_inv c B S k (i # rest) (l, s)" and d: "e_done (s i) = 0"
  shows "case place_lib c dn k i (l, s) of Inl e \<Rightarrow> e = No_slot (e_filename (s i))
    | Inr (l', s') \<Rightarrow> layout_inv c B S (Suc k) rest (l', s')
        \<and> set (ll_list l') = insert i (set (ll_list l)) \<and> l' = l\<lparr>ll_list := ll_list l'\<rparr>
        \<and> (\<forall>j. e_depends (s' j) = e_depends (s j) \<and> e_filename (s' j) = e_filename (s j))
        \<and> (\<forall>j. j \<noteq> i \<longrightarrow> e_done (s' j) = e_done (s j))"
proof -
  let ?xs = "ll_list l" and ?s1 = "turn_store c k i l s"
  define sz where "sz = e_layend (s i) - e_base (s i)"
  obtain b stop where f: "find_slot ?s1 (if c then int k else - 1) sz ?xs (ll_mmap_start l) = (b, stop)"
    by fastforce
  note scan = turn_scan [OF inv d f sz_def]
  let ?s2 = "?s1(i := place_at dn (ll_mmap_end l) b sz (?s1 i))"
  let ?ys = "link_lib ?s2 ?xs stop i b"
  have i: "i \<notin> set ?xs" "i \<notin> set rest" "i \<notin> set (ll_fake l)" "distinct ?xs"
    and srt: "sorted_wrt (\<le>) (map (\<lambda>i. e_base (s i)) ?xs)"
    and dis: "\<forall>a \<in> set ?xs. \<forall>b \<in> set ?xs. a \<noteq> b \<longrightarrow> together c l s a b \<longrightarrow> disjoint_slots s a b"
    using inv d by (auto simp: layout_inv_def slots_ok_def bases_ascend_def)
  have old: "map (\<lambda>i. e_base (?s2 i)) ?xs = map (\<lambda>i. e_base (s i)) ?xs" using i(1) by auto
  have asc: "bases_ascend ?s2 ?ys"
    unfolding bases_ascend_def
  proof (rule link_lib_sorted)
    have "b \<le> b + sz" using scan(2) by (simp add: word_le_nat_alt fits_add)
    then show "\<forall>q. stop = Some q \<longrightarrow> q < length ?xs \<and> b \<le> e_base (?s2 (?xs ! q))"
      using scan(4) i(1) by (fastforce dest: nth_mem)
  next
    show "sorted_wrt (\<le>) (map (\<lambda>i. e_base (?s2 i)) ?xs)" unfolding old by (rule srt)
  qed simp
  show ?thesis
  proof (cases "stop = None \<and> b + sz > ll_mmap_fin l")
    case True
    then show ?thesis using f by (simp add: place_lib_eq Let_def sz_def)
  next
    case False
    have run: "place_lib c dn k i (l, s) = Inr (l\<lparr>ll_list := ?ys\<rparr>, ?s2)"
      using False f asc by (simp add: place_lib_eq Let_def sz_def)
    have "unat (b + sz) \<le> B"
    proof (cases stop)
      case None
      then have "b + sz \<le> ll_mmap_fin l" using False by simp
      moreover have "unat (ll_mmap_fin l) \<le> B" using inv by (simp add: layout_inv_def)
      ultimately show ?thesis by (simp add: word_le_nat_alt)
    next
      case (Some q)
      then have "unat (e_base (s (?xs ! q))) \<le> B" "b + sz \<le> e_base (s (?xs ! q))"
        using scan(4) inv by (auto simp: layout_inv_def)
      then show ?thesis by (simp add: word_le_nat_alt)
    qed
    then have bnd: "unat (b + sz) \<le> B" "unat b \<le> B" using fits_add [OF scan(2)] by simp_all
    have dep: "e_depends (?s2 j) = e_depends (s j)" for j by simp
    have tog: "together c (l\<lparr>ll_list := ys\<rparr>) ?s2 x y = together c l s x y" for ys x y
      unfolding together_def dep by simp
    have new: "disjoint_slots ?s2 i e" "disjoint_slots ?s2 e i" if "e \<in> set ?xs" "together c l s i e" for e
      using scan(3) that i(1) by (auto simp: slot_free_def disjoint_slots_def)
    have sym: "together c l s x y = together c l s y x" for x y by (auto simp: together_def)
    have pair: "disjoint_slots ?s2 x y" if xy: "x \<in> set ?ys" "y \<in> set ?ys" "x \<noteq> y" "together c l s x y" for x y
    proof -
      consider "x = i" "y \<in> set ?xs" | "y = i" "x \<in> set ?xs" | "x \<in> set ?xs" "y \<in> set ?xs"
        using xy(1-3) by (auto simp: link_lib_set)
      then show ?thesis
      proof cases
        case 1
        then show ?thesis using new(1) xy(4) by blast
      next
        case 2
        then show ?thesis using new(2) xy(4) sym by blast
      next
        case 3
        then have "disjoint_slots s x y" using dis xy(3,4) by blast
        then show ?thesis using 3 i(1) by (auto simp: disjoint_slots_def)
      qed
    qed
    have "distinct ?ys" using i by (simp add: link_lib_set)
    then have "slots_ok c (l\<lparr>ll_list := ?ys\<rparr>, ?s2)"
      unfolding slots_ok_def prod.case tog using asc pair by simp
    then have "layout_inv c B S (Suc k) rest (l\<lparr>ll_list := ?ys\<rparr>, ?s2)"
    proof (rule layout_invI)
      show "B + S < 2 ^ 64" "unat (ll_mmap_start (l\<lparr>ll_list := ?ys\<rparr>)) \<le> B"
        "unat (ll_mmap_fin (l\<lparr>ll_list := ?ys\<rparr>)) \<le> B" "distinct rest"
        using inv by (simp_all add: layout_inv_def)
      show "unat (e_base (?s2 e)) \<le> B \<and> unat (e_layend (?s2 e)) \<le> B" if "e \<in> set (ll_list (l\<lparr>ll_list := ?ys\<rparr>))" for e
        using that inv bnd by (auto simp: layout_inv_def link_lib_set)
      show "j \<notin> set (ll_fake (l\<lparr>ll_list := ?ys\<rparr>))" if "j \<in> set rest" for j
        using that inv by (simp add: layout_inv_def)
      show "j \<notin> set (ll_list (l\<lparr>ll_list := ?ys\<rparr>)) \<and> unat (e_layend (?s2 j) - e_base (?s2 j)) \<le> S"
        if "j \<in> set rest" "e_done (?s2 j) = 0" for j
        using that inv i(2) by (auto simp: layout_inv_def link_lib_set)
      show "if c then e_tmp (?s2 e) < int (Suc k) else e_tmp (?s2 e) = - 1"
        if "e \<in> set rest \<union> set (ll_list (l\<lparr>ll_list := ?ys\<rparr>))" for e
        using turn_tmp [OF inv, of e] that by (auto simp: link_lib_set)
    qed
    then show ?thesis unfolding run using i by (simp add: link_lib_set)
  qed
qed


lemma less_int_Suc: "a < int k \<Longrightarrow> a < 1 + int k"
  by simp

lemma layout_inv_skip:
  "layout_inv c B S k (i # rest) ls \<Longrightarrow> layout_inv c B S (Suc k) rest ls"
  by (cases ls; cases c) (auto simp: layout_inv_def intro: less_int_Suc)

lemma relist: "l' = l\<lparr>ll_list := a\<rparr> \<Longrightarrow> l'' = l'\<lparr>ll_list := b\<rparr> \<Longrightarrow> l'' = l\<lparr>ll_list := b\<rparr>"
  by simp

lemma place_libs_inv:
  "layout_inv c B S k rest (l, s) \<Longrightarrow> case place_libs c dn k rest (l, s) of
     Inl e \<Rightarrow> \<exists>i \<in> set rest. e = No_slot (e_filename (s i))
   | Inr (l', s') \<Rightarrow> slots_ok c (l', s') \<and> l' = l\<lparr>ll_list := ll_list l'\<rparr>
       \<and> (\<forall>j. e_depends (s' j) = e_depends (s j) \<and> e_filename (s' j) = e_filename (s j))
       \<and> set (ll_list l') = set (ll_list l) \<union> {i \<in> set rest. e_done (s i) = 0}"
proof (induction rest arbitrary: k l s)
  case Nil
  then show ?case by (simp add: layout_inv_def)
next
  case (Cons i rest)
  show ?case
  proof (cases "e_done (s i) = 0")
    case False
    then show ?thesis using Cons.IH [OF layout_inv_skip [OF Cons.prems]] by (auto split: sum.splits)
  next
    case True
    note step = place_lib_step [OF Cons.prems True, of dn]
    show ?thesis
    proof (cases "place_lib c dn k i (l, s)")
      case (Inl e)
      then show ?thesis using step True by simp
    next
      case (Inr ls')
      obtain l' s' where ls': "ls' = (l', s')" by fastforce
      have st: "layout_inv c B S (Suc k) rest (l', s')" "set (ll_list l') = insert i (set (ll_list l))"
          "l' = l\<lparr>ll_list := ll_list l'\<rparr>" "\<forall>j. e_depends (s' j) = e_depends (s j) \<and> e_filename (s' j) = e_filename (s j)"
          "\<forall>j. j \<noteq> i \<longrightarrow> e_done (s' j) = e_done (s j)"
        using step Inr ls' by simp_all
      have "i \<notin> set rest" using Cons.prems by (simp add: layout_inv_def)
      then have set: "{j \<in> set rest. e_done (s' j) = 0} = {j \<in> set rest. e_done (s j) = 0}"
        using st(5) by auto
      have run: "place_libs c dn k (i # rest) (l, s) = place_libs c dn (Suc k) rest (l', s')"
        using True Inr ls' by simp
      show ?thesis
      proof (cases "place_libs c dn (Suc k) rest (l', s')")
        case (Inl e)
        then show ?thesis using Cons.IH [OF st(1)] st(4) unfolding run by auto
      next
        case (Inr r)
        then show ?thesis
          using Cons.IH [OF st(1)] st(2,4) set True relist [OF st(3)] unfolding run by (auto split: prod.splits)
      qed
    qed
  qed
qed

section \<open>Dependencies that overlap\<close>

definition gap_upto :: "estore \<Rightarrow> nat list \<Rightarrow> nat \<Rightarrow> bool" where
  "gap_upto s ds n \<longleftrightarrow> (\<forall>i. 0 < i \<longrightarrow> i < n \<longrightarrow> i < length ds \<longrightarrow> e_end (s (ds ! (i - 1))) \<le> e_base (s (ds ! i)))"

definition drop_done :: "nat set \<Rightarrow> estore \<Rightarrow> estore" where
  "drop_done X s = (\<lambda>i. if i \<in> X then (s i)\<lparr>e_done := 0\<rparr> else s i)"

lemma drop_done_same [simp]:
  "e_base (drop_done X s i) = e_base (s i)" "e_end (drop_done X s i) = e_end (s i)"
  "e_type (drop_done X s i) = e_type (s i)"
  by (simp_all add: drop_done_def)

lemma clear_overlaps_step:
  "clear_overlaps s deps j =
     (if j < length deps then
        (if e_base (s (deps ! j)) < e_end (s (deps ! (j - 1)))
            \<and> (e_type (s (deps ! j)) = ET_DYN_I \<or> e_type (s (deps ! (j - 1))) = ET_DYN_I) then
           let i = (if e_refs (s (deps ! (j - 1))) < e_refs (s (deps ! j)) then j - 1 else j) in
           clear_overlaps (drop_done {deps ! i} s) (take i deps @ drop (Suc i) deps) (if i > 0 then i else 1)
         else clear_overlaps s deps (Suc j))
      else (deps, s))"
proof -
  have "drop_done {x} s = s(x := (s x)\<lparr>e_done := 0\<rparr>)" for x by (auto simp: drop_done_def)
  then show ?thesis by (subst clear_overlaps.simps) (auto simp: Let_def)
qed

lemma remove_nth:
  assumes "i < length xs" and "distinct xs"
  shows "set (take i xs @ drop (Suc i) xs) = set xs - {xs ! i}" "distinct (take i xs @ drop (Suc i) xs)"
    "subseq (take i xs @ drop (Suc i) xs) xs" "length (take i xs @ drop (Suc i) xs) = length xs - 1"
proof -
  have *: "set (as @ bs) = set (as @ x # bs) - {x} \<and> distinct (as @ bs) \<and> subseq (as @ bs) (as @ x # bs)"
    if "distinct (as @ x # bs)" for as bs and x :: 'a
    using that by (auto simp: subseq_append')
  note d = id_take_nth_drop [OF assms(1)]
  show "set (take i xs @ drop (Suc i) xs) = set xs - {xs ! i}" "distinct (take i xs @ drop (Suc i) xs)"
    "subseq (take i xs @ drop (Suc i) xs) xs"
    using * [of "take i xs" "xs ! i" "drop (Suc i) xs"] assms(2) d by simp_all
qed (use assms(1) in simp)

lemma subseq_set: "subseq xs ys \<Longrightarrow> set xs \<subseteq> set ys"
  by (induction xs ys rule: list_emb.induct) auto

lemma clear_overlaps_result:
  assumes "0 < j" and "gap_upto s deps j" and "\<forall>d \<in> set deps. e_type (s d) = ET_DYN_I" and "distinct deps"
    and "clear_overlaps s deps j = (ds, s')"
  shows "subseq ds deps \<and> gap_upto s ds (length ds) \<and> s' = drop_done (set deps - set ds) s"
  using assms
proof (induction "2 * length deps - j" arbitrary: s deps j ds s' rule: less_induct)
  case less
  note IH = less.hyps and pos = less.prems(1) and gap = less.prems(2) and dyn = less.prems(3)
    and dist = less.prems(4) and run = less.prems(5)
  show ?case
  proof (cases "j < length deps")
    case False
    then have "ds = deps" "s' = s" using run by (auto simp: clear_overlaps_step [of s deps j])
    moreover have "drop_done {} s = s" by (simp add: drop_done_def)
    ultimately show ?thesis using False gap by (auto simp: gap_upto_def)
  next
    case j: True
    show ?thesis
    proof (cases "e_base (s (deps ! j)) < e_end (s (deps ! (j - 1)))")
      case False
      then have "clear_overlaps s deps (Suc j) = (ds, s')"
        using run j by (simp add: clear_overlaps_step [of s deps j])
      moreover have "gap_upto s deps (Suc j)"
        using gap False by (auto simp: gap_upto_def less_Suc_eq)
      ultimately show ?thesis using IH [of deps "Suc j" s ds s'] j dyn dist by simp
    next
      case ov: True
      define i where "i = (if e_refs (s (deps ! (j - 1))) < e_refs (s (deps ! j)) then j - 1 else j)"
      define deps' where "deps' = take i deps @ drop (Suc i) deps"
      define t where "t = drop_done {deps ! i} s"
      have i: "i < length deps" "i \<le> j" "j \<le> Suc i" using j pos by (auto simp: i_def)
      have r: "clear_overlaps t deps' (if i > 0 then i else 1) = (ds, s')"
        using run j ov dyn unfolding clear_overlaps_step [of s deps j] i_def [symmetric] deps'_def t_def Let_def
        by simp
      note set = remove_nth [OF i(1) dist, folded deps'_def]
      have "gap_upto t deps' (if i > 0 then i else 1)"
        using gap i by (auto simp: gap_upto_def deps'_def t_def nth_append)
      moreover have m: "2 * length deps' - (if i > 0 then i else 1) < 2 * length deps - j"
        using set(4) i j pos by auto
      ultimately have ih: "subseq ds deps' \<and> gap_upto t ds (length ds) \<and> s' = drop_done (set deps' - set ds) t"
        using IH [OF m _ _ _ _ r] set dyn by (simp add: t_def)
      have "deps ! i \<notin> set ds" using subseq_set [of ds deps'] ih set(1) by blast
      then have "drop_done (set deps' - set ds) t = drop_done (set deps - set ds) s"
        using i(1) unfolding set(1) drop_done_def t_def by (intro ext) (simp; blast)
      moreover have "subseq ds deps" using ih set(3) subseq_order.order_trans by blast
      ultimately show ?thesis using ih by (simp add: gap_upto_def t_def)
    qed
  qed
qed

section \<open>Sorting with a comparison function\<close>

text \<open>What \<^verbatim>\<open>qsort\<close> requires of its comparison function, and what it gives then.\<close>

locale qsort_cmp =
  fixes cmp :: "'a \<Rightarrow> 'a \<Rightarrow> int"
  assumes cmp_total: "cmp x y \<le> 0 \<or> cmp y x \<le> 0"
    and cmp_trans: "cmp x y \<le> 0 \<Longrightarrow> cmp y z \<le> 0 \<Longrightarrow> cmp x z \<le> 0"
begin

lemma insort_sorted:
  assumes "sorted_wrt (\<lambda>x y. cmp x y \<le> 0) ys"
  shows "sorted_wrt (\<lambda>x y. cmp x y \<le> 0) (insort_cmp cmp x ys) \<and> mset (insort_cmp cmp x ys) = add_mset x (mset ys)"
  using assms
proof (induction ys)
  case (Cons y ys)
  then have ih: "sorted_wrt (\<lambda>x y. cmp x y \<le> 0) (insort_cmp cmp x ys)"
      "mset (insort_cmp cmp x ys) = add_mset x (mset ys)" by simp_all
  then have set: "set (insort_cmp cmp x ys) = insert x (set ys)" by (metis set_mset_add_mset_insert set_mset_mset)
  show ?case
  proof (cases "cmp x y \<le> 0")
    case True
    then show ?thesis using Cons.prems cmp_trans by auto
  next
    case False
    then have "cmp y x \<le> 0" using cmp_total by blast
    then show ?thesis using False Cons.prems ih set by auto
  qed
qed simp

lemma qsort_sorted: "sorted_wrt (\<lambda>x y. cmp x y \<le> 0) (qsort cmp xs) \<and> mset (qsort cmp xs) = mset xs"
  by (induction xs) (simp_all add: qsort_def insort_sorted)

end

interpretation deps_order: qsort_cmp "\<lambda>a b. deps_cmp (s a) (s b)" for s :: estore
  by unfold_locales (auto simp: deps_cmp_def split: if_splits)

interpretation addr_order: qsort_cmp "\<lambda>a b. addr_cmp (s a) (s b)" for s :: estore
  by unfold_locales (auto simp: addr_cmp_def split: if_splits)

section \<open>Properties\<close>


definition sample_entry :: "string \<Rightarrow> u64 \<Rightarrow> u32 \<Rightarrow> nat list \<Rightarrow> pl_entry" where
  "sample_entry nm sz dn deps = \<lparr>e_filename = nm, e_soname = nm, e_base = 0, e_end = sz, e_layend = sz,
     e_dev = 8, e_ino = 1, e_type = ET_DYN_I, e_done = dn, e_refs = 1, e_flags = 62, e_tmp = - 1, e_depends = deps\<rparr>"

text \<open>Three libraries; \<^verbatim>\<open>libb\<close> sits at its place already, an executable loads \<^verbatim>\<open>liba\<close> and \<^verbatim>\<open>libb\<close>.\<close>

definition sample_estore :: estore where
  "sample_estore = (\<lambda>_. sample_entry ''libc'' 0x3000 0 [])
     (0 := sample_entry ''liba'' 0x2000 0 [],
      1 := (sample_entry ''libb'' 0x2000 1 [])\<lparr>e_base := 0x11000, e_end := 0x13000, e_layend := 0x13000\<rparr>,
      3 := sample_entry ''exec'' 0x1000 0 [0, 1])"

definition sample_ll :: layout_libs where
  "sample_ll = empty_ll\<lparr>ll_libs := [0, 1, 2], ll_binlibs := [3], ll_list := [1], ll_mmap_base := 0x10000,
     ll_mmap_start := 0x10000, ll_mmap_fin := 0x20000, ll_mmap_end := 0x20000, ll_max_page_size := 0x1000\<rparr>"

lemma sample_layout_inv: "layout_inv True 0x20000 0x10000 0 [0, 1, 2] (sample_ll, sample_estore)"
  by (simp add: layout_inv_def slots_ok_def bases_ascend_def sample_ll_def empty_ll_def sample_estore_def
      sample_entry_def)


text \<open>C2: a library is reported to have no slot only when there is none: every range of its size between the start
  and the end of the region meets an entry that competes with it.\<close>

theorem layout_no_slot_complete:
  assumes inv: "layout_inv conserve B S k (i # libs) (l, s)" and d: "e_done (s i) = 0"
    and p: "place_lib conserve dn k i (l, s) = Inl e"
    and b': "ll_mmap_start l \<le> b'" "unat b' + unat (e_layend (s i) - e_base (s i)) \<le> unat (ll_mmap_fin l)"
  shows "e = No_slot (e_filename (s i)) \<and> (\<exists>x \<in> set (ll_list l). together conserve l s i x
    \<and> \<not> (b' + (e_layend (s i) - e_base (s i)) \<le> e_base (s x) \<or> e_layend (s x) \<le> b'))"
proof -
  define sz where "sz = e_layend (s i) - e_base (s i)"
  let ?s1 = "turn_store conserve k i l s" and ?m = "if conserve then int k else - 1"
  obtain b stop where f: "find_slot ?s1 ?m sz (ll_list l) (ll_mmap_start l) = (b, stop)" by fastforce
  note scan = turn_scan [OF inv d f sz_def]
  have e: "e = No_slot (e_filename (s i))" using place_lib_step [OF inv d, of dn] p by simp
  have B: "unat sz \<le> S" "B + S < 2 ^ 64" "unat (ll_mmap_start l) \<le> B" "unat (ll_mmap_fin l) \<le> B"
      "\<forall>e \<in> set (ll_list l). unat (e_layend (s e)) \<le> B"
    using inv d by (auto simp: layout_inv_def sz_def)
  have fit: "fits x sz" if "unat x \<le> B" for x using that B(1,2) by (simp add: fits_def)
  have "unat b' \<le> B" using b'(2) B(4) by linarith
  note fb = fit [OF this]
  have le: "b' + sz \<le> ll_mmap_fin l" using b'(2) fits_add [OF fb] by (simp add: word_le_nat_alt sz_def)
  have big: "b + sz > ll_mmap_fin l"
  proof (rule ccontr)
    assume "\<not> b + sz > ll_mmap_fin l"
    then show False
      using p f e scan(4) place_lib_step [OF inv d, of dn]
      by (auto simp: place_lib_eq Let_def sz_def split: if_splits)
  qed
  have "\<not> b \<le> b'" using big le fits_mono [OF _ scan(2) fb] by (meson leD order_trans)
  then have "\<exists>x \<in> set (ll_list l). e_tmp (?s1 x) = ?m \<and> \<not> slot_free ?s1 b' sz x"
  proof (rule contrapos_np)
    assume "\<not> (\<exists>x \<in> set (ll_list l). e_tmp (?s1 x) = ?m \<and> \<not> slot_free ?s1 b' sz x)"
    then have all: "\<forall>x \<in> set (ll_list l). e_tmp (?s1 x) = ?m \<longrightarrow> slot_free ?s1 b' sz x" by blast
    show "b \<le> b'" by (rule find_slot_least [OF _ _ f b'(1) fb all]) (use fit B(3,5) in auto)
  qed
  then obtain x where x: "x \<in> set (ll_list l)" "e_tmp (?s1 x) = ?m" "\<not> slot_free s b' sz x"
    by (auto simp: slot_free_def)
  have "together conserve l s i x"
  proof (cases conserve)
    case True
    have "e_tmp (s x) < int k" using inv x(1) True by (simp add: layout_inv_def)
    then show ?thesis using x(2) True by (auto simp: together_def turn_store_def split: if_splits)
  qed (simp add: together_def)
  then show ?thesis using e x by (auto simp: slot_free_def sz_def)
qed


definition sample_full_ll :: layout_libs where
  "sample_full_ll = sample_ll\<lparr>ll_mmap_fin := 0x12000, ll_mmap_end := 0x12000\<rparr>"

theorem layout_no_slot_complete_witness:
  "\<exists>e x. place_lib True 1 0 0 (sample_full_ll, sample_estore) = Inl e \<and> e = No_slot ''liba''
     \<and> x \<in> {1 :: nat} \<and> together True sample_full_ll sample_estore 0 x"
proof -
  note ev = sample_full_ll_def sample_ll_def empty_ll_def sample_estore_def sample_entry_def
  have i: "layout_inv True 0x20000 0x10000 0 [0, 1, 2] (sample_full_ll, sample_estore)"
    by (simp add: layout_inv_def slots_ok_def bases_ascend_def ev)
  have d: "e_done (sample_estore 0) = 0" by (simp add: ev)
  have p: "place_lib True 1 0 0 (sample_full_ll, sample_estore) = Inl (No_slot ''liba'')"
    by (simp add: place_lib_def mark_together_def mark_objects_def set_tmp_def ev Let_def)
  have s: "ll_mmap_start sample_full_ll \<le> 0x10000"
    "unat (0x10000 :: u64) + unat (e_layend (sample_estore 0) - e_base (sample_estore 0)) \<le> unat (ll_mmap_fin sample_full_ll)"
    "ll_list sample_full_ll = [1]"
    by (simp_all add: ev)
  from layout_no_slot_complete [OF i d p s(1,2)] p s(3) show ?thesis by auto
qed

text \<open>C3: the loop over the dependencies of an object ends; it removes entries from the list and clears their
  \<^verbatim>\<open>done\<close> flag, changes nothing else, and leaves libraries whose ranges do not overlap.\<close>

theorem clear_overlaps_disjoint:
  assumes "distinct deps" and "\<forall>d \<in> set deps. e_type (s d) = ET_DYN_I \<and> e_base (s d) \<le> e_end (s d)"
  shows "\<exists>ds. clear_overlaps s deps 1 = (ds, drop_done (set deps - set ds) s) \<and> subseq ds deps
     \<and> (\<forall>i j. i < j \<longrightarrow> j < length ds \<longrightarrow> e_end (s (ds ! i)) \<le> e_base (s (ds ! j)))"
proof -
  obtain ds s' where c: "clear_overlaps s deps 1 = (ds, s')" by fastforce
  have "gap_upto s deps 1" by (simp add: gap_upto_def)
  then have r: "subseq ds deps" "gap_upto s ds (length ds)" "s' = drop_done (set deps - set ds) s"
    using clear_overlaps_result [OF _ _ _ assms(1) c] assms(2) by auto
  have "e_end (s (ds ! i)) \<le> e_base (s (ds ! j))" if "i < j" "j < length ds" for i j
    using that
  proof (induction j)
    case (Suc j)
    have gap: "e_end (s (ds ! j)) \<le> e_base (s (ds ! Suc j))" using r(2) Suc.prems by (auto simp: gap_upto_def)
    show ?case
    proof (cases "i = j")
      case False
      have "ds ! j \<in> set deps" using subseq_set [OF r(1)] Suc.prems(2) by (meson Suc_lessD nth_mem subsetD)
      then have "e_base (s (ds ! j)) \<le> e_end (s (ds ! j))" using assms(2) by blast
      then show ?thesis using Suc False gap by fastforce
    qed (use gap in simp)
  qed simp
  then show ?thesis using c r by blast
qed

theorem clear_overlaps_disjoint_witness:
  "\<exists>ds. clear_overlaps sample_estore [0, 2, 1] 1 = (ds, drop_done ({0, 2, 1} - set ds) sample_estore)
     \<and> subseq ds [0, 2, 1] \<and> (\<forall>i j. i < j \<longrightarrow> j < length ds \<longrightarrow>
          e_end (sample_estore (ds ! i)) \<le> e_base (sample_estore (ds ! j)))"
  using clear_overlaps_disjoint [of "[0, 2, 1]" sample_estore]
  by (simp add: sample_estore_def sample_entry_def)

lemma sorted_wrt_dropWhile: "sorted_wrt R xs \<Longrightarrow> sorted_wrt R (dropWhile P xs)"
  by (induction xs) auto

lemma sorted_wrt_takeWhile: "sorted_wrt R xs \<Longrightarrow> sorted_wrt R (takeWhile P xs)"
  by (induction xs) (auto dest: set_takeWhileD)

text \<open>The list of libraries that keep their place, taken from the libraries sorted by \<^verbatim>\<open>addr_cmp\<close>, is sorted by
  address and holds only libraries that have a place.\<close>

theorem layout_list_ascends:
  "(let xs = fst (build_list s b f (sort_entries addr_cmp s libs) rb) in
     bases_ascend s xs \<and> (\<forall>i \<in> set xs. i \<in> set libs \<and> e_done (s i) \<noteq> 0))"
proof -
  define ls where "ls = sort_entries addr_cmp s libs"
  have srt: "sorted_wrt (\<lambda>x y. addr_cmp (s x) (s y) \<le> 0) ls" "mset ls = mset libs"
    using addr_order.qsort_sorted [of s libs] by (simp_all add: ls_def sort_entries_def)
  then have set: "set ls = set libs" by (metis set_mset_mset)
  define rest where "rest = dropWhile (\<lambda>i. e_done (s i) \<noteq> 0 \<and> e_layend (s i) < b) ls"
  have rs: "sorted_wrt (\<lambda>x y. addr_cmp (s x) (s y) \<le> 0) rest"
    using srt(1) unfolding rest_def by (rule sorted_wrt_dropWhile)
  have sub: "set rest \<subseteq> set libs" using set set_dropWhileD unfolding rest_def by fastforce
  show ?thesis
  proof (cases rest)
    case Nil
    then show ?thesis by (simp add: build_list_def ls_def [symmetric] rest_def [symmetric] bases_ascend_def)
  next
    case (Cons i js)
    let ?more = "takeWhile (\<lambda>j. e_done (s j) \<noteq> 0 \<and> e_base (s j) < f) js"
    have xs: "fst (build_list s b f ls rb) = (if e_done (s i) = 0 then [] else i # ?more)"
      using Cons by (simp add: build_list_def rest_def [symmetric] Let_def)
    have "sorted_wrt (\<lambda>x y. addr_cmp (s x) (s y) \<le> 0) (i # ?more)"
      using rs Cons by (auto dest: set_takeWhileD intro: sorted_wrt_takeWhile)
    then have "sorted_wrt (\<lambda>x y. e_base (s x) \<le> e_base (s y)) (i # ?more)" if "e_done (s i) \<noteq> 0"
      by (rule sorted_wrt_mono_rel [rotated])
        (use that in \<open>auto simp: addr_cmp_def dest: set_takeWhileD split: if_splits\<close>)
    then show ?thesis
      using sub Cons xs by (auto simp: ls_def [symmetric] bases_ascend_def sorted_wrt_map dest: set_takeWhileD)
  qed
qed

theorem layout_list_ascends_witness:
  "fst (build_list sample_estore 0x10000 0x20000 (sort_entries addr_cmp sample_estore [0, 1, 2]) 0) = [1]
     \<and> bases_ascend sample_estore [1] \<and> e_done (sample_estore 1) \<noteq> 0"
proof -
  have "fst (build_list sample_estore 0x10000 0x20000 (sort_entries addr_cmp sample_estore [0, 1, 2]) 0) = [1]"
    by (simp add: build_list_def sort_entries_def qsort_def addr_cmp_def sample_estore_def sample_entry_def Let_def)
  then show ?thesis
    using layout_list_ascends [of sample_estore "0x10000" "0x20000" "[0, 1, 2]" 0] by (simp add: Let_def)
qed


end
