(* ===== verification/Crc32.thy ===== *)
theory Crc32
  imports Prelude
begin

text \<open>
  \<^verbatim>\<open>src/crc32.c\<close>, the checksum of the loaded image, and \<^verbatim>\<open>src/makecrc.c\<close>, the program that printed its table.

  The lemmas: the table is the one \<^verbatim>\<open>makecrc\<close> computes from the polynomial, and the byte-wise computation with
  the table is the bit-wise division register.
\<close>

unbundle bit_operations_syntax

section \<open>The program that made the table\<close>

definition crc_terms :: "nat list" where
  "crc_terms = [0, 1, 2, 4, 5, 7, 8, 10, 11, 12, 16, 22, 23, 26]"

definition crc_pattern :: u64 where
  "crc_pattern = fold (\<lambda>p e. e OR push_bit (31 - p) 1) crc_terms 0"

definition crc_bit :: "u64 \<Rightarrow> u64" where
  "crc_bit c = (if c AND 1 \<noteq> 0 then drop_bit 1 c XOR crc_pattern else drop_bit 1 c)"

definition makecrc_entry :: "nat \<Rightarrow> u64" where
  "makecrc_entry i = (if i = 0 then 0 else (crc_bit ^^ 8) (of_nat i))"

section \<open>The checksum\<close>

definition crc32_table :: "u32 list" where
  "crc32_table =
    [0x00000000, 0x77073096, 0xee0e612c, 0x990951ba, 0x076dc419, 0x706af48f,
     0xe963a535, 0x9e6495a3, 0x0edb8832, 0x79dcb8a4, 0xe0d5e91e, 0x97d2d988,
     0x09b64c2b, 0x7eb17cbd, 0xe7b82d07, 0x90bf1d91, 0x1db71064, 0x6ab020f2,
     0xf3b97148, 0x84be41de, 0x1adad47d, 0x6ddde4eb, 0xf4d4b551, 0x83d385c7,
     0x136c9856, 0x646ba8c0, 0xfd62f97a, 0x8a65c9ec, 0x14015c4f, 0x63066cd9,
     0xfa0f3d63, 0x8d080df5, 0x3b6e20c8, 0x4c69105e, 0xd56041e4, 0xa2677172,
     0x3c03e4d1, 0x4b04d447, 0xd20d85fd, 0xa50ab56b, 0x35b5a8fa, 0x42b2986c,
     0xdbbbc9d6, 0xacbcf940, 0x32d86ce3, 0x45df5c75, 0xdcd60dcf, 0xabd13d59,
     0x26d930ac, 0x51de003a, 0xc8d75180, 0xbfd06116, 0x21b4f4b5, 0x56b3c423,
     0xcfba9599, 0xb8bda50f, 0x2802b89e, 0x5f058808, 0xc60cd9b2, 0xb10be924,
     0x2f6f7c87, 0x58684c11, 0xc1611dab, 0xb6662d3d, 0x76dc4190, 0x01db7106,
     0x98d220bc, 0xefd5102a, 0x71b18589, 0x06b6b51f, 0x9fbfe4a5, 0xe8b8d433,
     0x7807c9a2, 0x0f00f934, 0x9609a88e, 0xe10e9818, 0x7f6a0dbb, 0x086d3d2d,
     0x91646c97, 0xe6635c01, 0x6b6b51f4, 0x1c6c6162, 0x856530d8, 0xf262004e,
     0x6c0695ed, 0x1b01a57b, 0x8208f4c1, 0xf50fc457, 0x65b0d9c6, 0x12b7e950,
     0x8bbeb8ea, 0xfcb9887c, 0x62dd1ddf, 0x15da2d49, 0x8cd37cf3, 0xfbd44c65,
     0x4db26158, 0x3ab551ce, 0xa3bc0074, 0xd4bb30e2, 0x4adfa541, 0x3dd895d7,
     0xa4d1c46d, 0xd3d6f4fb, 0x4369e96a, 0x346ed9fc, 0xad678846, 0xda60b8d0,
     0x44042d73, 0x33031de5, 0xaa0a4c5f, 0xdd0d7cc9, 0x5005713c, 0x270241aa,
     0xbe0b1010, 0xc90c2086, 0x5768b525, 0x206f85b3, 0xb966d409, 0xce61e49f,
     0x5edef90e, 0x29d9c998, 0xb0d09822, 0xc7d7a8b4, 0x59b33d17, 0x2eb40d81,
     0xb7bd5c3b, 0xc0ba6cad, 0xedb88320, 0x9abfb3b6, 0x03b6e20c, 0x74b1d29a,
     0xead54739, 0x9dd277af, 0x04db2615, 0x73dc1683, 0xe3630b12, 0x94643b84,
     0x0d6d6a3e, 0x7a6a5aa8, 0xe40ecf0b, 0x9309ff9d, 0x0a00ae27, 0x7d079eb1,
     0xf00f9344, 0x8708a3d2, 0x1e01f268, 0x6906c2fe, 0xf762575d, 0x806567cb,
     0x196c3671, 0x6e6b06e7, 0xfed41b76, 0x89d32be0, 0x10da7a5a, 0x67dd4acc,
     0xf9b9df6f, 0x8ebeeff9, 0x17b7be43, 0x60b08ed5, 0xd6d6a3e8, 0xa1d1937e,
     0x38d8c2c4, 0x4fdff252, 0xd1bb67f1, 0xa6bc5767, 0x3fb506dd, 0x48b2364b,
     0xd80d2bda, 0xaf0a1b4c, 0x36034af6, 0x41047a60, 0xdf60efc3, 0xa867df55,
     0x316e8eef, 0x4669be79, 0xcb61b38c, 0xbc66831a, 0x256fd2a0, 0x5268e236,
     0xcc0c7795, 0xbb0b4703, 0x220216b9, 0x5505262f, 0xc5ba3bbe, 0xb2bd0b28,
     0x2bb45a92, 0x5cb36a04, 0xc2d7ffa7, 0xb5d0cf31, 0x2cd99e8b, 0x5bdeae1d,
     0x9b64c2b0, 0xec63f226, 0x756aa39c, 0x026d930a, 0x9c0906a9, 0xeb0e363f,
     0x72076785, 0x05005713, 0x95bf4a82, 0xe2b87a14, 0x7bb12bae, 0x0cb61b38,
     0x92d28e9b, 0xe5d5be0d, 0x7cdcefb7, 0x0bdbdf21, 0x86d3d2d4, 0xf1d4e242,
     0x68ddb3f8, 0x1fda836e, 0x81be16cd, 0xf6b9265b, 0x6fb077e1, 0x18b74777,
     0x88085ae6, 0xff0f6a70, 0x66063bca, 0x11010b5c, 0x8f659eff, 0xf862ae69,
     0x616bffd3, 0x166ccf45, 0xa00ae278, 0xd70dd2ee, 0x4e048354, 0x3903b3c2,
     0xa7672661, 0xd06016f7, 0x4969474d, 0x3e6e77db, 0xaed16a4a, 0xd9d65adc,
     0x40df0b66, 0x37d83bf0, 0xa9bcae53, 0xdebb9ec5, 0x47b2cf7f, 0x30b5ffe9,
     0xbdbdf21c, 0xcabac28a, 0x53b39330, 0x24b4a3a6, 0xbad03605, 0xcdd70693,
     0x54de5729, 0x23d967bf, 0xb3667a2e, 0xc4614ab8, 0x5d681b02, 0x2a6f2b94,
     0xb40bbe37, 0xc30c8ea1, 0x5a05df1b, 0x2d02ef8d]"

definition crc32_byte :: "u32 \<Rightarrow> u8 \<Rightarrow> u32" where
  "crc32_byte crc b = crc32_table ! unat ((crc XOR ucast b) AND 0xff) XOR drop_bit 8 crc"

text \<open>\<open>buf\<close> holds the \<^verbatim>\<open>len\<close> bytes.\<close>

definition crc32 :: "u32 \<Rightarrow> u8 list \<Rightarrow> u32" where
  "crc32 crc buf = NOT (foldl crc32_byte (NOT crc) buf)"

section \<open>The bit-wise register\<close>

text \<open>One step of the register, and the same checksum bit by bit.\<close>

definition reg_step :: "u32 \<Rightarrow> u32" where
  "reg_step c = drop_bit 1 c XOR (if bit c 0 then 0xedb88320 else 0)"

definition crc32_bitwise :: "u32 \<Rightarrow> u8 list \<Rightarrow> u32" where
  "crc32_bitwise crc buf = NOT (foldl (\<lambda>c b. (reg_step ^^ 8) (c XOR ucast b)) (NOT crc) buf)"

lemma reg_step_xor: "reg_step (a XOR b) = reg_step a XOR reg_step b"
proof -
  have "drop_bit 1 (a XOR b) = drop_bit 1 a XOR drop_bit 1 b" by (rule bit_word_eqI) (simp add: bit_simps)
  then show ?thesis by (cases "bit a 0"; cases "bit b 0") (simp_all add: reg_step_def bit_simps ac_simps)
qed

lemma reg_steps_xor: "(reg_step ^^ n) (a XOR b) = (reg_step ^^ n) a XOR (reg_step ^^ n) b"
  by (induction n) (simp_all add: reg_step_xor)

lemma reg_steps_high:
  assumes "\<forall>i < n. \<not> bit x i"
  shows "(reg_step ^^ n) x = drop_bit n x"
  using assms
proof (induction n)
  case (Suc n)
  then have "\<not> bit (drop_bit n x) 0" by (simp add: bit_simps)
  then show ?case using Suc by (simp add: reg_step_def)
qed simp

section \<open>The table\<close>

text \<open>Everything that can be built by exclusive-or from a list of words, in the order of the table.\<close>

fun xor_span :: "u32 list \<Rightarrow> u32 list" where
  "xor_span [] = [0]"
| "xor_span (v # vs) = (let xs = xor_span vs in xs @ map (\<lambda>x. x XOR v) xs)"

lemma of_nat_high_bit:
  assumes "i < 2 ^ n" and "n < 32"
  shows "(of_nat (i + 2 ^ n) :: u32) = of_nat i XOR 2 ^ n"
proof -
  have "\<not> bit i n" using assms(1) by (simp add: bit_iff_odd)
  then have "of_nat i AND (2 ^ n :: u32) = 0"
    using assms(2) by (intro bit_word_eqI) (auto simp: bit_simps)
  then show ?thesis by (simp add: disjunctive_add_eq_xor)
qed

lemma xor_span_table:
  assumes "\<And>a b. f (a XOR b) = f a XOR f b" and "f 0 = 0" and "n < 32"
  shows "map (\<lambda>i. f (of_nat i :: u32)) [0..<2 ^ n] = xor_span (map (\<lambda>k. f (2 ^ k)) (rev [0..<n]))"
  using assms(3)
proof (induction n)
  case (Suc n)
  have "[0..<2 ^ Suc n] = [0..<2 ^ n] @ map (\<lambda>i. i + 2 ^ n) [0..<2 ^ n]"
    by (simp add: map_add_upt mult_2 flip: upt_add_eq_append)
  moreover have "map (\<lambda>i. f (of_nat (i + 2 ^ n))) [0..<2 ^ n] = map (\<lambda>i. f (of_nat i) XOR f (2 ^ n)) [0..<2 ^ n]"
    using of_nat_high_bit [of _ n] Suc.prems assms(1) by (intro map_cong) (auto simp del: of_nat_add)
  ultimately show ?case
    using Suc by (simp add: comp_def Let_def del: of_nat_add flip: Suc.IH)
qed (simp add: assms(2))

lemma reg_step8: "(reg_step ^^ 8) x
    = reg_step (reg_step (reg_step (reg_step (reg_step (reg_step (reg_step (reg_step x)))))))"
  by (simp add: eval_nat_numeral)

lemma reg_step_if: "reg_step c = (if odd c then drop_bit 1 c XOR 0xedb88320 else drop_bit 1 c)"
  by (simp add: reg_step_def bit_0)

lemma table_basis: "map (\<lambda>k. (reg_step ^^ 8) (2 ^ k)) (rev [0..<8])
    = [0xedb88320, 0x76dc4190, 0x3b6e20c8, 0x1db71064, 0x0edb8832, 0x076dc419, 0xee0e612c, 0x77073096]"
  unfolding reg_step8 by (simp add: reg_step_if upt_rec)

lemma table_span: "xor_span [0xedb88320, 0x76dc4190, 0x3b6e20c8, 0x1db71064, 0x0edb8832, 0x076dc419, 0xee0e612c, 0x77073096] = crc32_table"
  by (simp add: crc32_table_def)

lemma crc32_table_eq: "map (\<lambda>i. (reg_step ^^ 8) (of_nat i)) [0..<256] = crc32_table"
  using xor_span_table [of "reg_step ^^ 8" 8, OF reg_steps_xor] table_basis table_span
  by (simp add: reg_steps_high)

lemma crc32_table_nth: "i < 256 \<Longrightarrow> crc32_table ! i = (reg_step ^^ 8) (of_nat i)"
  by (simp flip: crc32_table_eq)

section \<open>Properties\<close>

lemma low_byte: "unat ((x :: u32) AND 0xff) < 256"
proof -
  have "x AND 0xff = take_bit 8 x" by (simp add: take_bit_eq_mask mask_eq_exp_minus_1)
  then show ?thesis using take_bit_nat_less_exp [of 8 "unat x"] by (simp add: unsigned_take_bit_eq)
qed

lemma crc32_byte_eq: "crc32_byte c b = (reg_step ^^ 8) (c XOR ucast b)"
proof -
  let ?x = "c XOR ucast b"
  have m: "(0xff :: u32) = mask 8" by (simp add: mask_eq_exp_minus_1)
  have "?x = (?x AND 0xff) XOR (?x AND NOT 0xff)" by (rule bit_word_eqI) (auto simp: bit_simps)
  then have "(reg_step ^^ 8) ?x = (reg_step ^^ 8) (?x AND 0xff) XOR (reg_step ^^ 8) (?x AND NOT 0xff)"
    by (metis reg_steps_xor)
  also have "(reg_step ^^ 8) (?x AND NOT 0xff) = drop_bit 8 (?x AND NOT 0xff)"
    unfolding m by (rule reg_steps_high) (simp add: bit_simps)
  also have "drop_bit 8 (?x AND NOT 0xff) = drop_bit 8 c"
    unfolding m by (rule bit_word_eqI) (auto simp: bit_simps dest: bit_imp_le_length)
  also have "(reg_step ^^ 8) (?x AND 0xff) = crc32_table ! unat (?x AND 0xff)"
    using low_byte by (simp add: crc32_table_nth)
  finally show ?thesis by (simp add: crc32_byte_def)
qed

text \<open>C39: the checksum computed byte by byte with the table is the checksum computed bit by bit with the division
  register of the CRC-32 polynomial, for every start value and every buffer.\<close>

theorem crc32_is_bitwise: "crc32 crc buf = crc32_bitwise crc buf"
  by (simp add: crc32_def crc32_bitwise_def crc32_byte_eq [abs_def])

lemma crc_pattern_eq: "crc_pattern = 0xedb88320"
  by (simp add: crc_pattern_def crc_terms_def)

lemma crc_bit_ucast: "crc_bit (ucast c) = ucast (reg_step c)"
proof -
  have 1: "ucast c AND (1 :: u64) \<noteq> 0 \<longleftrightarrow> bit c 0"
    by (simp add: and_one_eq bit_0 [symmetric] bit_ucast_iff mod_2_eq_odd)
  have 2: "drop_bit 1 (ucast c :: u64) = ucast (drop_bit 1 c)"
    by (rule bit_word_eqI) (auto simp: bit_simps dest: bit_imp_le_length)
  have 3: "(ucast (a XOR b) :: u64) = ucast a XOR ucast b" for a b :: u32
    by (rule bit_word_eqI) (auto simp: bit_simps)
  show ?thesis using 2 by (simp add: crc_bit_def 1 reg_step_def 3 crc_pattern_eq)
qed

lemma crc_bits_ucast: "(crc_bit ^^ n) (ucast c) = ucast ((reg_step ^^ n) c)"
  by (induction n) (simp_all add: crc_bit_ucast)

text \<open>C40: the table in \<^verbatim>\<open>crc32.c\<close> is the one the program \<^verbatim>\<open>makecrc\<close> prints.\<close>

theorem crc32_table_made: "map ucast crc32_table = map makecrc_entry [0..<256]"
proof -
  have "(ucast ((reg_step ^^ 8) (of_nat i)) :: u64) = makecrc_entry i" if "i < 256" for i
  proof -
    have "(of_nat i :: u64) = ucast (of_nat i :: u32)"
      using that by (simp add: word_unat_eq_iff unsigned_ucast_eq unat_of_nat unsigned_of_nat take_bit_nat_eq_self)
    moreover have "(reg_step ^^ 8) 0 = 0" using reg_steps_high [of 8 0] by simp
    ultimately show ?thesis by (cases "i = 0") (simp_all add: makecrc_entry_def crc_bits_ucast)
  qed
  then show ?thesis unfolding crc32_table_eq [symmetric] by simp
qed

end
