(* ===== verification/DsoAdjust.thy ===== *)
theory DsoAdjust
  imports Dynamic
begin

text \<open>
  Moving the parts of an object, from \<^verbatim>\<open>src/dso.c\<close>: \<^verbatim>\<open>adjust_old_to_new\<close>, \<^verbatim>\<open>adjust_new_to_old\<close>,
  \<^verbatim>\<open>adjust_nonalloc\<close>, \<^verbatim>\<open>adjust_dso_nonalloc\<close>, \<^verbatim>\<open>adjust_dso\<close>, \<^verbatim>\<open>recompute_nonalloc_offsets\<close>, \<^verbatim>\<open>check_dso\<close>; and
  \<^verbatim>\<open>adjust_stabs\<close> of \<^verbatim>\<open>src/stabs.c\<close>.

  \<^verbatim>\<open>adjust_dwarf2\<close> and \<^verbatim>\<open>adjust_mdebug\<close>, which rewrite debugging information, are arguments of \<open>adjust_dso\<close>. The
  list of adjustments is an array of C structures, which \<^verbatim>\<open>adjust_dso\<close> grows with \<^verbatim>\<open>realloc\<close> and shifts with
  \<^verbatim>\<open>memmove\<close>; \<open>fresh\<close> is the unspecified contents of the element \<^verbatim>\<open>realloc\<close> added.

  The lemmas: the two translations of addresses are inverse to each other; an adjustment recorded behind the
  others, or at the place of one of them, is the composition with the earlier ones, and one recorded between two
  others is not; file offsets that \<^verbatim>\<open>recompute_nonalloc_offsets\<close> assigns are aligned and do not overlap.
\<close>

section \<open>Translating addresses\<close>

definition fits_class :: "dso \<Rightarrow> u64 \<Rightarrow> bool" where
  "fits_class d addr \<longleftrightarrow> ei_class (ehdr d) \<noteq> ELFCLASS32 \<or> addr = ucast (ucast addr :: u32)"

definition adjust_old_to_new :: "dso \<Rightarrow> u64 \<Rightarrow> u64 option" where
  "adjust_old_to_new d addr = (case adjust d of
     None \<Rightarrow> Some addr
   | Some ps \<Rightarrow>
       (case find (\<lambda>p. addr \<ge> adj_start p) ps of
          Some p \<Rightarrow> do {
            _ \<leftarrow> guard_opt (fits_class d (addr + adj_adjust p));
            Some (addr + adj_adjust p)
          }
        | None \<Rightarrow> Some addr))"

definition adjust_new_to_old :: "dso \<Rightarrow> u64 \<Rightarrow> u64 option" where
  "adjust_new_to_old d addr = (case adjust d of
     None \<Rightarrow> Some addr
   | Some ps \<Rightarrow>
       (case find (\<lambda>p. addr \<ge> adj_start p + adj_adjust p) ps of
          Some p \<Rightarrow> do {
            _ \<leftarrow> guard_opt (fits_class d (addr - adj_adjust p));
            Some (addr - adj_adjust p)
          }
        | None \<Rightarrow> Some addr))"

section \<open>Recording an adjustment\<close>

text \<open>The bytes of a \<^verbatim>\<open>struct PLAdjust\<close>, and of an array of them.\<close>

definition adj_bytes :: "bool \<Rightarrow> pl_adjust \<Rightarrow> u8 list" where
  "adj_bytes lsb p = host_bytes64 lsb (adj_start p) @ host_bytes64 lsb (adj_adjust p)"

definition adj_at :: "bool \<Rightarrow> u8 list \<Rightarrow> nat \<Rightarrow> pl_adjust option" where
  "adj_at lsb buf k = do {
     s \<leftarrow> host_ld64 lsb (drop (k * 16) buf);
     a \<leftarrow> host_ld64 lsb (drop (k * 16 + 8) buf);
     Some \<lparr>adj_start = s, adj_adjust = a\<rparr>
   }"

fun adj_array :: "bool \<Rightarrow> u8 list \<Rightarrow> nat \<Rightarrow> nat \<Rightarrow> pl_adjust list option" where
  "adj_array lsb buf k 0 = Some []"
| "adj_array lsb buf k (Suc n) = do {
     p \<leftarrow> adj_at lsb buf k;
     ps \<leftarrow> adj_array lsb buf (Suc k) n;
     Some (p # ps)
   }"

text \<open>\<^verbatim>\<open>memmove (dso->adjust + i + 1, dso->adjust + i, dso->nadjust - i)\<close>: the number of bytes is the number of
  elements behind \<open>i\<close>.\<close>

definition adj_shift :: "bool \<Rightarrow> nat \<Rightarrow> pl_adjust list \<Rightarrow> pl_adjust \<Rightarrow> pl_adjust list option" where
  "adj_shift lsb i ps fresh = (
     let buf = concat (map (adj_bytes lsb) (ps @ [fresh]));
         buf = overwrite ((i + 1) * 16) (take (length ps - i) (drop (i * 16) buf)) buf
     in adj_array lsb buf 0 (length ps + 1))"

definition record_adjust :: "bool \<Rightarrow> pl_adjust \<Rightarrow> pl_adjust list \<Rightarrow> u64 \<Rightarrow> u64 \<Rightarrow> pl_adjust list option" where
  "record_adjust lsb fresh ps start adj = (
     let i = length (takeWhile (\<lambda>p. start < adj_start p) ps);
         ps = map (\<lambda>p. p\<lparr>adj_adjust := adj_adjust p + adj\<rparr>) (take i ps) @ drop i ps
     in if i < length ps \<and> start = adj_start (ps ! i) then
          Some (ps[i := (ps ! i)\<lparr>adj_adjust := adj_adjust (ps ! i) + adj\<rparr>])
        else do {
          ps \<leftarrow> adj_shift lsb i ps fresh;
          Some (ps[i := \<lparr>adj_start = start, adj_adjust = adj\<rparr>])
        })"

section \<open>File offsets of sections that are not loaded\<close>

definition nonalloc_sec :: "elf_shdr \<Rightarrow> bool" where
  "nonalloc_sec s \<longleftrightarrow> \<not> (RELOCATE_SCN (sh_flags s) \<or> sh_type s = 0)"

definition moved_sec :: "nat \<Rightarrow> u64 \<Rightarrow> nat \<Rightarrow> elf_shdr \<Rightarrow> bool" where
  "moved_sec first start i s \<longleftrightarrow> nonalloc_sec s \<and> (sh_offset s > start \<or> sh_offset s = start \<and> i \<ge> first)"

definition align_up :: "u64 \<Rightarrow> u64 \<Rightarrow> u64" where
  "align_up x al = (x + al - 1) AND NOT (al - 1)"

definition widen_adjust :: "u64 \<Rightarrow> u64 \<Rightarrow> u64" where
  "widen_adjust al adj = (if adj AND (al - 1) \<noteq> 0 then align_up adj al else adj)"

definition gelf_fsize_addr :: "dso \<Rightarrow> u64" where
  "gelf_fsize_addr d = (if ei_class (ehdr d) = ELFCLASS32 then 4 else 8)"

definition adjust_nonalloc ::
  "dso \<Rightarrow> elf_ehdr \<Rightarrow> elf_shdr list \<Rightarrow> nat \<Rightarrow> u64 \<Rightarrow> u64 \<Rightarrow> elf_ehdr \<times> elf_shdr list" where
  "adjust_nonalloc d eh shs first start adj = (
     let secs = [1..<unat (e_shnum eh)];
         adj = fold (\<lambda>i adj. if moved_sec first start i (shs ! i) then widen_adjust (sh_addralign (shs ! i)) adj else adj)
                 secs adj;
         adj = (if e_shoff eh \<ge> start then widen_adjust (gelf_fsize_addr d) adj else adj);
         eh = (if e_shoff eh \<ge> start then eh\<lparr>e_shoff := e_shoff eh + adj\<rparr> else eh)
     in (eh, fold (\<lambda>i shs. if moved_sec first start i (shs ! i)
                           then shs[i := (shs ! i)\<lparr>sh_offset := sh_offset (shs ! i) + adj\<rparr>] else shs) secs shs))"

definition adjust_dso_nonalloc :: "dso \<Rightarrow> nat \<Rightarrow> u64 \<Rightarrow> u64 \<Rightarrow> (int \<times> dso) option" where
  "adjust_dso_nonalloc d first start adj = (
     if unat (e_shnum (ehdr d)) \<le> length (shdr d) then
       (let (eh, shs) = adjust_nonalloc d (ehdr d) (shdr d) first start adj in Some (0, d\<lparr>ehdr := eh, shdr := shs\<rparr>))
     else None)"

text \<open>\<^verbatim>\<open>recompute_nonalloc_offsets\<close>: the leading loaded sections, the section in front of the section header table, and
  the placement of the others one behind the other.\<close>

fun skip_alloc :: "elf_shdr list \<Rightarrow> nat \<Rightarrow> u64 \<Rightarrow> nat \<times> u64" where
  "skip_alloc [] i last_offset = (i, last_offset)"
| "skip_alloc (s # ss) i last_offset =
     (if RELOCATE_SCN (sh_flags s)
      then skip_alloc ss (Suc i) (if sh_type s = SHT_NOBITS then sh_offset s else sh_offset s + sh_size s)
      else (i, last_offset))"

definition sec_before :: "elf_shdr list \<Rightarrow> u64 \<Rightarrow> nat \<Rightarrow> nat \<Rightarrow> nat" where
  "sec_before shs shoff i n = (case find (\<lambda>i. sh_offset (shs ! i) < shoff
       \<and> (i = n - 1 \<or> sh_offset (shs ! (i + 1)) > shoff)) [i..<n] of Some i \<Rightarrow> i | None \<Rightarrow> 0)"

fun place_secs :: "nat \<Rightarrow> u64 \<Rightarrow> u64 \<Rightarrow> nat \<Rightarrow> elf_shdr list \<Rightarrow> u64 \<Rightarrow> u64 \<Rightarrow> (elf_shdr list \<times> u64) option" where
  "place_secs before al tblsize i [] last_offset shoff = Some ([], shoff)"
| "place_secs before al tblsize i (s # ss) last_offset shoff = do {
     _ \<leftarrow> guard_opt (\<not> RELOCATE_SCN (sh_flags s));
     _ \<leftarrow> guard_opt (sh_type s \<noteq> SHT_NOBITS);
     let off = align_up last_offset (sh_addralign s);
     let last_offset = off + sh_size s;
     let shoff = (if i = before then align_up last_offset al else shoff);
     let last_offset = (if i = before then shoff + tblsize else last_offset);
     (ss, shoff) \<leftarrow> place_secs before al tblsize (Suc i) ss last_offset shoff;
     Some (s\<lparr>sh_offset := off\<rparr> # ss, shoff)
   }"

definition gelf_fsize_shdr :: "dso \<Rightarrow> u64" where
  "gelf_fsize_shdr d = (if ei_class (ehdr d) = ELFCLASS32 then 40 else 64)"

definition recompute_nonalloc_offsets :: "dso \<Rightarrow> (int \<times> dso) option" where
  "recompute_nonalloc_offsets d = (
     let n = unat (e_shnum (ehdr d)); al = gelf_fsize_addr d;
         tblsize = gelf_fsize_shdr d * of_nat n;
         (i, last_offset) = skip_alloc (drop 1 (take n (shdr d))) 1 0 in do {
       _ \<leftarrow> guard_opt (n \<le> length (shdr d));
       s \<leftarrow> nth_opt (shdr d) i;
       let front = (e_shoff (ehdr d) < sh_offset s);
       let shoff = (if front then align_up last_offset al else e_shoff (ehdr d));
       let last_offset = (if front then shoff + tblsize else last_offset);
       let before = (if front then 0 else sec_before (shdr d) (e_shoff (ehdr d)) i n);
       (ss, shoff) \<leftarrow> place_secs before al tblsize i (drop i (take n (shdr d))) last_offset shoff;
       Some (0, d\<lparr>ehdr := (ehdr d)\<lparr>e_shoff := shoff\<rparr>, shdr := take i (shdr d) @ ss @ drop (max i n) (shdr d)\<rparr>)
     })"


section \<open>The checks before writing\<close>

text \<open>\<^verbatim>\<open>dso_has_bad_textrel\<close>; \<open>allow_bad_textrel\<close> is the command line option. \<open>DT_TEXTREL\<close> is 22.\<close>

definition dso_has_bad_textrel :: "bool \<Rightarrow> pl_arch \<Rightarrow> dso \<Rightarrow> bool" where
  "dso_has_bad_textrel allow_bad_textrel A d \<longleftrightarrow> \<not> allow_bad_textrel
     \<and> arch_machine A \<in> {50, 20, 21, 62, 0x9026, 22, EM_MIPS, EM_ARM} \<and> dynamic_info_is_set d 22"

fun check_offsets :: "bool \<Rightarrow> elf_shdr \<Rightarrow> elf_shdr list \<Rightarrow> bool" where
  "check_offsets perm prev [] = True"
| "check_offsets perm prev (s # ss) =
     (if sh_offset prev + (if sh_type prev = SHT_NOBITS then 0 else sh_size prev) > sh_offset s
         \<and> (\<not> perm \<or> RELOCATE_SCN (sh_flags prev) \<or> RELOCATE_SCN (sh_flags s)) then False
      else check_offsets perm (if \<not> perm \<or> sh_type s \<noteq> SHT_NOBITS \<and> sh_size s \<noteq> 0 then s else prev) ss)"

definition check_dso :: "bool \<Rightarrow> pl_arch \<Rightarrow> dso \<Rightarrow> int option" where
  "check_dso allow_bad_textrel A d = do {
     _ \<leftarrow> guard_opt (unat (e_shnum (ehdr d)) \<le> length (shdr d));
     Some (case drop 1 (take (unat (e_shnum (ehdr d))) (shdr d)) of
             s # ss \<Rightarrow> if \<not> check_offsets (permissive d) s ss then 1
                       else if dso_has_bad_textrel allow_bad_textrel A d then 1 else 0
           | [] \<Rightarrow> if dso_has_bad_textrel allow_bad_textrel A d then 1 else 0)
   }"

section \<open>Stabs\<close>

definition stab_address :: "u8 list" where
  "stab_address = [0x26, 0x28, 0x54, 0x64, 0x84, 0x2e, 0x4e]"

definition stab_other :: "u8 list" where
  "stab_other = [0x20, 0x82, 0xa2, 0xc2, 0xe2, 0xe4, 0x00, 0x32, 0x34, 0x40, 0x80, 0xa0, 0x3c, 0xc0, 0xe0, 0x44, 0x48, 0x46]"

text \<open>An entry of twelve bytes: the string at 0, the type at 4, the value at 8; \<open>lsb\<close> is the byte order in which the
  values are read and written, which is that of the object.\<close>

definition adjust_stab :: "bool \<Rightarrow> nat \<Rightarrow> u64 \<Rightarrow> u64 \<Rightarrow> nat \<Rightarrow> dso \<Rightarrow> (int \<times> dso) option" where
  "adjust_stab lsb n start adj k d = do {
     b \<leftarrow> block_at d n 0;
     buf \<leftarrow> d_buf b;
     ty \<leftarrow> buf_read_u8 (drop (k * 12 + 4) buf);
     nm \<leftarrow> (if ty = 0x24 then host_ld32 lsb (drop (k * 12) buf) else Some 0);
     if ty = 0x24 \<and> nm = 0 then Some (0, d)
     else if ty = 0x24 \<or> ty \<in> set stab_address then do {
       v \<leftarrow> host_ld32 lsb (drop (k * 12 + 8) buf);
       (sec, d) \<leftarrow> addr_to_sec d (ucast v);
       if sec \<noteq> None then do {
         buf \<leftarrow> poke (host_st32 lsb) (k * 12 + 8) (if ucast v \<ge> start then ucast (ucast v + adj) else v) buf;
         Some (0, set_block d n 0 (b\<lparr>d_buf := Some buf\<rparr>))
       } else Some (0, d)
     }
     else if ty \<in> set stab_other then Some (0, d)
     else Some (1, d)
   }"

definition adjust_stabs :: "dso \<Rightarrow> nat \<Rightarrow> u64 \<Rightarrow> u64 \<Rightarrow> (int \<times> dso) option" where
  "adjust_stabs d n start adj = do {
     sh \<leftarrow> nth_opt (shdr d) n;
     _ \<leftarrow> guard_opt (sh_entsize sh = 12);
     sc \<leftarrow> nth_opt (scn d) n;
     _ \<leftarrow> guard_opt (length (scn_data sc) = 1);
     b \<leftarrow> block_at d n 0;
     _ \<leftarrow> guard_opt (d_buf b \<noteq> None \<and> d_off b = 0 \<and> d_size b = sh_size sh);
     if ei_data (ehdr d) = ELFDATA2LSB \<or> ei_data (ehdr d) = ELFDATA2MSB then do {
       (rc, d) \<leftarrow> for_ndx (adjust_stab (ei_data (ehdr d) = ELFDATA2LSB) n start adj) 0 ((unat (d_size b) + 11) div 12) d;
       if rc \<noteq> 0 then Some (1, d) else Some (0, elf_flagscn_dirty d n)
     }
     else Some (1, d)
   }"

section \<open>Moving an object\<close>

definition PT_LOAD :: u32 where "PT_LOAD = 1"
definition PT_GNU_STACK :: u32 where "PT_GNU_STACK = 0x6474e551"

text \<open>A program header; \<^term>\<open>None\<close> where nothing is to be done.\<close>

definition adjust_phdr :: "u64 \<Rightarrow> u64 \<Rightarrow> elf_phdr \<Rightarrow> elf_phdr option" where
  "adjust_phdr start adj p =
     (if p_type p = PT_GNU_STACK then None
      else if start = 0 then Some (p\<lparr>p_vaddr := p_vaddr p + adj, p_paddr := p_paddr p + adj\<rparr>)
      else if start \<le> p_vaddr p then
        Some (p\<lparr>p_vaddr := p_vaddr p + adj, p_paddr := p_paddr p + adj, p_offset := p_offset p + adj\<rparr>)
      else if start < p_vaddr p + p_filesz p then
        Some (p\<lparr>p_filesz := p_filesz p + adj, p_memsz := p_memsz p + adj\<rparr>)
      else if start < p_vaddr p + p_memsz p then Some (p\<lparr>p_memsz := p_memsz p + adj\<rparr>)
      else None)"

definition adjust_phdr_step :: "u64 \<Rightarrow> u64 \<Rightarrow> nat \<Rightarrow> dso \<Rightarrow> (int \<times> dso) option" where
  "adjust_phdr_step start adj i d = do {
     p \<leftarrow> nth_opt (phdr d) i;
     case adjust_phdr start adj p of
       None \<Rightarrow> Some (0, d)
     | Some p \<Rightarrow> do {
         _ \<leftarrow> guard_opt (p_type p \<noteq> PT_LOAD \<or> p_align p \<noteq> 0);
         let d = d\<lparr>phdr := (phdr d)[i := p]\<rparr>;
         Some (if p_type p = PT_LOAD \<and> (p_vaddr p - p_offset p) mod p_align p \<noteq> 0 then 1 else 0, d)
       }
   }"

text \<open>A section by its type, then \<^verbatim>\<open>.mdebug\<close>; \<open>dwarf2\<close> and \<open>mdebug\<close> are \<^verbatim>\<open>adjust_dwarf2\<close> and \<^verbatim>\<open>adjust_mdebug\<close>.\<close>

type_synonym adjuster = "dso \<Rightarrow> nat \<Rightarrow> u64 \<Rightarrow> u64 \<Rightarrow> (int \<times> dso) option"

definition adjust_progbits :: "adjuster \<Rightarrow> adjuster" where
  "adjust_progbits dwarf2 d i start adj = do {
     stab \<leftarrow> sec_name_is d i ''.stab'';
     (rc, d) \<leftarrow> (if stab then adjust_stabs d i start adj else Some (0, d));
     if rc \<noteq> 0 then Some (1, d)
     else do {
       dbg \<leftarrow> sec_name_is d i ''.debug_info'';
       if dbg then dwarf2 d i start adj else Some (0, d)
     }
   }"

definition adjust_by_type :: "nat \<Rightarrow> pl_arch \<Rightarrow> adjuster \<Rightarrow> adjuster" where
  "adjust_by_type dt_num A dwarf2 d i start adj = do {
     sh \<leftarrow> nth_opt (shdr d) i;
     if sh_type sh = SHT_PROGBITS \<or> sh_type sh = 0x7000001e then adjust_progbits dwarf2 d i start adj
     else if sh_type sh = SHT_SYMTAB \<or> sh_type sh = SHT_DYNSYM then adjust_symtab d i start adj
     else if sh_type sh = SHT_DYNAMIC then adjust_dynamic dt_num A d i start adj
     else if sh_type sh = SHT_REL \<and> sh_flags sh AND SHF_ALLOC \<noteq> 0 then adjust_rel_pass A d i start adj
     else if sh_type sh = SHT_RELA \<and> sh_flags sh AND SHF_ALLOC \<noteq> 0 then adjust_rela_pass A d i start adj
     else Some (0, d)
   }"

definition adjust_sec_step ::
  "nat \<Rightarrow> pl_arch \<Rightarrow> adjuster \<Rightarrow> adjuster \<Rightarrow> u64 \<Rightarrow> u64 \<Rightarrow> nat \<Rightarrow> dso \<Rightarrow> (int \<times> dso) option" where
  "adjust_sec_step dt_num A dwarf2 mdebug start adj i d = do {
     (rc, d) \<leftarrow> (case adjust_section A of None \<Rightarrow> Some (0, d) | Some f \<Rightarrow> f d i start adj);
     if rc = 1 then Some (1, d)
     else if rc \<noteq> 0 then Some (0, d)
     else do {
       (rc, d) \<leftarrow> adjust_by_type dt_num A dwarf2 d i start adj;
       if rc \<noteq> 0 then Some (1, d)
       else do {
         sh \<leftarrow> nth_opt (shdr d) i;
         if arch_machine A = 0x9026 \<and> sh_type sh = 0x70000001 \<or> arch_machine A = EM_MIPS \<and> sh_type sh = 0x70000005
         then mdebug d i start adj else Some (0, d)
       }
     }
   }"

definition adjust_shdr :: "u64 \<Rightarrow> u64 \<Rightarrow> elf_shdr \<Rightarrow> elf_shdr" where
  "adjust_shdr start adj s =
     (if RELOCATE_SCN (sh_flags s) \<and> sh_addr s \<ge> start then
        s\<lparr>sh_addr := sh_addr s + adj, sh_offset := (if start \<noteq> 0 then sh_offset s + adj else sh_offset s)\<rparr>
      else s)"

definition adjust_dso ::
  "nat \<Rightarrow> pl_arch \<Rightarrow> adjuster \<Rightarrow> adjuster \<Rightarrow> pl_adjust \<Rightarrow> dso \<Rightarrow> u64 \<Rightarrow> u64 \<Rightarrow> (int \<times> dso) option" where
  "adjust_dso dt_num A dwarf2 mdebug fresh d start adj = do {
     (rc, d) \<leftarrow> (case arch_adjust A of None \<Rightarrow> Some (0, d) | Some f \<Rightarrow> f d start adj);
     if rc \<noteq> 0 then Some (1, d)
     else do {
       let d = (if e_entry (ehdr d) \<ge> start then d\<lparr>ehdr := (ehdr d)\<lparr>e_entry := e_entry (ehdr d) + adj\<rparr>\<rparr> else d);
       (rc, d) \<leftarrow> for_ndx (adjust_phdr_step start adj) 0 (unat (e_phnum (ehdr d))) d;
       if rc \<noteq> 0 then Some (1, d)
       else do {
         (rc, d) \<leftarrow> for_ndx (adjust_sec_step dt_num A dwarf2 mdebug start adj) 1 (unat (e_shnum (ehdr d)) - 1) d;
         if rc \<noteq> 0 then Some (1, d)
         else do {
           let n = unat (e_shnum (ehdr d));
           _ \<leftarrow> guard_opt (n \<le> length (shdr d));
           let d = d\<lparr>shdr := map (adjust_shdr start adj) (take n (shdr d)) @ drop n (shdr d),
                     dso_base := addr_adjust (dso_base d) start adj, dso_end := addr_adjust (dso_end d) start adj\<rparr>;
           if start = 0 then Some (0, d)
           else do {
             s \<leftarrow> adjust_new_to_old d start;
             ps \<leftarrow> record_adjust (host_lsb d) fresh (case adjust d of None \<Rightarrow> [] | Some ps \<Rightarrow> ps) s adj;
             let d = d\<lparr>adjust := Some ps\<rparr>;
             if s \<noteq> 0 then adjust_dso_nonalloc d 0 0 adj else Some (0, d)
           }
         }
       }
     }
   }"


text \<open>A section with alignment 0, which ELF allows for no alignment, makes the whole adjustment 0.\<close>

lemma widen_adjust_zero_align: "widen_adjust 0 adj = 0"
  by (simp add: widen_adjust_def align_up_def)

section \<open>The translations are inverse\<close>

lemma unat_add_nowrap: "unat (a :: u64) + unat b < 2 ^ 64 \<Longrightarrow> unat (a + b) = unat a + unat b"
  by (simp add: unat_word_ariths)

definition adj_ok :: "pl_adjust list \<Rightarrow> bool" where
  "adj_ok ps \<longleftrightarrow> sorted_wrt (\<lambda>p q. adj_start q < adj_start p \<and> adj_adjust q \<le> adj_adjust p) ps
     \<and> list_all (\<lambda>p. unat (adj_start p) + unat (adj_adjust p) < 2 ^ 64) ps"

definition nowrap :: "pl_adjust list \<Rightarrow> u64 \<Rightarrow> bool" where
  "nowrap ps a \<longleftrightarrow> list_all (\<lambda>p. adj_start p \<le> a \<longrightarrow> unat a + unat (adj_adjust p) < 2 ^ 64) ps"

definition otn :: "pl_adjust list \<Rightarrow> u64 \<Rightarrow> u64" where
  "otn ps a = (case find (\<lambda>p. a \<ge> adj_start p) ps of Some p \<Rightarrow> a + adj_adjust p | None \<Rightarrow> a)"

lemma otn_simps [simp]:
  "otn [] a = a" "otn (p # ps) a = (if a \<ge> adj_start p then a + adj_adjust p else otn ps a)"
  by (simp_all add: otn_def)

lemma adj_ok_Cons: "adj_ok (p # ps) \<longleftrightarrow> adj_ok ps \<and> unat (adj_start p) + unat (adj_adjust p) < 2 ^ 64
    \<and> (\<forall>q \<in> set ps. adj_start q < adj_start p \<and> adj_adjust q \<le> adj_adjust p)"
  by (auto simp: adj_ok_def)

lemma nowrap_Cons: "nowrap (p # ps) a \<longleftrightarrow> nowrap ps a \<and> (adj_start p \<le> a \<longrightarrow> unat a + unat (adj_adjust p) < 2 ^ 64)"
  by (auto simp: nowrap_def)

lemma otn_bound:
  assumes "nowrap ps a" and "\<forall>q \<in> set ps. adj_adjust q \<le> m"
  shows "unat (otn ps a) \<le> unat a + unat m"
  using assms
proof (induction ps)
  case (Cons p ps)
  then show ?case by (auto simp: nowrap_Cons unat_add_nowrap word_le_nat_alt)
qed simp

lemma otn_find:
  assumes "adj_ok ps" and "nowrap ps a"
  shows "find (\<lambda>p. otn ps a \<ge> adj_start p + adj_adjust p) ps = find (\<lambda>p. a \<ge> adj_start p) ps"
  using assms
proof (induction ps)
  case (Cons p ps)
  note ok = Cons.prems(1) [unfolded adj_ok_Cons] and nw = Cons.prems(2) [unfolded nowrap_Cons]
  have sum: "unat (adj_start p + adj_adjust p) = unat (adj_start p) + unat (adj_adjust p)"
    using ok by (simp add: unat_add_nowrap)
  show ?case
  proof (cases "adj_start p \<le> a")
    case True
    then show ?thesis using nw sum by (simp add: word_le_nat_alt unat_add_nowrap)
  next
    case False
    have "unat (otn ps a) \<le> unat a + unat (adj_adjust p)" using nw ok by (intro otn_bound) auto
    then have "\<not> adj_start p + adj_adjust p \<le> otn ps a" using False sum by (simp add: word_le_nat_alt)
    then show ?thesis using False Cons.IH ok nw by simp
  qed
qed simp

text \<open>C30: translating an address from before the adjustments to after them and back gives the address, for every
  list of adjustments with descending starts and growing amounts, as long as no sum leaves the address space.\<close>

theorem adjust_old_new_roundtrip:
  assumes "adj_ok (case adjust d of Some ps \<Rightarrow> ps | None \<Rightarrow> [])" and "nowrap (case adjust d of Some ps \<Rightarrow> ps | None \<Rightarrow> []) a"
    and "fits_class d a" and "adjust_old_to_new d a = Some b"
  shows "adjust_new_to_old d b = Some a"
proof (cases "adjust d")
  case None
  then show ?thesis using assms(4) by (simp add: adjust_old_to_new_def adjust_new_to_old_def)
next
  case (Some ps)
  have b: "b = otn ps a" using assms(4) Some by (auto simp: adjust_old_to_new_def otn_def bind_eq_Some split: option.splits)
  show ?thesis
    using otn_find [of ps a] assms Some unfolding b
    by (auto simp: adjust_new_to_old_def otn_def split: option.splits)
qed


theorem adjust_old_new_roundtrip_witness:
  "adjust_old_to_new (sample_dso\<lparr>adjust := Some [\<lparr>adj_start = 0x2000, adj_adjust = 0x1000\<rparr>]\<rparr>) 0x2004 = Some 0x3004
   \<and> adjust_new_to_old (sample_dso\<lparr>adjust := Some [\<lparr>adj_start = 0x2000, adj_adjust = 0x1000\<rparr>]\<rparr>) 0x3004 = Some 0x2004"
proof -
  let ?d = "sample_dso\<lparr>adjust := Some [\<lparr>adj_start = 0x2000, adj_adjust = 0x1000\<rparr>]\<rparr>"
  have c: "ei_class (ehdr ?d) = ELFCLASS64" by (simp add: sample_defs)
  then have "adjust_old_to_new ?d 0x2004 = Some 0x3004" "fits_class ?d 0x2004"
    by (simp_all add: adjust_old_to_new_def fits_class_def elf_consts)
  then show ?thesis
    using adjust_old_new_roundtrip [of ?d "0x2004" "0x3004"] by (simp add: adj_ok_def nowrap_def)
qed

section \<open>The recorded list\<close>

lemma adj_at_bytes:
  assumes "length pre = k * 16"
  shows "adj_at lsb (pre @ adj_bytes lsb p @ rest) k = Some p"
proof -
  have "drop (k * 16 + 8) (pre @ adj_bytes lsb p @ rest) = host_bytes64 lsb (adj_adjust p) @ rest"
    "drop (k * 16) (pre @ adj_bytes lsb p @ rest) = host_bytes64 lsb (adj_start p) @ host_bytes64 lsb (adj_adjust p) @ rest"
    using assms by (simp_all add: adj_bytes_def)
  then show ?thesis by (simp add: adj_at_def buf_codec.rd_enc [OF host_codec64])
qed

lemma adj_array_prefix:
  "length pre = k * 16 \<Longrightarrow> adj_array lsb (pre @ concat (map (adj_bytes lsb) ps) @ rest) k (length ps + m)
     = map_option ((@) ps) (adj_array lsb (pre @ concat (map (adj_bytes lsb) ps) @ rest) (k + length ps) m)"
proof (induction ps arbitrary: pre k)
  case Nil
  then show ?case by (cases "adj_array lsb (pre @ rest) k m") simp_all
next
  case (Cons p ps)
  let ?buf = "pre @ concat (map (adj_bytes lsb) (p # ps)) @ rest"
  have "adj_array lsb ?buf (Suc k) (length ps + m) = map_option ((@) ps) (adj_array lsb ?buf (k + length (p # ps)) m)"
    using Cons.IH [of "pre @ adj_bytes lsb p" "Suc k"] Cons.prems by (simp add: adj_bytes_def [of lsb p])
  then show ?case
    using adj_at_bytes [OF Cons.prems, of lsb p "concat (map (adj_bytes lsb) ps) @ rest"]
    by (cases "adj_array lsb ?buf (k + length (p # ps)) m") simp_all
qed

lemma adj_array_total:
  "(k + n) * 16 \<le> length buf \<Longrightarrow> \<exists>ps. adj_array lsb buf k n = Some ps \<and> length ps = n"
proof (induction n arbitrary: k)
  case (Suc n)
  obtain ps where ps: "adj_array lsb buf (Suc k) n = Some ps" "length ps = n" using Suc.IH [of "Suc k"] Suc.prems by auto
  have "8 \<le> length (drop (k * 16) buf)" "8 \<le> length (drop (k * 16 + 8) buf)" using Suc.prems by simp_all
  then have "host_ld64 lsb (drop (k * 16) buf) \<noteq> None" "host_ld64 lsb (drop (k * 16 + 8) buf) \<noteq> None"
    by (simp_all only: buf_codec.rd_defined [OF host_codec64])
  then obtain v w where "host_ld64 lsb (drop (k * 16) buf) = Some v" "host_ld64 lsb (drop (k * 16 + 8) buf) = Some w"
    by blast
  then show ?case using ps by (simp add: adj_at_def)
qed simp

lemma adj_bytes_length: "length (concat (map (adj_bytes lsb) ps)) = length ps * 16"
  by (induction ps) (simp_all add: adj_bytes_def)

lemma adj_shift_end: "adj_shift lsb (length ps) ps fresh = Some (ps @ [fresh])"
  using adj_array_prefix [of "[]" 0 lsb "ps @ [fresh]" "[]" 0]
  by (simp add: adj_shift_def Let_def overwrite_def)

lemma adj_shift_total: "i \<le> length ps \<Longrightarrow> \<exists>qs. adj_shift lsb i ps fresh = Some qs \<and> length qs = length ps + 1"
  unfolding adj_shift_def Let_def
  by (rule adj_array_total) (simp add: adj_bytes_length adj_bytes_def min_def)


lemma overwrite_prefix: "take off xs = pre @ r \<Longrightarrow> \<exists>rest. overwrite off ys xs = pre @ rest"
  by (simp add: overwrite_def)

lemma adj_shift_front:
  assumes "adj_shift lsb i ps fresh = Some qs" and "i \<le> length ps"
  shows "take i qs = take i ps"
proof -
  let ?c = "\<lambda>ps. concat (map (adj_bytes lsb) ps)"
  let ?buf = "?c (ps @ [fresh])"
  have split: "?buf = ?c (take i ps) @ ?c (drop i (ps @ [fresh]))"
    using assms(2) by (metis append_take_drop_id concat_append map_append take_append diff_is_0_eq take0 append_Nil2)
  have "take ((i + 1) * 16) ?buf = ?c (take i ps) @ take 16 (?c (drop i (ps @ [fresh])))"
    unfolding split using assms(2) by (simp add: adj_bytes_length del: map_append concat_append)
  then obtain rest where "overwrite ((i + 1) * 16) (take (length ps - i) (drop (i * 16) ?buf)) ?buf = ?c (take i ps) @ rest"
    using overwrite_prefix by blast
  then have "Some qs = map_option ((@) (take i ps)) (adj_array lsb (?c (take i ps) @ rest) i (length ps + 1 - i))"
    using assms adj_array_prefix [of "[]" 0 lsb "take i ps" rest "length ps + 1 - i"]
    by (simp add: adj_shift_def Let_def del: map_append concat_append adj_array.simps)
  then obtain rs where "qs = take i ps @ rs" by (metis map_option_eq_Some)
  then show ?thesis using assms(2) by simp
qed

text \<open>The list as it is meant: an earlier adjustment at or above the start grows, a new one comes behind them.\<close>

fun add_adjust :: "u64 \<Rightarrow> u64 \<Rightarrow> pl_adjust list \<Rightarrow> pl_adjust list" where
  "add_adjust s adj [] = [\<lparr>adj_start = s, adj_adjust = adj\<rparr>]"
| "add_adjust s adj (p # ps) =
     (if s \<le> adj_start p then p\<lparr>adj_adjust := adj_adjust p + adj\<rparr> # (if s = adj_start p then ps else add_adjust s adj ps)
      else \<lparr>adj_start = s, adj_adjust = adj\<rparr> # p # ps)"

text \<open>The start is the start of an earlier adjustment, or below all of them.\<close>

definition in_order :: "u64 \<Rightarrow> pl_adjust list \<Rightarrow> bool" where
  "in_order s ps \<longleftrightarrow> (case find (\<lambda>p. s \<ge> adj_start p) ps of Some p \<Rightarrow> adj_start p = s | None \<Rightarrow> True)"

lemma in_order_Cons: "in_order s (p # ps) \<longleftrightarrow> (if s \<ge> adj_start p then adj_start p = s else in_order s ps)"
  by (simp add: in_order_def)

lemma record_adjust_in_order:
  assumes "in_order s ps"
  shows "record_adjust lsb fresh ps s adj = Some (add_adjust s adj ps)"
proof -
  let ?P = "\<lambda>p. s < adj_start p" and ?f = "\<lambda>p. p\<lparr>adj_adjust := adj_adjust p + adj\<rparr>"
  define i where "i = length (takeWhile ?P ps)"
  have ps: "ps = takeWhile ?P ps @ drop i ps" unfolding i_def by (metis append_take_drop_id takeWhile_eq_take)
  have tk: "take i ps = takeWhile ?P ps" unfolding i_def by (metis takeWhile_eq_take)
  have add: "add_adjust s adj (xs @ ys) = map ?f xs @ add_adjust s adj ys" if "\<forall>p \<in> set xs. ?P p" for xs ys
    using that by (induction xs) auto
  have spec: "add_adjust s adj ps = map ?f (take i ps) @ add_adjust s adj (drop i ps)"
    using add [of "takeWhile ?P ps" "drop i ps"] ps tk by (metis set_takeWhileD)
  show ?thesis
  proof (cases "drop i ps")
    case Nil
    then have "i = length ps" using i_def by (simp add: length_takeWhile_le le_antisym)
    then show ?thesis
      using spec adj_shift_end [of lsb "map ?f ps" fresh]
      by (simp add: record_adjust_def Let_def i_def [symmetric] list_update_append)
  next
    case (Cons p qs)
    have "in_order s (xs @ p # qs) \<Longrightarrow> \<forall>x \<in> set xs. ?P x \<Longrightarrow> \<not> ?P p \<Longrightarrow> adj_start p = s" for xs
      by (induction xs) (auto simp: in_order_Cons split: if_splits)
    moreover have "\<not> ?P p" using Cons unfolding i_def by (metis dropWhile_eq_drop hd_dropWhile list.sel(1) list.discI)
    ultimately have p: "adj_start p = s" using assms ps Cons by (metis set_takeWhileD)
    have "i < length ps" using Cons by (metis drop_all leI list.discI)
    then show ?thesis
      using spec Cons p
      by (simp add: record_adjust_def Let_def i_def [symmetric] nth_append list_update_append)
  qed
qed

lemma otn_add_adjust: "in_order s ps \<Longrightarrow> otn (add_adjust s adj ps) a = (if a \<ge> s then otn ps a + adj else otn ps a)"
  by (induction ps) (auto simp: in_order_Cons ac_simps split: if_splits)

lemma otn_strict:
  assumes "adj_ok ps" and "nowrap ps a" and "nowrap ps b" and "a < b"
  shows "otn ps a < otn ps b"
  using assms
proof (induction ps)
  case (Cons p ps)
  have ps: "otn ps a < otn ps b" using Cons by (simp add: adj_ok_Cons nowrap_Cons)
  have l: "unat (otn ps a) \<le> unat a + unat (adj_adjust p)"
    using Cons.prems by (intro otn_bound) (auto simp: adj_ok_Cons nowrap_Cons)
  show ?case
    using ps l Cons.prems by (auto simp: nowrap_Cons word_less_nat_alt word_le_nat_alt unat_add_nowrap)
qed simp

lemma add_adjust_below:
  assumes "s < m" and "\<forall>q \<in> set ps. adj_start q < m \<and> unat (adj_adjust q) \<le> k"
    and "\<forall>q \<in> set ps. unat (adj_start q) + unat (adj_adjust q) + unat adj < 2 ^ 64"
  shows "\<forall>q \<in> set (add_adjust s adj ps). adj_start q < m \<and> unat (adj_adjust q) \<le> k + unat adj"
  using assms(2,3)
proof (induction ps)
  case (Cons p ps)
  have "unat (adj_adjust p + adj) \<le> k + unat adj" using Cons.prems by (simp add: unat_add_nowrap)
  then show ?case using Cons assms(1) by (auto intro: le_trans)
qed (simp add: assms(1))

lemma adj_ok_add_adjust:
  assumes "in_order s ps" and "adj_ok ps" and "unat s + unat adj < 2 ^ 64"
    and "\<forall>p \<in> set ps. unat (adj_start p) + unat (adj_adjust p) + unat adj < 2 ^ 64"
  shows "adj_ok (add_adjust s adj ps)"
  using assms
proof (induction ps)
  case (Cons p ps)
  have p: "unat (adj_adjust p + adj) = unat (adj_adjust p) + unat adj" using Cons.prems by (simp add: unat_add_nowrap)
  show ?case
  proof (cases "s = adj_start p")
    case True
    then show ?thesis using Cons.prems p by (auto simp: adj_ok_Cons word_le_nat_alt)
  next
    case False
    then have lt: "s < adj_start p" using Cons.prems by (auto simp: in_order_Cons split: if_splits)
    then have "in_order s ps" using Cons.prems by (auto simp: in_order_Cons split: if_splits)
    moreover have "\<forall>q \<in> set (add_adjust s adj ps). adj_start q < adj_start p \<and> unat (adj_adjust q) \<le> unat (adj_adjust p) + unat adj"
      using Cons.prems by (intro add_adjust_below lt) (auto simp: adj_ok_Cons word_le_nat_alt)
    ultimately have "adj_ok (add_adjust s adj ps)" and
      below: "\<forall>q \<in> set (add_adjust s adj ps). adj_start q < adj_start p \<and> adj_adjust q \<le> adj_adjust p + adj"
      using Cons p by (auto simp: adj_ok_Cons word_le_nat_alt)
    then show ?thesis using Cons.prems lt p by (simp add: adj_ok_Cons less_imp_le)
  qed
qed (simp add: adj_ok_def)

text \<open>C28: an adjustment that starts where an earlier one starts, or below all of them, is recorded as the
  composition: from then on the translation first does what it did before and then adds the new amount to
  everything from the new start on; the list keeps the form the translations need.\<close>

theorem adjust_recorded_composes:
  assumes "in_order s ps" and "adj_ok ps" and "nowrap ps s" and "unat s + unat adj < 2 ^ 64"
    and "\<forall>p \<in> set ps. unat (adj_start p) + unat (adj_adjust p) + unat adj < 2 ^ 64"
  shows "\<exists>ps'. record_adjust lsb fresh ps s adj = Some ps' \<and> adj_ok ps'
    \<and> (\<forall>a. nowrap ps a \<longrightarrow> otn ps' a = addr_adjust (otn ps a) (otn ps s) adj)"
proof -
  have "otn (add_adjust s adj ps) a = addr_adjust (otn ps a) (otn ps s) adj" if "nowrap ps a" for a
    using otn_strict [OF assms(2) that assms(3)] otn_strict [OF assms(2,3) that]
    by (cases "a = s") (auto simp: otn_add_adjust [OF assms(1)] addr_adjust_def not_le linorder_neq_iff)
  then show ?thesis
    using record_adjust_in_order [OF assms(1)] adj_ok_add_adjust [OF assms(1,2,4,5)] by blast
qed

theorem adjust_recorded_composes_witness:
  "\<exists>ps'. record_adjust True \<lparr>adj_start = 7, adj_adjust = 7\<rparr> [\<lparr>adj_start = 0x2000, adj_adjust = 0x1000\<rparr>] 0x1000 0x500 = Some ps'
     \<and> otn ps' 0x2004 = 0x3504 \<and> otn ps' 0x1004 = 0x1504 \<and> otn ps' 0x10 = 0x10"
proof -
  let ?ps = "[\<lparr>adj_start = 0x2000, adj_adjust = 0x1000\<rparr>]"
  have "in_order 0x1000 ?ps" "adj_ok ?ps" "nowrap ?ps 0x1000" "nowrap ?ps 0x2004" "nowrap ?ps 0x1004" "nowrap ?ps 0x10"
    by (simp_all add: in_order_def adj_ok_def nowrap_def)
  then show ?thesis
    using adjust_recorded_composes [of "0x1000" ?ps "0x500" True "\<lparr>adj_start = 7, adj_adjust = 7\<rparr>"]
    by (auto simp: addr_adjust_def)
qed

text \<open>C29: an adjustment that starts above an earlier one but is not at the start of another is recorded wrongly,
  whatever the memory \<^verbatim>\<open>realloc\<close> hands out: its start is moved by the new amount only, and not by the amounts
  of the earlier adjustments as well.\<close>

theorem adjust_recorded_between:
  assumes "find (\<lambda>p. s \<ge> adj_start p) ps = Some p" and "adj_start p \<noteq> s" and "adj_adjust p \<noteq> 0"
  shows "\<exists>ps'. record_adjust lsb fresh ps s adj = Some ps' \<and> otn ps' s = s + adj
    \<and> otn ps' s \<noteq> addr_adjust (otn ps s) (otn ps s) adj"
proof -
  let ?P = "\<lambda>p. s < adj_start p" and ?f = "\<lambda>p. p\<lparr>adj_adjust := adj_adjust p + adj\<rparr>"
    and ?new = "\<lparr>adj_start = s, adj_adjust = adj\<rparr>"
  define xs where "xs = takeWhile ?P ps"
  obtain zs where zs: "dropWhile ?P ps = p # zs"
    using assms(1) by (auto simp: find_dropWhile comp_def not_le split: list.splits)
  then have d: "drop (length xs) ps = p # zs" "take (length xs) ps = xs"
    unfolding xs_def by (metis dropWhile_eq_drop) (metis takeWhile_eq_take)
  let ?ps = "map ?f xs @ p # zs"
  obtain qs where qs: "adj_shift lsb (length xs) ?ps fresh = Some qs" "length qs = length ?ps + 1"
    using adj_shift_total [of "length xs" ?ps] by auto
  have front: "take (length xs) qs = map ?f xs" using adj_shift_front [OF qs(1)] by simp
  have "length xs \<le> length ps" unfolding xs_def by (rule length_takeWhile_le)
  then have rec: "record_adjust lsb fresh ps s adj = Some (qs[length xs := ?new])"
    using d qs(1) assms(2) by (auto simp: record_adjust_def Let_def xs_def [symmetric] nth_append min_def)
  have "qs[length xs := ?new] = map ?f xs @ ?new # drop (Suc (length xs)) qs"
    using qs(2) front by (simp add: upd_conv_take_nth_drop)
  moreover have "otn (ys @ ?new # rest) s = s + adj" if "\<forall>y \<in> set ys. ?P y" for ys rest
    using that by (induction ys) auto
  moreover have "\<forall>y \<in> set (map ?f xs). ?P y" unfolding xs_def by (auto dest: set_takeWhileD)
  ultimately have new: "otn (qs[length xs := ?new]) s = s + adj" by presburger
  have "otn ps s = s + adj_adjust p" using assms(1) by (simp add: otn_def)
  then show ?thesis using rec new assms(3) by (simp add: addr_adjust_def)
qed

theorem adjust_recorded_between_witness:
  "\<exists>ps'. record_adjust True \<lparr>adj_start = 7, adj_adjust = 7\<rparr> [\<lparr>adj_start = 0x2000, adj_adjust = 0x1000\<rparr>] 0x3000 0x1000 = Some ps'
     \<and> otn ps' 0x3000 = 0x4000 \<and> addr_adjust (otn [\<lparr>adj_start = 0x2000, adj_adjust = 0x1000\<rparr>] 0x3000) 0x4000 0x1000 = 0x5000"
  using adjust_recorded_between [of "0x3000" "[\<lparr>adj_start = 0x2000, adj_adjust = 0x1000\<rparr>]"
    "\<lparr>adj_start = 0x2000, adj_adjust = 0x1000\<rparr>" True "\<lparr>adj_start = 7, adj_adjust = 7\<rparr>" "0x1000"]
  by (auto simp: addr_adjust_def)


section \<open>Placement of the sections that are not loaded\<close>

lemma unat_clear_low:
  fixes w :: u64
  assumes "n < 64"
  shows "unat (w AND NOT (2 ^ n - 1)) = unat w - unat w mod 2 ^ n"
proof -
  have "w AND NOT (2 ^ n - 1) = push_bit n (drop_bit n w)"
    by (rule bit_word_eqI) (auto simp: mask_eq_exp_minus_1 [symmetric] bit_simps)
  then have "w AND NOT (2 ^ n - 1) = w - take_bit n w" by (metis add_diff_cancel_right' bits_ident)
  moreover have "unat (take_bit n w) = unat w mod 2 ^ n" by (simp add: unsigned_take_bit_eq flip: take_bit_eq_mod)
  moreover have "take_bit n w \<le> w" by (simp add: word_le_nat_alt \<open>unat (take_bit n w) = unat w mod 2 ^ n\<close>)
  ultimately show ?thesis by (simp add: unat_sub)
qed

lemma align_up_bounds:
  assumes "al = 2 ^ n" and "n < 64" and "unat x + unat al < 2 ^ 64"
  shows "unat x \<le> unat (align_up x al)" "unat (align_up x al) < unat x + unat al"
    "unat (align_up x al) mod unat al = 0"
proof -
  have "unat (of_nat (2 ^ n) :: u64) = 2 ^ n"
    using assms(2) power_strict_increasing [OF assms(2), of "2 :: nat"] by (simp add: unsigned_of_nat take_bit_nat_eq_self del: of_nat_power)
  then have al: "unat al = 2 ^ n" using assms(1) by simp
  have "1 \<le> unat x + 2 ^ n" by (simp add: trans_le_add2)
  then have "unat (x + al - 1) = unat x + 2 ^ n - 1"
    using assms al unat_sub [of 1 "x + al"] unat_add_nowrap [of x al] by (simp add: word_le_nat_alt)
  then have e: "unat (align_up x al) = unat x + 2 ^ n - 1 - (unat x + 2 ^ n - 1) mod 2 ^ n"
    using unat_clear_low [OF assms(2), of "x + al - 1"] by (simp add: align_up_def assms(1))
  have m: "(unat x + 2 ^ n - 1) mod 2 ^ n < 2 ^ n" by simp
  show "unat x \<le> unat (align_up x al)" using e m by linarith
  show "unat (align_up x al) < unat x + unat al" using e al by simp
  show "unat (align_up x al) mod unat al = 0" unfolding e al by (simp add: minus_mod_eq_mult_div)
qed

text \<open>The parts of the file from section \<open>i\<close> on with the section header table behind section \<open>before\<close>, as pairs of
  offset and size, in the order of the file.\<close>

fun file_parts :: "nat \<Rightarrow> u64 \<Rightarrow> u64 \<Rightarrow> nat \<Rightarrow> elf_shdr list \<Rightarrow> (nat \<times> nat) list" where
  "file_parts before tblsize shoff i [] = []"
| "file_parts before tblsize shoff i (s # ss) =
     (unat (sh_offset s), unat (sh_size s)) # (if i = before then [(unat shoff, unat tblsize)] else [])
       @ file_parts before tblsize shoff (Suc i) ss"

definition parts_disjoint :: "nat \<Rightarrow> (nat \<times> nat) list \<Rightarrow> bool" where
  "parts_disjoint lo ps \<longleftrightarrow> sorted_wrt (\<lambda>p q. fst p + snd p \<le> fst q) ps \<and> list_all (\<lambda>p. lo \<le> fst p) ps"

definition is_align :: "u64 \<Rightarrow> bool" where
  "is_align al \<longleftrightarrow> (\<exists>n < 64. al = 2 ^ n)"

lemma align_up_ok:
  assumes "is_align al" and "unat x + unat al < 2 ^ 64"
  shows "unat x \<le> unat (align_up x al)" "unat (align_up x al) < unat x + unat al" "unat (align_up x al) mod unat al = 0"
  using assms align_up_bounds by (auto simp: is_align_def)

definition sec_need :: "elf_shdr list \<Rightarrow> nat" where
  "sec_need ss = sum_list (map (\<lambda>s. unat (sh_size s) + unat (sh_addralign s)) ss)"

definition placeable :: "elf_shdr \<Rightarrow> bool" where
  "placeable s \<longleftrightarrow> \<not> RELOCATE_SCN (sh_flags s) \<and> sh_type s \<noteq> SHT_NOBITS \<and> is_align (sh_addralign s)"

lemma place_secs_ok:
  assumes "list_all placeable ss" and "is_align al"
    and "unat last_offset + sec_need ss + (if i \<le> before then unat al + unat tblsize else 0) < 2 ^ 64"
  shows "\<exists>ss' shoff'. place_secs before al tblsize i ss last_offset shoff = Some (ss', shoff')
    \<and> parts_disjoint (unat last_offset) (file_parts before tblsize shoff' i ss')
    \<and> list_all (\<lambda>s. unat (sh_offset s) mod unat (sh_addralign s) = 0) ss' \<and> length ss' = length ss
    \<and> (before < i \<longrightarrow> shoff' = shoff)"
  using assms(1,3)
proof (induction ss arbitrary: i last_offset shoff)
  case Nil
  then show ?case by (simp add: parts_disjoint_def)
next
  case (Cons s ss)
  define off where "off = align_up last_offset (sh_addralign s)"
  have s: "placeable s" using Cons.prems by simp
  have "unat last_offset + unat (sh_addralign s) < 2 ^ 64" using Cons.prems by (simp add: sec_need_def)
  note off = align_up_ok [OF _ this, folded off_def]
  have al: "is_align (sh_addralign s)" using s by (simp add: placeable_def)
  note off = off [OF al]
  have e: "unat (off + sh_size s) = unat off + unat (sh_size s)"
    using off(2) Cons.prems by (intro unat_add_nowrap) (simp add: sec_need_def split: if_splits)
  define sh2 where "sh2 = (if i = before then align_up (off + sh_size s) al else shoff)"
  define lo2 where "lo2 = (if i = before then sh2 + tblsize else off + sh_size s)"
  have need: "unat lo2 + sec_need ss + (if Suc i \<le> before then unat al + unat tblsize else 0) < 2 ^ 64
      \<and> (i = before \<longrightarrow> unat lo2 = unat sh2 + unat tblsize \<and> unat off + unat (sh_size s) \<le> unat sh2)"
  proof (cases "i = before")
    case True
    have "unat (off + sh_size s) + unat al < 2 ^ 64"
      using True off(2) e Cons.prems(2) by (simp add: sec_need_def)
    note a = align_up_ok [OF assms(2) this]
    then show ?thesis using True off(2) e Cons.prems(2) by (simp add: lo2_def sh2_def sec_need_def unat_add_nowrap)
  next
    case False
    then show ?thesis using off(2) e Cons.prems(2) by (simp add: lo2_def sec_need_def split: if_splits)
  qed
  obtain ss' shoff' where IH: "place_secs before al tblsize (Suc i) ss lo2 sh2 = Some (ss', shoff')"
    "parts_disjoint (unat lo2) (file_parts before tblsize shoff' (Suc i) ss')"
    "list_all (\<lambda>s. unat (sh_offset s) mod unat (sh_addralign s) = 0) ss'" "length ss' = length ss"
    "before < Suc i \<longrightarrow> shoff' = sh2"
    using Cons.IH [of lo2 "Suc i" sh2] Cons.prems(1) need by auto
  have "place_secs before al tblsize i (s # ss) last_offset shoff = Some (s\<lparr>sh_offset := off\<rparr> # ss', shoff')"
    using s IH(1) by (cases "i = before") (simp_all add: placeable_def Let_def off_def sh2_def lo2_def)
  moreover have "parts_disjoint (unat last_offset) (file_parts before tblsize shoff' i (s\<lparr>sh_offset := off\<rparr> # ss'))"
    using IH(2,5) need off(1) e by (auto simp: parts_disjoint_def lo2_def list_all_iff)
  moreover have "before < i \<longrightarrow> shoff' = shoff" using IH(5) by (simp add: sh2_def)
  ultimately show ?case using IH(3,4) off(3) by auto
qed


lemma file_parts_sec:
  "k < length ss \<Longrightarrow> (unat (sh_offset (ss ! k)), unat (sh_size (ss ! k))) \<in> set (file_parts before tblsize shoff i ss)"
  by (induction ss arbitrary: k i) (auto simp: nth_Cons split: nat.splits)

lemma file_parts_tbl:
  "i \<le> before \<Longrightarrow> before < i + length ss \<Longrightarrow> (unat shoff, unat tblsize) \<in> set (file_parts before tblsize shoff i ss)"
proof (induction ss arbitrary: i)
  case (Cons s ss)
  then show ?case by (cases "i = before") simp_all
qed simp

lemma parts_tail: "parts_disjoint lo (file_parts before tblsize shoff i (s # ss)) \<Longrightarrow>
    parts_disjoint lo (file_parts before tblsize shoff (Suc i) ss)"
  by (auto simp: parts_disjoint_def sorted_wrt_append split: if_splits)

lemma file_parts_low:
  "parts_disjoint lo (file_parts before tblsize shoff i ss) \<Longrightarrow> k < length ss \<Longrightarrow> lo \<le> unat (sh_offset (ss ! k))"
  using file_parts_sec by (fastforce simp: parts_disjoint_def list_all_iff)

lemma file_parts_order:
  assumes "parts_disjoint lo (file_parts before tblsize shoff i ss)" and "j < k" and "k < length ss"
  shows "unat (sh_offset (ss ! j)) + unat (sh_size (ss ! j)) \<le> unat (sh_offset (ss ! k))"
  using assms
proof (induction ss arbitrary: i j k)
  case (Cons s ss)
  obtain k' where k: "k = Suc k'" using Cons.prems by (cases k) auto
  show ?case
  proof (cases j)
    case 0
    have "(unat (sh_offset (ss ! k')), unat (sh_size (ss ! k'))) \<in> set (file_parts before tblsize shoff (Suc i) ss)"
      using Cons.prems k by (intro file_parts_sec) simp
    moreover have "\<forall>q \<in> set (file_parts before tblsize shoff (Suc i) ss). unat (sh_offset s) + unat (sh_size s) \<le> fst q"
      using Cons.prems(1) by (auto simp: parts_disjoint_def)
    ultimately show ?thesis using k 0 by fastforce
  next
    case (Suc j')
    then show ?thesis using Cons.IH [OF parts_tail [OF Cons.prems(1)], of j' k'] Cons.prems k by simp
  qed
qed simp

lemma file_parts_table:
  assumes "parts_disjoint lo (file_parts before tblsize shoff i ss)" and "k < length ss" and "i \<le> before"
    and "before < i + length ss"
  shows "unat (sh_offset (ss ! k)) + unat (sh_size (ss ! k)) \<le> unat shoff
       \<or> unat shoff + unat tblsize \<le> unat (sh_offset (ss ! k))"
  using assms
proof (induction ss arbitrary: i k)
  case (Cons s ss)
  show ?case
  proof (cases "i = before")
    case True
    have "(unat (sh_offset (ss ! k')), unat (sh_size (ss ! k'))) \<in> set (file_parts before tblsize shoff (Suc i) ss)"
      if "k = Suc k'" for k' using Cons.prems(2) that by (intro file_parts_sec) simp
    then show ?thesis using Cons.prems(1) True by (cases k) (auto simp: parts_disjoint_def)
  next
    case False
    then have "(unat shoff, unat tblsize) \<in> set (file_parts before tblsize shoff (Suc i) ss)"
      using Cons.prems by (intro file_parts_tbl) simp_all
    then show ?thesis
      using Cons.prems False Cons.IH [OF parts_tail [OF Cons.prems(1)]] by (cases k) (auto simp: parts_disjoint_def)
  qed
qed simp

lemma skip_alloc_index: "skip_alloc ss i lo = (j, lo') \<Longrightarrow> i \<le> j \<and> j \<le> i + length ss"
  by (induction ss arbitrary: i lo) (fastforce split: if_splits)+

lemma find_in_set: "find P xs = Some x \<Longrightarrow> x \<in> set xs"
  by (induction xs) (auto split: if_splits)

lemma sec_before_found:
  assumes "sec_before shs shoff i n \<noteq> 0"
  shows "i \<le> sec_before shs shoff i n \<and> sec_before shs shoff i n < n"
proof -
  have "sec_before shs shoff i n \<in> set [i..<n]"
    using assms unfolding sec_before_def by (auto simp del: set_upt split: option.splits dest: find_in_set)
  then show ?thesis by simp
qed

text \<open>C31: \<^verbatim>\<open>recompute_nonalloc_offsets\<close> lays out the sections that are not loaded without overlap: they follow the
  loaded part of the file in order, each at a multiple of its alignment, and the section header table, wherever it
  was among them, overlaps none.\<close>

theorem recompute_offsets_disjoint:
  fixes d :: dso
  defines "n \<equiv> unat (e_shnum (ehdr d))" and "tbl \<equiv> gelf_fsize_shdr d * of_nat (unat (e_shnum (ehdr d)))"
  assumes "skip_alloc (drop 1 (take n (shdr d))) 1 0 = (i, lo)" and "i < n" and "n \<le> length (shdr d)"
    and "list_all placeable (drop i (take n (shdr d)))"
    and "unat lo + sec_need (drop i (take n (shdr d))) + 2 * unat (gelf_fsize_addr d) + unat tbl < 2 ^ 64"
    and "e_shoff (ehdr d) < sh_offset (shdr d ! i) \<or> sec_before (shdr d) (e_shoff (ehdr d)) i n \<noteq> 0"
  shows "\<exists>d'. recompute_nonalloc_offsets d = Some (0, d') \<and> (\<forall>k. i \<le> k \<and> k < n \<longrightarrow>
       unat lo \<le> unat (sh_offset (shdr d' ! k)) \<and> unat (sh_offset (shdr d' ! k)) mod unat (sh_addralign (shdr d' ! k)) = 0
     \<and> (\<forall>j. i \<le> j \<and> j < k \<longrightarrow> unat (sh_offset (shdr d' ! j)) + unat (sh_size (shdr d' ! j)) \<le> unat (sh_offset (shdr d' ! k)))
     \<and> (unat (sh_offset (shdr d' ! k)) + unat (sh_size (shdr d' ! k)) \<le> unat (e_shoff (ehdr d'))
        \<or> unat (e_shoff (ehdr d')) + unat tbl \<le> unat (sh_offset (shdr d' ! k))))"
proof -
  let ?al = "gelf_fsize_addr d" and ?ss = "drop i (take n (shdr d))"
  define front where "front \<longleftrightarrow> e_shoff (ehdr d) < sh_offset (shdr d ! i)"
  define sh1 where "sh1 = (if front then align_up lo ?al else e_shoff (ehdr d))"
  define lo1 where "lo1 = (if front then sh1 + tbl else lo)"
  define bf where "bf = (if front then 0 else sec_before (shdr d) (e_shoff (ehdr d)) i n)"
  have i1: "1 \<le> i" using skip_alloc_index [OF assms(3)] by simp
  have al: "is_align ?al" unfolding is_align_def gelf_fsize_addr_def by (cases "ei_class (ehdr d) = ELFCLASS32") (auto intro: exI [of _ 2] exI [of _ 3])
  have "unat lo + unat ?al < 2 ^ 64" using assms(7) by simp
  note au = align_up_ok [OF al this]
  have lo1: "unat lo \<le> unat lo1" "front \<longrightarrow> unat lo1 = unat sh1 + unat tbl"
    "unat lo1 + sec_need ?ss + (if i \<le> bf then unat ?al + unat tbl else 0) < 2 ^ 64"
    using au assms(7) i1 by (auto simp: lo1_def sh1_def bf_def unat_add_nowrap)
  obtain ss' shoff' where P: "place_secs bf ?al tbl i ?ss lo1 sh1 = Some (ss', shoff')"
    "parts_disjoint (unat lo1) (file_parts bf tbl shoff' i ss')"
    "list_all (\<lambda>s. unat (sh_offset s) mod unat (sh_addralign s) = 0) ss'" "length ss' = length ?ss" "bf < i \<longrightarrow> shoff' = sh1"
    using place_secs_ok [OF assms(6) al lo1(3)] by blast
  let ?d = "d\<lparr>ehdr := (ehdr d)\<lparr>e_shoff := shoff'\<rparr>, shdr := take i (shdr d) @ ss' @ drop (max i n) (shdr d)\<rparr>"
  have "recompute_nonalloc_offsets d = Some (0, ?d)"
    using P(1) assms(3,4,5)
    by (cases front) (simp_all add: recompute_nonalloc_offsets_def Let_def n_def [symmetric] tbl_def [folded n_def, symmetric]
        nth_opt_def front_def [symmetric] sh1_def lo1_def bf_def)
  moreover
  have nth: "shdr ?d ! k = ss' ! (k - i) \<and> k - i < length ss'" if "i \<le> k" "k < n" for k
    using that assms(4,5) P(4) by (simp add: nth_append min_def)
  have found: "front \<or> i \<le> bf \<and> bf < n" using assms(8) sec_before_found unfolding front_def bf_def by auto
  moreover have "unat lo \<le> unat (sh_offset (shdr ?d ! k)) \<and> unat (sh_offset (shdr ?d ! k)) mod unat (sh_addralign (shdr ?d ! k)) = 0
     \<and> (\<forall>j. i \<le> j \<and> j < k \<longrightarrow> unat (sh_offset (shdr ?d ! j)) + unat (sh_size (shdr ?d ! j)) \<le> unat (sh_offset (shdr ?d ! k)))
     \<and> (unat (sh_offset (shdr ?d ! k)) + unat (sh_size (shdr ?d ! k)) \<le> unat (e_shoff (ehdr ?d))
        \<or> unat (e_shoff (ehdr ?d)) + unat tbl \<le> unat (sh_offset (shdr ?d ! k)))" if k: "i \<le> k \<and> k < n" for k
  proof (intro conjI allI impI)
    have lk: "unat lo1 \<le> unat (sh_offset (shdr ?d ! k))" using file_parts_low [OF P(2)] nth k by simp
    then show "unat lo \<le> unat (sh_offset (shdr ?d ! k))" using lo1(1) by (rule le_trans [rotated])
    show "unat (sh_offset (shdr ?d ! k)) mod unat (sh_addralign (shdr ?d ! k)) = 0"
      using P(3) nth [of k] k by (simp add: list_all_length)
    show "unat (sh_offset (shdr ?d ! j)) + unat (sh_size (shdr ?d ! j)) \<le> unat (sh_offset (shdr ?d ! k))"
      if "i \<le> j \<and> j < k" for j
      using file_parts_order [OF P(2), of "j - i" "k - i"] nth [of j] nth [of k] k that by (simp add: diff_less_mono)
    show "unat (sh_offset (shdr ?d ! k)) + unat (sh_size (shdr ?d ! k)) \<le> unat (e_shoff (ehdr ?d))
        \<or> unat (e_shoff (ehdr ?d)) + unat tbl \<le> unat (sh_offset (shdr ?d ! k))"
    proof (cases front)
      case True
      then have "shoff' = sh1" using P(5) i1 by (simp add: bf_def)
      then show ?thesis using True lo1(2) lk by simp
    next
      case False
      then show ?thesis
        using file_parts_table [OF P(2), of "k - i"] found nth [of k] k P(4) assms(5) by (simp add: min_def)
    qed
  qed
  ultimately show ?thesis by blast
qed


theorem recompute_offsets_disjoint_witness:
  "\<exists>d'. recompute_nonalloc_offsets (sample_dso\<lparr>ehdr := sample_ehdr\<lparr>e_shoff := 0x3000\<rparr>\<rparr>) = Some (0, d')
     \<and> 0x2020 \<le> unat (sh_offset (shdr d' ! 4)) \<and> unat (sh_offset (shdr d' ! 4)) mod unat (sh_addralign (shdr d' ! 4)) = 0"
proof -
  let ?d = "sample_dso\<lparr>ehdr := sample_ehdr\<lparr>e_shoff := 0x3000\<rparr>\<rparr>"
  have n: "unat (e_shnum (ehdr ?d)) = 5" by (simp add: sample_ehdr_def)
  have skip: "skip_alloc (drop 1 (take 5 (shdr ?d))) 1 0 = (4, 0x2020)"
    by (simp add: sample_defs RELOCATE_SCN_def elf_consts)
  have "is_align 8" unfolding is_align_def by (rule exI [of _ 3]) simp
  then have pl: "list_all placeable (drop 4 (take 5 (shdr ?d)))"
    by (simp add: sample_defs placeable_def RELOCATE_SCN_def elf_consts)
  have "sec_before (shdr ?d) (e_shoff (ehdr ?d)) 4 5 = 4"
    by (simp add: sec_before_def sample_defs upt_rec)
  moreover have "sec_need (drop 4 (take 5 (shdr ?d))) = 32" "gelf_fsize_addr ?d = 8" "gelf_fsize_shdr ?d = 64" "length (shdr ?d) = 5"
    by (simp_all add: sec_need_def gelf_fsize_addr_def gelf_fsize_shdr_def sample_defs elf_consts)
  ultimately show ?thesis
    using recompute_offsets_disjoint [of ?d 4 "0x2020", unfolded n, OF skip _ _ pl] by fastforce
qed

end
