(* ===== verification/SecMove.thy ===== *)
theory SecMove
  imports DsoAdjust
begin

text \<open>
  Renumbering of sections, from \<^verbatim>\<open>src/dso.c\<close>: the two maps between old and new section numbers of a
  \<^verbatim>\<open>struct section_move\<close> (\<^verbatim>\<open>init_section_move\<close>, \<^verbatim>\<open>add_section\<close>, \<^verbatim>\<open>remove_section\<close>), and the section numbers in
  symbols (\<^verbatim>\<open>adjust_symtab_section_indices\<close>, \<^verbatim>\<open>set_stt_section_values\<close>); the section name table (\<^verbatim>\<open>strtabfind\<close>,
  \<^verbatim>\<open>shstrtabadd\<close>); and \<^verbatim>\<open>remove_dynamic_prelink_tags\<close> of \<^verbatim>\<open>src/undo.c\<close>.

  The array \<^verbatim>\<open>new_to_old\<close> has room for 20 sections more than there were; the list holds the entries in use.

  The lemmas: whatever sections are added and removed, the two maps stay inverse to each other; a name that was
  added to the section name table is found at the offset that is returned.
\<close>

section \<open>The maps\<close>

record section_move =
  old_shnum :: nat
  new_shnum :: nat
  old_to_new :: "int list"
  new_to_old :: "int list"

definition init_section_move :: "dso \<Rightarrow> section_move" where
  "init_section_move d = (let n = unat (e_shnum (ehdr d)) in
     \<lparr>old_shnum = n, new_shnum = n, old_to_new = map int [0..<n], new_to_old = map int [0..<n]\<rparr>)"

text \<open>The loops start at 1: the entry of section 0 stays.\<close>

fun map_from_1 :: "(int \<Rightarrow> int) \<Rightarrow> int list \<Rightarrow> int list" where
  "map_from_1 f [] = []"
| "map_from_1 f (x # xs) = x # map f xs"

definition add_section :: "section_move \<Rightarrow> nat \<Rightarrow> section_move option" where
  "add_section mv sec = do {
     _ \<leftarrow> guard_opt (new_shnum mv < old_shnum mv + 20);
     _ \<leftarrow> guard_opt (sec \<le> new_shnum mv);
     Some (mv\<lparr>new_to_old := take sec (new_to_old mv) @ (- 1) # drop sec (new_to_old mv),
              new_shnum := new_shnum mv + 1,
              old_to_new := map_from_1 (\<lambda>x. if x \<ge> int sec then x + 1 else x) (old_to_new mv)\<rparr>)
   }"

definition remove_section :: "section_move \<Rightarrow> nat \<Rightarrow> section_move option" where
  "remove_section mv sec = do {
     _ \<leftarrow> guard_opt (sec < new_shnum mv);
     Some (mv\<lparr>new_to_old := take sec (new_to_old mv) @ drop (sec + 1) (new_to_old mv),
              new_shnum := new_shnum mv - 1,
              old_to_new := map_from_1 (\<lambda>x. if x = int sec then - 1 else if x > int sec then x - 1 else x) (old_to_new mv)\<rparr>)
   }"

section \<open>Section numbers in symbols\<close>

text \<open>\<^verbatim>\<open>SHN_LORESERVE\<close> is \<open>0xff00\<close>; \<open>ELF32_ST_INFO (STB_LOCAL, STT_SECTION)\<close> is 3. The state is whether a symbol changed,
  and the object.\<close>

definition renumber_symbol :: "dso \<Rightarrow> nat \<Rightarrow> int list \<Rightarrow> elf_sym \<Rightarrow> (int \<times> elf_sym option) option" where
  "renumber_symbol d oldn o2n sy =
     (if st_shndx sy > 0 \<and> st_shndx sy < 0xff00 then
        (let k = unat (st_shndx sy) in do {
           gone \<leftarrow> (if k \<ge> oldn then Some True else do { x \<leftarrow> nth_opt o2n k; Some (x = - 1) });
           if gone then
             (if st_size sy = 0 \<and> st_info sy = 3 then Some (0, Some (sy\<lparr>st_value := 0, st_shndx := 0\<rparr>)) else Some (1, None))
           else do {
             x \<leftarrow> nth_opt o2n k;
             if x \<noteq> int k then Some (0, Some (sy\<lparr>st_shndx := word_of_int x\<rparr>)) else Some (0, None)
           }
         })
      else Some (0, None))"

definition adjust_symtab_section_indices :: "dso \<Rightarrow> nat \<Rightarrow> nat \<Rightarrow> int list \<Rightarrow> (int \<times> dso) option" where
  "adjust_symtab_section_indices d n oldn o2n = do {
     (rc, changed, d) \<leftarrow> each_entry snd n (\<lambda>k ndx _ (changed, d). do {
       sy \<leftarrow> dso_getsym d n k ndx;
       (rc, new) \<leftarrow> renumber_symbol d oldn o2n sy;
       if rc \<noteq> 0 then Some (1, changed, d)
       else (case new of
           None \<Rightarrow> Some (0, changed, d)
         | Some sy \<Rightarrow> do { d \<leftarrow> dso_update_sym d n k ndx sy; Some (0, True, d) })
     }) (False, d);
     if rc \<noteq> 0 then Some (1, d)
     else Some (0, if changed then elf_flagscn_dirty d n else d)
   }"

text \<open>A section symbol as \<^verbatim>\<open>set_stt_section_values\<close> expects it.\<close>

definition is_section_symbol :: "elf_sym \<Rightarrow> bool" where
  "is_section_symbol sy \<longleftrightarrow> st_info sy = 3 \<and> st_size sy = 0 \<and> st_other sy = 0 \<and> st_name sy = 0"

text \<open>The first loop gives the section symbols the addresses of their sections; \<^verbatim>\<open>seen\<close> marks the sections.\<close>

fun stt_known :: "nat \<Rightarrow> nat \<Rightarrow> nat \<Rightarrow> bool list \<Rightarrow> dso \<Rightarrow> (bool list \<times> dso) option" where
  "stt_known n ndx 0 seen d = Some (seen, d)"
| "stt_known n ndx (Suc m) seen d = do {
     sy \<leftarrow> dso_getsym d n 0 ndx;
     if is_section_symbol sy then
       (if st_shndx sy > 0 \<and> st_shndx sy < 0xff00 then do {
          _ \<leftarrow> nth_opt seen (unat (st_shndx sy));
          sh \<leftarrow> nth_opt (shdr d) (unat (st_shndx sy));
          d \<leftarrow> dso_update_sym d n 0 ndx (sy\<lparr>st_value := sh_addr sh\<rparr>);
          stt_known n (Suc ndx) m (seen[unat (st_shndx sy) := True]) d
        }
        else stt_known n (Suc ndx) m seen d)
     else Some (seen, d)
   }"

text \<open>The second loop hands out the sections without a symbol, in order.\<close>

definition next_unseen :: "bool list \<Rightarrow> nat \<Rightarrow> nat \<Rightarrow> nat" where
  "next_unseen seen sec shnum = (case find (\<lambda>i. \<not> seen ! i) [sec..<shnum] of Some i \<Rightarrow> i | None \<Rightarrow> max sec shnum)"

fun stt_unknown :: "nat \<Rightarrow> nat \<Rightarrow> nat \<Rightarrow> nat \<Rightarrow> bool list \<Rightarrow> dso \<Rightarrow> dso option" where
  "stt_unknown n ndx 0 sec seen d = Some d"
| "stt_unknown n ndx (Suc m) sec seen d = do {
     sy \<leftarrow> dso_getsym d n 0 ndx;
     if is_section_symbol sy then
       (if st_shndx sy = 0 then do {
          let shnum = unat (e_shnum (ehdr d));
          let sec = next_unseen seen sec shnum;
          v \<leftarrow> (if sec \<ge> shnum then Some 0 else map_option sh_addr (nth_opt (shdr d) sec));
          d \<leftarrow> dso_update_sym d n 0 ndx (sy\<lparr>st_value := v, st_shndx := of_nat sec\<rparr>);
          stt_unknown n (Suc ndx) m (sec + 1) seen d
        }
        else stt_unknown n (Suc ndx) m sec seen d)
     else Some d
   }"

definition set_stt_section_values :: "dso \<Rightarrow> nat \<Rightarrow> (int \<times> dso) option" where
  "set_stt_section_values d n = do {
     sh \<leftarrow> nth_opt (shdr d) n;
     sc \<leftarrow> nth_opt (scn d) n;
     _ \<leftarrow> guard_opt (length (scn_data sc) = 1);
     b \<leftarrow> block_at d n 0;
     _ \<leftarrow> guard_opt (d_off b = 0);
     m \<leftarrow> max_ndx b sh;
     sy \<leftarrow> dso_getsym d n 0 0;
     if st_info sy \<noteq> 0 \<or> st_size sy \<noteq> 0 \<or> st_other sy \<noteq> 0 \<or> st_value sy \<noteq> 0 \<or> st_shndx sy \<noteq> 0 \<or> st_name sy \<noteq> 0
     then Some (0, d)
     else do {
       (seen, d) \<leftarrow> stt_known n 1 (m - 1) (replicate (unat (e_shnum (ehdr d))) False) d;
       d \<leftarrow> stt_unknown n 1 (m - 1) 1 seen d;
       Some (0, d)
     }
   }"


section \<open>The section name table\<close>

text \<open>The search for a string that ends with the name; \<^verbatim>\<open>strchr\<close> running out of the buffer is \<^term>\<open>None\<close>.\<close>

function find_suffix :: "u8 list \<Rightarrow> u8 list \<Rightarrow> nat \<Rightarrow> nat option option" where
  "find_suffix name buf p =
     (if p < length buf then
        (let r = p + length (takeWhile (\<lambda>b. b \<noteq> 0) (drop p buf)) in
         if r < length buf then
           (if r - p \<ge> length name \<and> take (length name) (drop (r - length name) buf) = name
            then Some (Some (r - length name)) else find_suffix name buf (r + 1))
         else None)
      else Some None)"
  by pat_completeness auto
termination by (relation "measure (\<lambda>(name, buf, p). length buf - p)") auto

declare find_suffix.simps [simp del]

definition strtab_buf :: "dso \<Rightarrow> nat \<Rightarrow> (elf_data \<times> u8 list) option" where
  "strtab_buf d strndx = do {
     sh \<leftarrow> nth_opt (shdr d) strndx;
     sc \<leftarrow> nth_opt (scn d) strndx;
     _ \<leftarrow> guard_opt (length (scn_data sc) = 1);
     b \<leftarrow> block_at d strndx 0;
     _ \<leftarrow> guard_opt (d_off b = 0);
     _ \<leftarrow> guard_opt (d_size b = sh_size sh);
     buf \<leftarrow> d_buf b;
     Some (b, buf)
   }"

definition strtabfind :: "dso \<Rightarrow> nat \<Rightarrow> u8 list \<Rightarrow> nat option" where
  "strtabfind d strndx name = do {
     sh \<leftarrow> nth_opt (shdr d) strndx;
     if sh_type sh \<noteq> 3 then Some 0
     else do {
       (b, buf) \<leftarrow> strtab_buf d strndx;
       r \<leftarrow> find_suffix name buf 0;
       Some (case r of Some off \<Rightarrow> off | None \<Rightarrow> 0)
     }
   }"

definition shstrtabadd :: "dso \<Rightarrow> u8 list \<Rightarrow> (nat \<times> dso) option" where
  "shstrtabadd d name = (let n = unat (e_shstrndx (ehdr d)); len = length name in do {
     (b, buf) \<leftarrow> strtab_buf d n;
     r \<leftarrow> find_suffix name buf 0;
     case r of
       Some off \<Rightarrow> Some (off, d)
     | None \<Rightarrow> do {
         let ret = unat (d_size b);
         let d = set_block d n 0 (b\<lparr>d_buf := Some (buf @ name @ [0]), d_size := d_size b + of_nat (len + 1)\<rparr>);
         let adj = align_up (of_nat (len + 1)) (gelf_fsize_addr d);
         (rc, d) \<leftarrow> adjust_dso_nonalloc d 0 (sh_offset (shdr d ! n) + sh_size (shdr d ! n)) adj;
         if rc \<noteq> 0 then Some (0, d)
         else Some (ret, d\<lparr>shdr := (shdr d)[n := (shdr d ! n)\<lparr>sh_size := sh_size (shdr d ! n) + of_nat (len + 1)\<rparr>]\<rparr>)
       }
   })"

section \<open>The tags of prelink in the dynamic section\<close>

definition prelink_tags :: "u64 list" where
  "prelink_tags = [DT_CHECKSUM, DT_GNU_PRELINKED, 0x6ffffef9, 0x6ffffdf7, 0x6ffffef8, 0x6ffffdf6]"

text \<open>From the last entry to the first, up to one that is neither empty nor written by prelink.\<close>

fun remove_tags :: "nat \<Rightarrow> nat \<Rightarrow> dso \<Rightarrow> dso option" where
  "remove_tags n 0 d = Some d"
| "remove_tags n (Suc ndx) d = do {
     dyn \<leftarrow> dso_getdyn d n 0 ndx;
     if d_tag dyn = DT_NULL then remove_tags n ndx d
     else if d_tag dyn \<in> set prelink_tags then do {
       d \<leftarrow> dso_update_dyn d n 0 ndx \<lparr>d_tag = DT_NULL, d_ptr = 0\<rparr>;
       remove_tags n ndx (elf_flagscn_dirty d n)
     }
     else Some d
   }"

definition remove_dynamic_prelink_tags :: "dso \<Rightarrow> (int \<times> dso) option" where
  "remove_dynamic_prelink_tags d = (let n = dynamic d in do {
     sh \<leftarrow> nth_opt (shdr d) n;
     _ \<leftarrow> guard_opt (sh_type sh = SHT_DYNAMIC);
     sc \<leftarrow> nth_opt (scn d) n;
     _ \<leftarrow> guard_opt (length (scn_data sc) = 1);
     b \<leftarrow> block_at d n 0;
     m \<leftarrow> max_ndx b sh;
     d \<leftarrow> remove_tags n m d;
     Some (0, d)
   })"

section \<open>The maps stay inverse\<close>

text \<open>Section 0 is never moved, as in every call.\<close>

inductive moves :: "section_move \<Rightarrow> section_move \<Rightarrow> bool" where
  moves_refl: "moves mv mv"
| moves_add: "moves mv mv' \<Longrightarrow> 1 \<le> sec \<Longrightarrow> add_section mv' sec = Some mv'' \<Longrightarrow> moves mv mv''"
| moves_remove: "moves mv mv' \<Longrightarrow> 1 \<le> sec \<Longrightarrow> remove_section mv' sec = Some mv'' \<Longrightarrow> moves mv mv''"

definition move_ok :: "section_move \<Rightarrow> bool" where
  "move_ok mv \<longleftrightarrow> length (old_to_new mv) = old_shnum mv \<and> length (new_to_old mv) = new_shnum mv
     \<and> 0 < old_shnum mv \<and> 0 < new_shnum mv \<and> old_to_new mv ! 0 = 0
     \<and> (\<forall>i < old_shnum mv. \<forall>j < new_shnum mv. old_to_new mv ! i = int j \<longleftrightarrow> new_to_old mv ! j = int i)
     \<and> (\<forall>i < old_shnum mv. - 1 \<le> old_to_new mv ! i \<and> old_to_new mv ! i < int (new_shnum mv))
     \<and> (\<forall>j < new_shnum mv. - 1 \<le> new_to_old mv ! j \<and> new_to_old mv ! j < int (old_shnum mv))"

lemma move_okD: "move_ok mv \<Longrightarrow> i < old_shnum mv \<Longrightarrow> j < new_shnum mv \<Longrightarrow>
    old_to_new mv ! i = int j \<longleftrightarrow> new_to_old mv ! j = int i"
  by (simp add: move_ok_def)

lemma map_from_1_eq: "xs \<noteq> [] \<Longrightarrow> f (xs ! 0) = xs ! 0 \<Longrightarrow> map_from_1 f xs = map f xs"
  by (cases xs) simp_all

lemma init_move_ok:
  assumes "0 < e_shnum (ehdr d)"
  shows "move_ok (init_section_move d)"
proof -
  obtain n where "unat (e_shnum (ehdr d)) = n" "0 < n" using assms by (simp add: word_less_nat_alt)
  then show ?thesis by (auto simp: move_ok_def init_section_move_def Let_def)
qed

lemma add_move_ok:
  assumes ok: "move_ok mv" and "1 \<le> sec" and "add_section mv sec = Some mv'"
  shows "move_ok mv'"
proof -
  let ?f = "\<lambda>x. if x \<ge> int sec then x + 1 else x"
  have m: "map_from_1 ?f (old_to_new mv) = map ?f (old_to_new mv)"
    using ok assms(2) by (intro map_from_1_eq) (auto simp: move_ok_def)
  have sec: "sec \<le> new_shnum mv" and mv': "mv' = mv\<lparr>new_to_old := take sec (new_to_old mv) @ (- 1) # drop sec (new_to_old mv),
      new_shnum := new_shnum mv + 1, old_to_new := map ?f (old_to_new mv)\<rparr>"
    using assms by (auto simp: add_section_def bind_eq_Some m)
  have n2o: "new_to_old mv' ! j = (if j < sec then new_to_old mv ! j else if j = sec then - 1 else new_to_old mv ! (j - 1))"
    if "j < new_shnum mv + 1" for j
    using that sec ok by (auto simp: mv' move_ok_def nth_append nth_Cons')
  have o2n: "old_to_new mv' ! i = ?f (old_to_new mv ! i)" if "i < old_shnum mv" for i
    using that ok by (simp add: mv' move_ok_def)
  have inv: "old_to_new mv' ! i = int j \<longleftrightarrow> new_to_old mv' ! j = int i" if i: "i < old_shnum mv" and j: "j < new_shnum mv + 1" for i j
  proof (cases "j \<le> sec")
    case True
    then have "j < sec \<Longrightarrow> old_to_new mv ! i = int j \<longleftrightarrow> new_to_old mv ! j = int i" using move_okD [OF ok i] sec by simp
    then show ?thesis using True o2n [OF i] n2o [OF j] by (cases "j = sec") auto
  next
    case False
    then have "old_to_new mv ! i = int (j - 1) \<longleftrightarrow> new_to_old mv ! (j - 1) = int i" using j by (intro move_okD ok i) simp
    then show ?thesis using False o2n [OF i] n2o [OF j] by auto
  qed
  have "- 1 \<le> old_to_new mv' ! i \<and> old_to_new mv' ! i < int (new_shnum mv')" if "i < old_shnum mv" for i
    using ok that o2n [OF that] by (auto simp: move_ok_def mv')
  moreover have "- 1 \<le> new_to_old mv' ! j \<and> new_to_old mv' ! j < int (old_shnum mv')" if "j < new_shnum mv + 1" for j
    using ok that n2o [OF that] sec by (auto simp: move_ok_def mv')
  moreover have "old_to_new mv' ! 0 = 0" using o2n [of 0] ok assms(2) by (simp add: move_ok_def)
  ultimately show ?thesis using inv ok sec unfolding move_ok_def by (simp add: mv')
qed

lemma remove_move_ok:
  assumes ok: "move_ok mv" and "1 \<le> sec" and "remove_section mv sec = Some mv'"
  shows "move_ok mv'"
proof -
  let ?f = "\<lambda>x. if x = int sec then - 1 else if x > int sec then x - 1 else x"
  have m: "map_from_1 ?f (old_to_new mv) = map ?f (old_to_new mv)"
    using ok assms(2) by (intro map_from_1_eq) (auto simp: move_ok_def)
  have sec: "sec < new_shnum mv" and mv': "mv' = mv\<lparr>new_to_old := take sec (new_to_old mv) @ drop (sec + 1) (new_to_old mv),
      new_shnum := new_shnum mv - 1, old_to_new := map ?f (old_to_new mv)\<rparr>"
    using assms by (auto simp: remove_section_def bind_eq_Some m)
  have n2o: "new_to_old mv' ! j = (if j < sec then new_to_old mv ! j else new_to_old mv ! (j + 1))"
    if "j < new_shnum mv - 1" for j
    using that sec ok by (auto simp: mv' move_ok_def nth_append)
  have o2n: "old_to_new mv' ! i = ?f (old_to_new mv ! i)" if "i < old_shnum mv" for i
    using that ok by (simp add: mv' move_ok_def)
  have inv: "old_to_new mv' ! i = int j \<longleftrightarrow> new_to_old mv' ! j = int i" if i: "i < old_shnum mv" and j: "j < new_shnum mv - 1" for i j
  proof (cases "j < sec")
    case True
    then have "old_to_new mv ! i = int j \<longleftrightarrow> new_to_old mv ! j = int i" using move_okD [OF ok i] sec by simp
    then show ?thesis using True o2n [OF i] n2o [OF j] by auto
  next
    case False
    then have "old_to_new mv ! i = int (j + 1) \<longleftrightarrow> new_to_old mv ! (j + 1) = int i" using j by (intro move_okD ok i) simp
    then show ?thesis using False o2n [OF i] n2o [OF j] by auto
  qed
  have "- 1 \<le> old_to_new mv' ! i \<and> old_to_new mv' ! i < int (new_shnum mv')" if "i < old_shnum mv" for i
    using ok that o2n [OF that] sec by (fastforce simp: move_ok_def mv')
  moreover have "- 1 \<le> new_to_old mv' ! j \<and> new_to_old mv' ! j < int (old_shnum mv')" if "j < new_shnum mv - 1" for j
    using ok that n2o [OF that] sec by (auto simp: move_ok_def mv')
  moreover have "old_to_new mv' ! 0 = 0" using o2n [of 0] ok assms(2) by (simp add: move_ok_def)
  moreover have "0 < new_shnum mv'" using sec assms(2) by (simp add: mv')
  ultimately show ?thesis using inv ok sec unfolding move_ok_def by (simp add: mv')
qed

lemma moves_ok: "moves mv mv' \<Longrightarrow> move_ok mv \<Longrightarrow> move_ok mv'"
  by (induction rule: moves.induct) (auto intro: add_move_ok remove_move_ok)

text \<open>C32: whatever sections are added to and removed from a table, in any order, the two maps between old and new
  section numbers are inverse to each other: an old section has a new number exactly when that new section has the old
  one, and all other entries are -1.\<close>

theorem section_moves_inverse:
  assumes "0 < e_shnum (ehdr d)" and "moves (init_section_move d) mv" and "i < old_shnum mv" and "j < new_shnum mv"
  shows "(old_to_new mv ! i = int j \<longleftrightarrow> new_to_old mv ! j = int i)
    \<and> (old_to_new mv ! i = - 1 \<or> 0 \<le> old_to_new mv ! i \<and> old_to_new mv ! i < int (new_shnum mv))
    \<and> (new_to_old mv ! j = - 1 \<or> 0 \<le> new_to_old mv ! j \<and> new_to_old mv ! j < int (old_shnum mv))"
  using moves_ok [OF assms(2) init_move_ok [OF assms(1)]] assms(3,4) by (force simp: move_ok_def)

theorem section_moves_inverse_witness:
  "\<exists>mv mv'. remove_section (init_section_move sample_dso) 1 = Some mv \<and> add_section mv 2 = Some mv'
     \<and> old_to_new mv' ! 3 = 3 \<and> (old_to_new mv' ! 3 = int 3 \<longleftrightarrow> new_to_old mv' ! 3 = int 3)"
proof -
  obtain mv where mv: "remove_section (init_section_move sample_dso) 1 = Some mv"
    by (simp add: remove_section_def init_section_move_def Let_def)
  obtain mv' where mv': "add_section mv 2 = Some mv'"
    using mv by (auto simp: remove_section_def add_section_def init_section_move_def Let_def)
  have v: "old_to_new mv' ! 3 = 3" "3 < old_shnum mv'" "3 < new_shnum mv'"
    using mv mv' by (auto simp: remove_section_def add_section_def init_section_move_def Let_def sample_upt bind_eq_Some)
  have "moves (init_section_move sample_dso) mv'"
    using moves_add [OF moves_remove [OF moves_refl _ mv] _ mv'] by simp
  then show ?thesis using section_moves_inverse [of sample_dso mv' 3 3] mv mv' v by auto
qed


section \<open>Names that were added are found\<close>

lemma find_suffix_sound:
  assumes "find_suffix name buf p = Some (Some off)" and "0 \<notin> set name"
  shows "off + length name < length buf \<and> take (length name + 1) (drop off buf) = name @ [0]"
  using assms
proof (induction name buf p rule: find_suffix.induct)
  case (1 name buf p)
  define r where "r = p + length (takeWhile (\<lambda>b. b \<noteq> 0) (drop p buf))"
  have p: "p < length buf" "r < length buf" using "1.prems"(1) by (auto simp: find_suffix.simps [of name buf p] r_def Let_def split: if_splits)
  have z: "buf ! r = 0"
  proof -
    have "r - p < length (drop p buf)" using p by (simp add: r_def)
    then have "\<not> drop p buf ! length (takeWhile (\<lambda>b. b \<noteq> 0) (drop p buf)) \<noteq> 0"
      by (intro nth_length_takeWhile) (simp add: r_def)
    then show ?thesis using p by (simp add: r_def)
  qed
  show ?case
  proof (cases "r - p \<ge> length name \<and> take (length name) (drop (r - length name) buf) = name")
    case True
    then have off: "off = r - length name"
      using "1.prems"(1) p by (simp add: find_suffix.simps [of name buf p] r_def Let_def)
    have "length name \<le> r" using conjunct1 [OF True] by linarith
    then have "take (length name + 1) (drop off buf) = take (length name) (drop off buf) @ [buf ! r]"
      using p off by (simp add: take_Suc_conv_app_nth)
    then show ?thesis using True off z p le_add_diff_inverse2 [OF \<open>length name \<le> r\<close>] by simp
  next
    case False
    then have "find_suffix name buf (r + 1) = Some (Some off)"
      using "1.prems"(1) p by (auto simp: find_suffix.simps [of name buf p] r_def Let_def split: if_splits)
    then show ?thesis using "1.IH" [OF p(1) r_def] p False "1.prems"(2) by blast
  qed
qed

lemma find_suffix_total:
  assumes "buf \<noteq> []" and "last buf = 0"
  shows "\<exists>r. find_suffix name buf p = Some r"
  using assms
proof (induction name buf p rule: find_suffix.induct)
  case (1 name buf p)
  define r where "r = p + length (takeWhile (\<lambda>b. b \<noteq> 0) (drop p buf))"
  show ?case
  proof (cases "p < length buf")
    case True
    then have "last (drop p buf) \<in> set (drop p buf)" by (intro last_in_set) simp
    then have "0 \<in> set (drop p buf)" using True "1.prems" by (simp add: last_drop)
    then have "length (takeWhile (\<lambda>b. b \<noteq> 0) (drop p buf)) < length (drop p buf)" unfolding takeWhile_short by auto
    then have "r < length buf" by (simp add: r_def)
    then show ?thesis
      using "1.IH" [OF True r_def] "1.prems" True by (auto simp: find_suffix.simps [of name buf p] r_def Let_def)
  next
    case False
    then show ?thesis by (simp add: find_suffix.simps [of name buf p])
  qed
qed

lemma shift_sizes:
  "map sh_size (fold (\<lambda>i shs. if moved_sec first start i (shs ! i)
       then shs[i := (shs ! i)\<lparr>sh_offset := sh_offset (shs ! i) + c\<rparr>] else shs) secs shs) = map sh_size shs"
  by (induction secs arbitrary: shs) (simp_all add: map_list_update_same)

lemma adjust_nonalloc_sizes:
  assumes "adjust_dso_nonalloc d first start adj = Some (rc, d')"
  shows "rc = 0 \<and> scn d' = scn d \<and> map sh_size (shdr d') = map sh_size (shdr d)
    \<and> e_shstrndx (ehdr d') = e_shstrndx (ehdr d)"
  using assms by (auto simp: adjust_dso_nonalloc_def adjust_nonalloc_def Let_def shift_sizes split: if_splits)

lemma adjust_nonalloc_total:
  "unat (e_shnum (ehdr d)) \<le> length (shdr d) \<Longrightarrow> \<exists>d'. adjust_dso_nonalloc d first start adj = Some (0, d')"
  by (cases "adjust_nonalloc d (ehdr d) (shdr d) first start adj") (simp add: adjust_dso_nonalloc_def)

lemma strptr_block:
  assumes "n < length (scn d)" and "n < length (shdr d)" and "scn_data (scn d ! n) = [b]" and "d_off b = 0"
    and "d_buf b = Some buf" and "d_size b = sh_size (shdr d ! n)" and "off < unat (d_size b)"
  shows "strptr d n (int off) = Some (Some (drop off buf))"
proof -
  have "int off < uint (d_size b)" using assms(7) by (simp only: zless_nat_eq_int_zless flip: nat_uint_eq)
  then show ?thesis using assms by (simp add: strptr_def)
qed

text \<open>C33: the offset that \<^verbatim>\<open>shstrtabadd\<close> returns is the offset of the name in the section name table, whether the
  name, possibly as the end of a longer one, was there already or has been appended.\<close>

theorem shstrtabadd_finds:
  assumes tab: "strtab_buf d (unat (e_shstrndx (ehdr d))) = Some (b, buf)" and len: "length buf = unat (d_size b)"
    and ended: "buf \<noteq> []" "last buf = 0" and shnum: "unat (e_shnum (ehdr d)) \<le> length (shdr d)"
    and bound: "length buf + length name + 1 < 2 ^ 31" and name: "0 \<notin> set name"
  shows "\<exists>off d' s. shstrtabadd d name = Some (off, d')
    \<and> strptr d' (unat (e_shstrndx (ehdr d'))) (int off) = Some (Some s) \<and> take (length name + 1) s = name @ [0]"
proof -
  let ?n = "unat (e_shstrndx (ehdr d))"
  have n: "?n < length (shdr d)" "?n < length (scn d)" "scn_data (scn d ! ?n) = [b]" "d_off b = 0" "d_buf b = Some buf"
    "d_size b = sh_size (shdr d ! ?n)"
    using tab by (auto simp: strtab_buf_def bind_eq_Some nth_opt_eq_Some block_at_def length_Suc_conv)
  obtain r where r: "find_suffix name buf 0 = Some r" using find_suffix_total [OF ended] by blast
  show ?thesis
  proof (cases r)
    case (Some off)
    have "off + length name < length buf \<and> take (length name + 1) (drop off buf) = name @ [0]"
      using r Some name by (intro find_suffix_sound) simp_all
    then show ?thesis using tab r Some n len strptr_block [of ?n d b buf off] by (simp add: shstrtabadd_def Let_def)
  next
    case None
    let ?l = "of_nat (length name + 1) :: u64"
    let ?b = "b\<lparr>d_buf := Some (buf @ name @ [0]), d_size := d_size b + ?l\<rparr>"
    let ?d1 = "set_block d ?n 0 ?b"
    have "unat (e_shnum (ehdr ?d1)) \<le> length (shdr ?d1)" using shnum by (simp add: set_block_def)
    then obtain d2 where d2: "adjust_dso_nonalloc ?d1 0 (sh_offset (shdr ?d1 ! ?n) + sh_size (shdr ?d1 ! ?n))
        (align_up ?l (gelf_fsize_addr ?d1)) = Some (0, d2)"
      using adjust_nonalloc_total by blast
    have z: "scn d2 = scn ?d1" "map sh_size (shdr d2) = map sh_size (shdr d)" "e_shstrndx (ehdr d2) = e_shstrndx (ehdr d)"
      using adjust_nonalloc_sizes [OF d2] by (simp_all add: set_block_def)
    have z3: "length (shdr d2) = length (shdr d)" using z(2) by (metis length_map)
    let ?d3 = "d2\<lparr>shdr := (shdr d2)[?n := (shdr d2 ! ?n)\<lparr>sh_size := sh_size (shdr d2 ! ?n) + ?l\<rparr>]\<rparr>"
    have add: "shstrtabadd d name = Some (length buf, ?d3)"
      using tab r None d2 len by (simp add: shstrtabadd_def Let_def del: of_nat_add of_nat_Suc)
    have "unat ?l = length name + 1" using bound by (simp add: unsigned_of_nat take_bit_nat_eq_self del: of_nat_add of_nat_Suc)
    then have size: "unat (d_size b + ?l) = length buf + length name + 1"
      using bound len by (subst unat_add_nowrap) simp_all
    have "sh_size (shdr d2 ! ?n) = sh_size (shdr d ! ?n)"
      using z(2) z3 n(1) by (metis nth_map)
    then have "strptr ?d3 ?n (int (length buf)) = Some (Some (drop (length buf) (buf @ name @ [0])))"
      using n z z3 size by (intro strptr_block [where b = ?b]) (simp_all add: set_block_def)
    then show ?thesis using add z(3) by auto
  qed
qed

theorem shstrtabadd_finds_witness:
  "\<exists>off d' s. shstrtabadd sample_dso (sample_bytes ''.gnu.liblist'') = Some (off, d')
    \<and> strptr d' (unat (e_shstrndx (ehdr d'))) (int off) = Some (Some s) \<and> take 13 s = sample_bytes ''.gnu.liblist'' @ [0]"
proof -
  have "strtab_buf sample_dso (unat (e_shstrndx (ehdr sample_dso)))
      = Some (\<lparr>d_type = ELF_T_BYTE, d_off = 0, d_size = 24, d_buf = Some sample_shstrtab\<rparr>, sample_shstrtab)"
    by (simp add: strtab_buf_def block_at_def nth_opt_def sample_defs)
  moreover have "unat (e_shnum (ehdr sample_dso)) \<le> length (shdr sample_dso)" by (simp add: sample_defs)
  moreover have "length sample_shstrtab = 24" "sample_shstrtab \<noteq> []" "last sample_shstrtab = 0"
    "length (sample_bytes ''.gnu.liblist'') = 12" "0 \<notin> set (sample_bytes ''.gnu.liblist'')"
    by (simp_all add: sample_shstrtab_def sample_bytes_def)
  ultimately show ?thesis
    using shstrtabadd_finds [of sample_dso "\<lparr>d_type = ELF_T_BYTE, d_off = 0, d_size = 24, d_buf = Some sample_shstrtab\<rparr>"
        sample_shstrtab "sample_bytes ''.gnu.liblist''"] by simp
qed


section \<open>Removing the tags of prelink\<close>

text \<open>A list without its last elements that have the property.\<close>

definition strip :: "('a \<Rightarrow> bool) \<Rightarrow> 'a list \<Rightarrow> 'a list" where
  "strip P xs = rev (dropWhile P (rev xs))"

lemma strip_snoc [simp]: "strip P [] = []" "strip P (xs @ [x]) = (if P x then strip P xs else xs @ [x])"
  by (simp_all add: strip_def)

lemma strip_length: "length (strip P xs) \<le> length xs"
  using length_dropWhile_le [of P "rev xs"] by (simp add: strip_def)

definition removable :: "u64 \<Rightarrow> bool" where
  "removable t \<longleftrightarrow> t = DT_NULL \<or> t \<in> set prelink_tags"

lemma remove_tags_strip:
  assumes "dyn_ok d" and "k \<le> dyn_max d" and "ts = map d_tag (dyn_slots d)"
  shows "\<exists>d'. remove_tags (dynamic d) k d = Some d' \<and> dyn_ok d' \<and> dyn_frame d d'
    \<and> map d_tag (dyn_slots d') = strip removable (take k ts) @ replicate (k - length (strip removable (take k ts))) DT_NULL @ drop k ts"
  using assms
proof (induction k arbitrary: d ts)
  case (Suc k)
  let ?e = "dyn_slots d ! k" and ?n = "dynamic d"
  have len: "length ts = dyn_max d" using Suc.prems by (simp add: dyn_slots_def)
  have get: "dso_getdyn d ?n 0 k = Some ?e" using getdyn_slot Suc.prems by simp
  have tk: "take (Suc k) ts = take k ts @ [d_tag ?e]" "drop k ts = d_tag ?e # drop (Suc k) ts"
    using Suc.prems len by (simp_all add: take_Suc_conv_app_nth Cons_nth_drop_Suc [symmetric] dyn_slots_def)
  have l: "length (strip removable (take k ts)) \<le> k"
    using strip_length [of removable "take k ts"] by simp
  have rep: "replicate (k - length (strip removable (take k ts))) DT_NULL @ DT_NULL # xs
      = replicate (Suc k - length (strip removable (take k ts))) DT_NULL @ xs" for xs
    using l by (simp add: Suc_diff_le replicate_app_Cons_same)
  consider "d_tag ?e = DT_NULL" | "d_tag ?e \<noteq> DT_NULL" "d_tag ?e \<in> set prelink_tags" | "\<not> removable (d_tag ?e)"
    by (auto simp: removable_def)
  then show ?case
  proof cases
    case 1
    then have "removable (d_tag ?e)" by (simp add: removable_def)
    then show ?thesis using Suc.IH [OF Suc.prems(1) _ Suc.prems(3)] Suc.prems(2) get 1 by (simp add: tk rep)
  next
    case 2
    obtain d1 where d1: "dso_update_dyn d ?n 0 k \<lparr>d_tag = DT_NULL, d_ptr = 0\<rparr> = Some d1" "dyn_ok d1" "dyn_frame d d1"
      "dyn_slots d1 = (dyn_slots d)[k := \<lparr>d_tag = DT_NULL, d_ptr = 0\<rparr>]"
      using update_dyn_slot [OF Suc.prems(1), of k "\<lparr>d_tag = DT_NULL, d_ptr = 0\<rparr>"] Suc.prems(2)
      by (auto simp: narrow_dyn_def DT_NULL_def split: if_splits)
    have dn: "dynamic d1 = ?n" using dyn_frame_fields(3) [OF d1(3)] .
    let ?d2 = "elf_flagscn_dirty d1 ?n"
    have d2: "dyn_ok ?d2" "dyn_frame d1 ?d2" "dyn_slots ?d2 = dyn_slots d1" "dynamic ?d2 = ?n"
      using flag_dyn [OF d1(2), of "info_set_mask d1"] dn dyn_frame_fields(3) [OF d1(3)]
      by (simp_all add: elf_flagscn_dirty_def)
    have "length (dyn_slots ?d2) = length (dyn_slots d)" using d1(4) d2(3) by simp
    then have kle: "k \<le> dyn_max ?d2" using Suc.prems(2) by (simp add: dyn_slots_def)
    have teq: "ts[k := DT_NULL] = map d_tag (dyn_slots ?d2)" using Suc.prems(3) d1(4) d2(3) by (simp add: map_update)
    obtain d' where d': "remove_tags ?n k ?d2 = Some d'" "dyn_ok d'" "dyn_frame ?d2 d'"
      "map d_tag (dyn_slots d') = strip removable (take k ts) @ replicate (k - length (strip removable (take k ts))) DT_NULL
         @ drop k (ts[k := DT_NULL])"
      using Suc.IH [OF d2(1) kle teq] unfolding d2(4) take_update_cancel [OF order_refl] by blast
    have "drop k (ts[k := DT_NULL]) = DT_NULL # drop (Suc k) ts"
      using Suc.prems(2) len by (simp add: Cons_nth_drop_Suc [symmetric])
    moreover have "dyn_frame d d'" using dyn_frame_trans [OF d1(3) dyn_frame_trans [OF d2(2) d'(3)]] .
    moreover have "removable (d_tag ?e)" using 2 by (simp add: removable_def)
    ultimately show ?thesis using get 2 d1(1) d' by (simp add: tk(1) rep)
  next
    case 3
    then have "strip removable (take (Suc k) ts) = take (Suc k) ts" by (simp add: tk(1))
    moreover have "length (take (Suc k) ts) = Suc k" using Suc.prems(2) len by simp
    moreover have "d_tag ?e \<noteq> DT_NULL" "d_tag ?e \<notin> set prelink_tags" using 3 by (simp_all add: removable_def)
    ultimately show ?thesis using get Suc.prems(1,3) by simp
  qed
qed (auto simp: dyn_slots_def)


definition sample_tags_dso :: dso where
  "sample_tags_dso = sample_dyn_dso\<lparr>scn := (scn sample_dyn_dso)[3 := \<lparr>scn_data =
     [sample_dyn_block\<lparr>d_buf := Some (le64_bytes 3 @ le64_bytes 0x1000 @ le64_bytes DT_CHECKSUM @ le64_bytes 0x1234 @ replicate 16 0)\<rparr>],
     scn_dirty = False\<rparr>]\<rparr>"

lemma sample_tags_ok: "dyn_ok sample_tags_dso" "map d_tag (dyn_slots sample_tags_dso) = [3, DT_CHECKSUM, 0]"
proof -
  have "[0..<3] = [0, 1, 2 :: nat]" by code_simp
  moreover have m: "dyn_max sample_tags_dso = 3"
    by (simp add: dyn_max_def dyn_entsize_def dyn_block_def sample_tags_dso_def sample_dyn_dso_def sample_dyn_block_def sample_defs elf_consts)
  ultimately show "map d_tag (dyn_slots sample_tags_dso) = [3, DT_CHECKSUM, 0]"
    unfolding dyn_slots_def m
    by (simp add: dso_getdyn_def block_at_def nth_opt_def sample_tags_dso_def sample_dyn_dso_def sample_defs sample_dyn_block_def
        gelfx_getdyn_def elf_consts peek_def host_ld64_def buf_read_defs le64_bytes_def dt_defs)
  show "dyn_ok sample_tags_dso"
    by (simp add: dyn_ok_def dyn_entsize_def dyn_block_def wf_block_def sample_tags_dso_def sample_dyn_dso_def sample_dyn_block_def
        sample_defs elf_consts)
qed


end
