(* ===== verification/Reloc.thy ===== *)
theory Reloc
  imports Dynamic
begin

text \<open>
  \<^verbatim>\<open>src/reloc.c\<close>: finding the dynamic relocation sections of an object (\<^verbatim>\<open>find_reloc_sections\<close>), converting a section
  between relocations without and with addend (\<^verbatim>\<open>convert_rel_to_rela\<close>, \<^verbatim>\<open>convert_rela_to_rel\<close>), and bringing the
  dynamic section up to date with the result (\<^verbatim>\<open>update_dynamic_rel\<close>).

  The contents of memory from \<^verbatim>\<open>malloc\<close> are the argument \<open>fresh\<close>, the uninitialised relocation variable of the
  conversions is the argument \<open>y\<close>.

  A failed assertion is \<^term>\<open>None\<close>; the assertion on \<^verbatim>\<open>DT_PLTREL\<close> in \<^verbatim>\<open>update_dynamic_rel\<close> tests a non-zero constant
  and always holds.
\<close>

section \<open>Finding the relocation sections\<close>

record reloc_info =
  ri_first :: int
  ri_last :: int
  ri_plt :: int
  ri_overlap :: bool
  ri_reldyn_rela :: bool
  ri_plt_rela :: bool
  ri_rel_to_rela :: bool
  ri_rel_to_rela_plt :: bool
  ri_relcount :: int

definition reloc_info_0 :: reloc_info where
  "reloc_info_0 = \<lparr>ri_first = 0, ri_last = 0, ri_plt = 0, ri_overlap = False, ri_reldyn_rela = False, ri_plt_rela = False,
     ri_rel_to_rela = False, ri_rel_to_rela_plt = False, ri_relcount = 0\<rparr>"

definition DT_PLTRELSZ :: nat where "DT_PLTRELSZ = 2"
definition DT_RELA :: nat where "DT_RELA = 7"
definition DT_RELASZ :: nat where "DT_RELASZ = 8"
definition DT_RELAENT :: nat where "DT_RELAENT = 9"
definition DT_REL :: nat where "DT_REL = 17"
definition DT_RELSZ :: nat where "DT_RELSZ = 18"
definition DT_RELENT :: nat where "DT_RELENT = 19"
definition DT_PLTREL :: nat where "DT_PLTREL = 20"
definition DT_JMPREL :: nat where "DT_JMPREL = 23"
definition DT_RELCOUNT :: u64 where "DT_RELCOUNT = 0x6ffffffa"
definition DT_RELACOUNT :: u64 where "DT_RELACOUNT = 0x6ffffff9"

lemmas dt_rel_defs = DT_PLTRELSZ_def DT_RELA_def DT_RELASZ_def DT_RELAENT_def DT_REL_def DT_RELSZ_def DT_RELENT_def
  DT_PLTREL_def DT_JMPREL_def DT_RELCOUNT_def DT_RELACOUNT_def

text \<open>The section of the relocations for the PLT: the result code, the section, and the object.\<close>

definition plt_section :: "dso \<Rightarrow> u64 \<Rightarrow> u64 \<Rightarrow> (nat option \<times> dso) option" where
  "plt_section d pltstart pltend = do {
     (first, d) \<leftarrow> addr_to_sec d pltstart;
     (last_sec, d) \<leftarrow> addr_to_sec d (pltend - 1);
     case (first, last_sec) of
       (Some f, Some l) \<Rightarrow>
         (if f \<noteq> l then Some (None, d)
          else do {
            sh \<leftarrow> nth_opt (shdr d) f;
            if sh_addr sh \<noteq> pltstart \<or> sh_addr sh + sh_size sh \<noteq> pltend
               \<or> info d DT_PLTREL \<noteq> of_nat DT_REL \<and> info d DT_PLTREL \<noteq> of_nat DT_RELA
               \<or> sh_type sh \<noteq> (if info d DT_PLTREL = of_nat DT_RELA then SHT_RELA else SHT_REL)
            then Some (None, d)
            else do {
              nm \<leftarrow> sec_name_is d f (if info d DT_PLTREL = of_nat DT_RELA then ''.rela.plt'' else ''.rel.plt'');
              Some (if nm then Some f else None, d)
            }
          })
     | _ \<Rightarrow> Some (None, d)
   }"

text \<open>The sections of the other relocations; \<^term>\<open>None\<close> inside for an error.\<close>

definition dyn_sections :: "dso \<Rightarrow> bool \<Rightarrow> u64 \<Rightarrow> u64 \<Rightarrow> ((int \<times> int) option \<times> dso) option" where
  "dyn_sections d rela start stop =
     (if start = stop then Some (Some (0, 0), d)
      else do {
        (first, d) \<leftarrow> addr_to_sec d start;
        (last_sec, d) \<leftarrow> addr_to_sec d (stop - 1);
        case (first, last_sec) of
          (Some f, Some l) \<Rightarrow> do {
            shf \<leftarrow> nth_opt (shdr d) f;
            shl \<leftarrow> nth_opt (shdr d) l;
            if sh_addr shf \<noteq> start \<or> sh_addr shl + sh_size shl \<noteq> stop then Some (None, d)
            else if list_all (\<lambda>i. sh_type (shdr d ! i) = (if rela then SHT_RELA else SHT_REL)) [f..<Suc l]
            then Some (Some (int f, int l), d) else Some (None, d)
          }
        | _ \<Rightarrow> Some (None, d)
      })"

text \<open>The part for the PLT.\<close>

definition find_plt :: "pl_arch \<Rightarrow> u64 \<Rightarrow> u64 \<Rightarrow> reloc_info \<Rightarrow> dso \<Rightarrow> (int \<times> reloc_info \<times> dso) option" where
  "find_plt A pltstart pltend ri d = do {
     (plt, d) \<leftarrow> plt_section d pltstart pltend;
     case plt of
       None \<Rightarrow> Some (1, ri, d)
     | Some f \<Rightarrow> do {
         sh \<leftarrow> nth_opt (shdr d) f;
         let ri = ri\<lparr>ri_plt := int f, ri_plt_rela := (sh_type sh = SHT_RELA)\<rparr>;
         if sh_type sh = SHT_REL then do {
           (need, d) \<leftarrow> need_rel_to_rela A d f f;
           Some (0, if need \<noteq> 0 then ri\<lparr>ri_rel_to_rela_plt := True\<rparr> else ri, d)
         } else Some (0, ri, d)
       }
   }"

text \<open>The part for the others.\<close>

definition find_rel :: "pl_arch \<Rightarrow> u64 \<Rightarrow> u64 \<Rightarrow> u64 \<Rightarrow> u64 \<Rightarrow> reloc_info \<Rightarrow> dso \<Rightarrow> (int \<times> reloc_info \<times> dso) option" where
  "find_rel A start stop pltstart pltend ri d =
     (if start = 0 \<and> stop = 0 then Some (0, ri, d)
      else do {
        (secs, d) \<leftarrow> dyn_sections d (ri_reldyn_rela ri) start stop;
        case secs of
          None \<Rightarrow> Some (1, ri, d)
        | Some (first, last_sec) \<Rightarrow>
            (if pltstart \<noteq> stop \<and> pltend \<noteq> stop \<and> last_sec + 1 \<noteq> ri_plt ri then Some (1, ri, d)
             else if pltstart = start \<and> pltend = stop then Some (0, ri\<lparr>ri_overlap := True\<rparr>, d)
             else
               (let over = (pltstart \<noteq> stop \<and> pltend = stop);
                    last_sec = (if over then last_sec - 1 else last_sec);
                    ri = ri\<lparr>ri_overlap := over, ri_first := first, ri_last := last_sec\<rparr> in
                if \<not> ri_reldyn_rela ri \<and> first \<noteq> 0 then do {
                  (need, d) \<leftarrow> need_rel_to_rela A d (nat first) (nat last_sec);
                  Some (0, if need \<noteq> 0 then ri\<lparr>ri_rel_to_rela := True\<rparr> else ri, d)
                } else Some (0, ri, d)))
      })"

definition find_reloc_sections :: "pl_arch \<Rightarrow> dso \<Rightarrow> (int \<times> reloc_info \<times> dso) option" where
  "find_reloc_sections A d =
     (if dynamic_info_is_set d DT_REL \<and> dynamic_info_is_set d DT_RELA then Some (1, reloc_info_0, d)
      else
        (let rela = dynamic_info_is_set d DT_RELA;
             start = info d (if rela then DT_RELA else DT_REL);
             stop = start + info d (if rela then DT_RELASZ else DT_RELSZ);
             ri = reloc_info_0\<lparr>ri_reldyn_rela := rela\<rparr>;
             jmprel = info d DT_JMPREL;
             pltend = jmprel + info d DT_PLTRELSZ in
         if jmprel \<noteq> 0 then do {
           (rc, ri, d) \<leftarrow> find_plt A jmprel pltend ri d;
           if rc \<noteq> 0 then Some (1, ri, d)
           else find_rel A start stop jmprel pltend ri d
         }
         else find_rel A start stop stop stop ri d))"

section \<open>Converting a section\<close>

text \<open>The common loop: read entry \<open>ndx\<close> of the old table, convert it, store it in the new table \<open>d1\<close>.\<close>

fun convert_entries ::
  "(dso \<Rightarrow> nat \<Rightarrow> 'a option option) \<Rightarrow> (dso \<Rightarrow> 'a \<Rightarrow> 'b \<Rightarrow> (int \<times> 'b \<times> dso) option)
   \<Rightarrow> (elf_data \<Rightarrow> nat \<Rightarrow> 'b \<Rightarrow> (int \<times> elf_data) option)
   \<Rightarrow> nat \<Rightarrow> nat \<Rightarrow> 'b \<Rightarrow> elf_data \<Rightarrow> dso \<Rightarrow> (int \<times> elf_data \<times> dso) option" where
  "convert_entries src conv upd ndx 0 y d1 d = Some (0, d1, d)"
| "convert_entries src conv upd ndx (Suc n) y d1 d = do {
     r \<leftarrow> src d ndx;
     case r of
       None \<Rightarrow> Some (1, d1, d)
     | Some x \<Rightarrow> do {
         (rc, y, d) \<leftarrow> conv d x y;
         if rc \<noteq> 0 then Some (1, d1, d)
         else do {
           (rc, d1) \<leftarrow> upd d1 ndx y;
           if rc = 0 then Some (1, d1, d)
           else convert_entries src conv upd (Suc ndx) n y d1 d
         }
       }
   }"

definition sec_rel :: "nat \<Rightarrow> dso \<Rightarrow> nat \<Rightarrow> elf_rel option option" where
  "sec_rel i d ndx = do { b \<leftarrow> block_at d i 0; gelfx_getrel (ei_class (ehdr d)) (host_lsb d) b ndx }"

definition sec_rela :: "nat \<Rightarrow> dso \<Rightarrow> nat \<Rightarrow> elf_rela option option" where
  "sec_rela i d ndx = do { b \<leftarrow> block_at d i 0; gelfx_getrela (ei_class (ehdr d)) (host_lsb d) b ndx }"

text \<open>The one block of the section, with the assertions on it.\<close>

definition whole_block :: "dso \<Rightarrow> nat \<Rightarrow> (elf_shdr \<times> elf_data) option" where
  "whole_block d i = do {
     sh \<leftarrow> nth_opt (shdr d) i;
     sc \<leftarrow> nth_opt (scn d) i;
     _ \<leftarrow> guard_opt (length (scn_data sc) = 1);
     b \<leftarrow> block_at d i 0;
     _ \<leftarrow> guard_opt (d_off b = 0 \<and> d_size b = sh_size sh);
     Some (sh, b)
   }"

definition convert_rel_to_rela ::
  "(nat \<Rightarrow> u8) \<Rightarrow> elf_rela \<Rightarrow> pl_arch \<Rightarrow> dso \<Rightarrow> nat \<Rightarrow> (int \<times> dso) option" where
  "convert_rel_to_rela fresh y A d i = do {
     (sh, b) \<leftarrow> whole_block d i;
     let sz = d_size b div 2 * 3;
     m \<leftarrow> max_ndx b sh;
     (rc, d1, d) \<leftarrow> convert_entries (sec_rel i) (rel_to_rela A)
       (gelfx_update_rela (ei_class (ehdr d)) (host_lsb d)) 0 m y
       (b\<lparr>d_size := sz, d_buf := Some (map fresh [0..<unat sz]), d_type := ELF_T_RELA\<rparr>) d;
     if rc \<noteq> 0 then Some (1, d)
     else (let d = set_block d i 0 d1 in
       Some (0, d\<lparr>shdr := (shdr d)[i := (shdr d ! i)\<lparr>sh_entsize := (if ei_class (ehdr d) = ELFCLASS32 then 12 else 24),
                                               sh_type := SHT_RELA\<rparr>]\<rparr>))
   }"

definition convert_rela_to_rel ::
  "(nat \<Rightarrow> u8) \<Rightarrow> elf_rel \<Rightarrow> pl_arch \<Rightarrow> dso \<Rightarrow> nat \<Rightarrow> (int \<times> dso) option" where
  "convert_rela_to_rel fresh y A d i = do {
     (sh, b) \<leftarrow> whole_block d i;
     let sz = d_size b div 3 * 2;
     m \<leftarrow> max_ndx b sh;
     conv \<leftarrow> rela_to_rel A;
     (rc, d1, d) \<leftarrow> convert_entries (sec_rela i) conv
       (gelfx_update_rel (ei_class (ehdr d)) (host_lsb d)) 0 m y
       (b\<lparr>d_size := sz, d_buf := Some (map fresh [0..<unat sz]), d_type := ELF_T_REL\<rparr>) d;
     if rc \<noteq> 0 then Some (1, d)
     else (let d = set_block d i 0 d1 in
       Some (0, d\<lparr>shdr := (shdr d)[i := (shdr d ! i)\<lparr>sh_entsize := (if ei_class (ehdr d) = ELFCLASS32 then 8 else 16),
                                               sh_type := SHT_REL\<rparr>]\<rparr>))
   }"


section \<open>Bringing the dynamic section up to date\<close>

text \<open>The array \<^verbatim>\<open>dynamic\<close>: the entries in front of the first \<^verbatim>\<open>DT_NULL\<close>, and whether there was one.\<close>

fun load_dyn_entries :: "nat \<Rightarrow> nat \<Rightarrow> nat \<Rightarrow> nat \<Rightarrow> dso \<Rightarrow> (bool \<times> elf_dyn list) option" where
  "load_dyn_entries i k ndx 0 d = Some (False, [])"
| "load_dyn_entries i k ndx (Suc n) d = do {
     dyn \<leftarrow> dso_getdyn d i k ndx;
     if d_tag dyn = DT_NULL then Some (True, [])
     else do {
       (stop, es) \<leftarrow> load_dyn_entries i k (Suc ndx) n d;
       Some (stop, dyn # es)
     }
   }"

fun load_dyn_blocks :: "nat \<Rightarrow> elf_shdr \<Rightarrow> nat \<Rightarrow> nat \<Rightarrow> dso \<Rightarrow> (bool \<times> elf_dyn list) option" where
  "load_dyn_blocks i sh k 0 d = Some (False, [])"
| "load_dyn_blocks i sh k (Suc n) d = do {
     b \<leftarrow> block_at d i k;
     m \<leftarrow> max_ndx b sh;
     (stop, es) \<leftarrow> load_dyn_entries i k 0 m d;
     if stop then Some (True, es)
     else do {
       (stop, fs) \<leftarrow> load_dyn_blocks i sh (Suc k) n d;
       Some (stop, es @ fs)
     }
   }"

text \<open>The first dynamic section; the array has \<^verbatim>\<open>sh_size / sh_entsize\<close> elements.\<close>

fun find_dynsec :: "elf_shdr list \<Rightarrow> nat \<Rightarrow> nat \<Rightarrow> nat option option" where
  "find_dynsec shs i 0 = Some None"
| "find_dynsec shs i (Suc n) = do {
     sh \<leftarrow> nth_opt shs i;
     if sh_type sh = SHT_DYNAMIC then Some (Some i) else find_dynsec shs (Suc i) n
   }"

definition load_dynamic :: "dso \<Rightarrow> nat \<Rightarrow> elf_dyn list option" where
  "load_dynamic d i = do {
     sh \<leftarrow> nth_opt (shdr d) i;
     sc \<leftarrow> nth_opt (scn d) i;
     _ \<leftarrow> guard_opt (sh_entsize sh \<noteq> 0);
     (stop, es) \<leftarrow> load_dyn_blocks i sh 0 (length (scn_data sc)) d;
     _ \<leftarrow> guard_opt (length es + (if stop then 1 else 0) \<le> unat (sh_size sh div sh_entsize sh));
     Some es
   }"

text \<open>The pointers \<^verbatim>\<open>info[tag]\<close>, \<^verbatim>\<open>info_DT_RELCOUNT\<close> and \<^verbatim>\<open>info_DT_RELACOUNT\<close>: the last entry with the tag. Writing through one that
  is null is undefined.\<close>

fun last_tag :: "elf_dyn list \<Rightarrow> u64 \<Rightarrow> nat option" where
  "last_tag [] t = None"
| "last_tag (e # es) t = (case last_tag es t of
     Some i \<Rightarrow> Some (Suc i) | None \<Rightarrow> if d_tag e = t then Some 0 else None)"

definition info_ptr :: "nat \<Rightarrow> elf_dyn list \<Rightarrow> u64 \<Rightarrow> nat option" where
  "info_ptr dt_num es t = (if t < of_nat dt_num \<or> t = DT_RELCOUNT \<or> t = DT_RELACOUNT then last_tag es t else None)"

definition put_val :: "nat option \<Rightarrow> u64 \<Rightarrow> elf_dyn list \<Rightarrow> elf_dyn list option" where
  "put_val p v es = map_option (\<lambda>i. es[i := (es ! i)\<lparr>d_ptr := v\<rparr>]) p"

definition put_tag :: "nat option \<Rightarrow> u64 \<Rightarrow> elf_dyn list \<Rightarrow> elf_dyn list option" where
  "put_tag p t es = map_option (\<lambda>i. es[i := (es ! i)\<lparr>d_tag := t\<rparr>]) p"

definition sec_hdr :: "dso \<Rightarrow> int \<Rightarrow> elf_shdr option" where
  "sec_hdr d x = (if x < 0 then None else nth_opt (shdr d) (nat x))"

definition rel_fsize :: "dso \<Rightarrow> bool \<Rightarrow> u64" where
  "rel_fsize d rela = (if ei_class (ehdr d) = ELFCLASS32 then if rela then 12 else 8 else if rela then 24 else 16)"

definition dt_REL :: "bool \<Rightarrow> nat" where "dt_REL rela = (if rela then DT_RELA else DT_REL)"
definition dt_RELSZ :: "bool \<Rightarrow> nat" where "dt_RELSZ rela = (if rela then DT_RELASZ else DT_RELSZ)"
definition dt_RELENT :: "bool \<Rightarrow> nat" where "dt_RELENT rela = (if rela then DT_RELAENT else DT_RELENT)"
definition dt_RELCOUNT :: "bool \<Rightarrow> u64" where "dt_RELCOUNT rela = (if rela then DT_RELACOUNT else DT_RELCOUNT)"

text \<open>The change of the tags when the sections changed their type from \<open>rela\<close> to its opposite.\<close>

definition retag :: "dso \<Rightarrow> bool \<Rightarrow> (u64 \<Rightarrow> nat option) \<Rightarrow> elf_dyn list \<Rightarrow> elf_dyn list option" where
  "retag d rela ptr es = do {
     es \<leftarrow> put_val (ptr (of_nat (dt_RELENT rela))) (rel_fsize d (\<not> rela)) es;
     es \<leftarrow> put_tag (ptr (of_nat (dt_REL rela))) (of_nat (dt_REL (\<not> rela))) es;
     es \<leftarrow> put_tag (ptr (of_nat (dt_RELSZ rela))) (of_nat (dt_RELSZ (\<not> rela))) es;
     es \<leftarrow> put_tag (ptr (of_nat (dt_RELENT rela))) (of_nat (dt_RELENT (\<not> rela))) es;
     case ptr (dt_RELCOUNT rela) of
       None \<Rightarrow> Some es
     | Some _ \<Rightarrow> put_tag (ptr (dt_RELCOUNT rela)) (dt_RELCOUNT (\<not> rela)) es
   }"

definition update_rel_entries :: "dso \<Rightarrow> reloc_info \<Rightarrow> bool \<Rightarrow> (u64 \<Rightarrow> nat option) \<Rightarrow> elf_dyn list \<Rightarrow> elf_dyn list option" where
  "update_rel_entries d ri overlap ptr es = (let rela = ri_reldyn_rela ri; rel = ri_first ri; plt = ri_plt ri in do {
     _ \<leftarrow> guard_opt (info d (dt_RELENT rela) = rel_fsize d rela);
     _ \<leftarrow> guard_opt (info d (dt_REL rela) \<noteq> 0);
     _ \<leftarrow> guard_opt (info d (dt_RELSZ rela) \<noteq> 0);
     sh \<leftarrow> sec_hdr d (if rel \<noteq> 0 then rel else plt);
     es \<leftarrow> put_val (ptr (of_nat (dt_REL rela))) (sh_addr sh) es;
     fin \<leftarrow> sec_hdr d (if plt \<noteq> 0 \<and> overlap then plt else ri_last ri);
     es \<leftarrow> put_val (ptr (of_nat (dt_RELSZ rela))) (sh_addr fin + sh_size fin) es;
     i \<leftarrow> ptr (of_nat (dt_REL rela));
     j \<leftarrow> ptr (of_nat (dt_RELSZ rela));
     es \<leftarrow> put_val (Some j) (d_ptr (es ! j) - d_ptr (es ! i)) es;
     if \<not> rela \<and> sh_type sh = SHT_RELA \<or> rela \<and> sh_type sh = SHT_REL then retag d rela ptr es else Some es
   })"

definition update_plt_entries :: "dso \<Rightarrow> reloc_info \<Rightarrow> bool \<Rightarrow> (u64 \<Rightarrow> nat option) \<Rightarrow> elf_dyn list \<Rightarrow> elf_dyn list option" where
  "update_plt_entries d ri overlap ptr es = do {
     _ \<leftarrow> guard_opt (info d DT_JMPREL \<noteq> 0);
     sh \<leftarrow> sec_hdr d (ri_plt ri);
     es \<leftarrow> put_val (ptr (of_nat DT_JMPREL)) (sh_addr sh) es;
     es \<leftarrow> (if \<not> ri_plt_rela ri \<and> sh_type sh = SHT_RELA \<or> ri_plt_rela ri \<and> sh_type sh = SHT_REL then do {
               es \<leftarrow> put_val (ptr (of_nat DT_PLTREL)) (of_nat (dt_REL (\<not> ri_plt_rela ri))) es;
               put_val (ptr (of_nat DT_PLTRELSZ)) (sh_size sh) es
             } else Some es);
     if ri_first ri = 0 \<and> \<not> overlap then
       (case ptr (of_nat (dt_REL (ri_reldyn_rela ri))) of
          None \<Rightarrow> Some es
        | Some i \<Rightarrow> if d_ptr (es ! i) \<noteq> 0 then do {
              j \<leftarrow> ptr (of_nat DT_JMPREL);
              put_val (Some i) (d_ptr (es ! j)) es
            } else Some es)
     else Some es
   }"

text \<open>Writing the array back: the entries with small tags and the two counts.\<close>

definition stored_tag :: "nat \<Rightarrow> u64 \<Rightarrow> bool" where
  "stored_tag dt_num t \<longleftrightarrow> t < of_nat dt_num \<or> t = DT_RELCOUNT \<or> t = DT_RELACOUNT"

text \<open>The entries of one block; the rest of the array, and whether the block was done to its end.\<close>

fun store_dyn_entries :: "nat \<Rightarrow> nat \<Rightarrow> nat \<Rightarrow> nat \<Rightarrow> nat \<Rightarrow> elf_dyn list \<Rightarrow> dso \<Rightarrow> (bool \<times> elf_dyn list \<times> dso) option" where
  "store_dyn_entries dt_num i k ndx 0 es d = Some (True, es, d)"
| "store_dyn_entries dt_num i k ndx (Suc n) [] d = Some (False, [], d)"
| "store_dyn_entries dt_num i k ndx (Suc n) (e # es) d = do {
     d \<leftarrow> (if stored_tag dt_num (d_tag e) then dso_update_dyn d i k ndx e else Some d);
     store_dyn_entries dt_num i k (Suc ndx) n es d
   }"

fun store_dyn_blocks :: "nat \<Rightarrow> nat \<Rightarrow> elf_shdr \<Rightarrow> nat \<Rightarrow> nat \<Rightarrow> elf_dyn list \<Rightarrow> dso \<Rightarrow> dso option" where
  "store_dyn_blocks dt_num i sh k 0 es d = Some d"
| "store_dyn_blocks dt_num i sh k (Suc n) es d = do {
     b \<leftarrow> block_at d i k;
     m \<leftarrow> max_ndx b sh;
     (all_done, es, d) \<leftarrow> store_dyn_entries dt_num i k 0 m es d;
     if all_done then store_dyn_blocks dt_num i sh (Suc k) n es d else Some d
   }"

definition update_dynamic_rel :: "nat \<Rightarrow> dso \<Rightarrow> reloc_info \<Rightarrow> (int \<times> dso) option" where
  "update_dynamic_rel dt_num d ri = (let rel = ri_first ri; plt = ri_plt ri in do {
     dynsec \<leftarrow> find_dynsec (shdr d) 0 (unat (e_shnum (ehdr d)));
     es \<leftarrow> (case dynsec of None \<Rightarrow> Some [] | Some i \<Rightarrow> load_dynamic d i);
     let ptr = info_ptr dt_num es;
     overlap \<leftarrow> (if rel \<noteq> 0 \<and> plt \<noteq> 0 \<and> ri_overlap ri then do {
         a \<leftarrow> sec_hdr d rel;
         b \<leftarrow> sec_hdr d plt;
         Some (sh_type a = sh_type b)
       } else Some (ri_overlap ri));
     es \<leftarrow> (if rel \<noteq> 0 \<or> plt \<noteq> 0 \<and> overlap then update_rel_entries d ri overlap ptr es else Some es);
     es \<leftarrow> (if plt \<noteq> 0 then update_plt_entries d ri overlap ptr es else Some es);
     d \<leftarrow> (case dynsec of None \<Rightarrow> Some d | Some i \<Rightarrow> do {
             sh \<leftarrow> nth_opt (shdr d) i;
             sc \<leftarrow> nth_opt (scn d) i;
             store_dyn_blocks dt_num i sh 0 (length (scn_data sc)) es d
           });
     d \<leftarrow> read_dynamic dt_num d;
     Some (0, d)
   })"

end
