(* ===== verification/RelocProps.thy ===== *)
theory RelocProps
  imports Reloc ArchI386 ArchARM
begin

text \<open>
  Properties of \<^verbatim>\<open>src/reloc.c\<close>. The update of the dynamic section is a map over its entries: after it, \<^verbatim>\<open>read_dynamic\<close>
  reports the addresses, sizes and types of the relocation sections. The sections that \<^verbatim>\<open>find_reloc_sections\<close> finds are
  those the dynamic section describes, of the right type. Converting a section stores the conversion of every entry;
  the loop is treated once, in the locale \<open>entry_converter\<close>.
\<close>

section \<open>What the update does to the entries\<close>

text \<open>Every state of the array is the image of the entries that were read.\<close>

definition on_tag :: "u64 \<Rightarrow> (elf_dyn \<Rightarrow> elf_dyn) \<Rightarrow> (elf_dyn \<Rightarrow> elf_dyn) \<Rightarrow> elf_dyn \<Rightarrow> elf_dyn" where
  "on_tag t f h e = (if d_tag e = t then f (h e) else h e)"

lemma last_tag_Some: "last_tag es t = Some i \<Longrightarrow> i < length es \<and> d_tag (es ! i) = t"
  by (induction es arbitrary: i) (auto split: option.splits if_splits)

lemma last_tag_none: "last_tag es t = None \<longleftrightarrow> t \<notin> d_tag ` set es"
  by (induction es) (auto split: option.splits)

lemma last_tag_in:
  "t \<in> d_tag ` set es \<Longrightarrow> \<exists>i. last_tag es t = Some i \<and> i < length es \<and> d_tag (es ! i) = t"
  using last_tag_Some last_tag_none by (cases "last_tag es t") blast+

lemma update_on_tag:
  assumes "distinct (map d_tag es)" and "i < length es" and "d_tag (es ! i) = t"
  shows "(map h es)[i := f (map h es ! i)] = map (on_tag t f h) es"
proof (rule nth_equalityI)
  fix j assume "j < length ((map h es)[i := f (map h es ! i)])"
  then have "j < length es" by simp
  moreover from this have "d_tag (es ! j) = t \<longleftrightarrow> j = i"
    using assms nth_eq_iff_index_eq [OF assms(1), of j i] by auto
  ultimately show "(map h es)[i := f (map h es ! i)] ! j = map (on_tag t f h) es ! j"
    using assms(2) by (auto simp: on_tag_def nth_list_update)
qed simp

lemma put_on_tag:
  assumes "distinct (map d_tag es)" and "t \<in> d_tag ` set es"
  shows "put_val (last_tag es t) v (map h es) = Some (map (on_tag t (d_ptr_update (\<lambda>_. v)) h) es)"
    and "put_tag (last_tag es t) u (map h es) = Some (map (on_tag t (d_tag_update (\<lambda>_. u)) h) es)"
  using last_tag_in [OF assms(2)] update_on_tag [OF assms(1), of _ t h]
  by (fastforce simp: put_val_def put_tag_def)+

text \<open>An entry of the relocations that are not for the PLT: its new form, when \<open>conv\<close> says that the type of the sections
  changed; an entry of the relocations for the PLT.\<close>

definition rel_dyn_entry :: "dso \<Rightarrow> bool \<Rightarrow> bool \<Rightarrow> u64 \<Rightarrow> u64 \<Rightarrow> elf_dyn \<Rightarrow> elf_dyn" where
  "rel_dyn_entry d rela conv a sz e = (let new = (if conv then \<not> rela else rela) in
     if d_tag e = of_nat (dt_REL rela) then \<lparr>d_tag = of_nat (dt_REL new), d_ptr = a\<rparr>
     else if d_tag e = of_nat (dt_RELSZ rela) then \<lparr>d_tag = of_nat (dt_RELSZ new), d_ptr = sz\<rparr>
     else if d_tag e = of_nat (dt_RELENT rela) \<and> conv then \<lparr>d_tag = of_nat (dt_RELENT new), d_ptr = rel_fsize d new\<rparr>
     else if d_tag e = dt_RELCOUNT rela \<and> conv then e\<lparr>d_tag := dt_RELCOUNT new\<rparr>
     else e)"

definition plt_dyn_entry :: "bool \<Rightarrow> bool \<Rightarrow> u64 \<Rightarrow> u64 \<Rightarrow> elf_dyn \<Rightarrow> elf_dyn" where
  "plt_dyn_entry rela conv a sz e =
     (if d_tag e = of_nat DT_JMPREL then e\<lparr>d_ptr := a\<rparr>
      else if d_tag e = of_nat DT_PLTREL \<and> conv then e\<lparr>d_ptr := of_nat (dt_REL (\<not> rela))\<rparr>
      else if d_tag e = of_nat DT_PLTRELSZ \<and> conv then e\<lparr>d_ptr := sz\<rparr>
      else e)"

lemmas dt_names = dt_REL_def dt_RELSZ_def dt_RELENT_def dt_RELCOUNT_def dt_rel_defs

lemma dyn_eq_iff: "(e :: elf_dyn) = f \<longleftrightarrow> d_tag e = d_tag f \<and> d_ptr e = d_ptr f"
  by (cases e; cases f) simp

lemma retag_entries:
  assumes "distinct (map d_tag es)"
    and "of_nat (dt_REL rela) \<in> d_tag ` set es" "of_nat (dt_RELSZ rela) \<in> d_tag ` set es" "of_nat (dt_RELENT rela) \<in> d_tag ` set es"
    and "24 \<le> dt_num" and "dt_num \<le> 50"
  shows "retag d rela (info_ptr dt_num es) (map (rel_dyn_entry d rela False a sz) es) = Some (map (rel_dyn_entry d rela True a sz) es)"
proof -
  have p: "info_ptr dt_num es (of_nat t) = last_tag es (of_nat t)" if "t < 24" for t
    using that assms(5,6) by (simp add: info_ptr_def word_less_nat_alt unat_of_nat)
  have small: "dt_REL rela < 24" "dt_RELSZ rela < 24" "dt_RELENT rela < 24" by (simp_all add: dt_names)
  have c: "info_ptr dt_num es (dt_RELCOUNT rela) = last_tag es (dt_RELCOUNT rela)" by (simp add: info_ptr_def dt_RELCOUNT_def)
  let ?h = "rel_dyn_entry d rela False a sz"
  let ?v = "\<lambda>t v. on_tag (of_nat t) (d_ptr_update (\<lambda>_. v))" and ?t = "\<lambda>t u. on_tag (of_nat t) (d_tag_update (\<lambda>_. of_nat u))"
  let ?g = "?t (dt_RELENT rela) (dt_RELENT (\<not> rela)) (?t (dt_RELSZ rela) (dt_RELSZ (\<not> rela))
      (?t (dt_REL rela) (dt_REL (\<not> rela)) (?v (dt_RELENT rela) (rel_fsize d (\<not> rela)) ?h)))"
  have g: "rel_dyn_entry d rela True a sz e = on_tag (dt_RELCOUNT rela) (d_tag_update (\<lambda>_. dt_RELCOUNT (\<not> rela))) ?g e" for e
    by (cases rela) (auto simp: rel_dyn_entry_def on_tag_def dt_names)
  have start: "retag d rela (info_ptr dt_num es) (map ?h es) = (case last_tag es (dt_RELCOUNT rela) of
      None \<Rightarrow> Some (map ?g es) | Some _ \<Rightarrow> put_tag (last_tag es (dt_RELCOUNT rela)) (dt_RELCOUNT (\<not> rela)) (map ?g es))"
    unfolding retag_def c by (simp add: p small put_on_tag assms)
  show ?thesis
  proof (cases "dt_RELCOUNT rela \<in> d_tag ` set es")
    case True
    then show ?thesis using start put_on_tag(2) [OF assms(1) True] last_tag_in [OF True] g by auto
  next
    case False
    then have "d_tag e \<noteq> dt_RELCOUNT rela" if "e \<in> set es" for e using that by force
    then have "map (rel_dyn_entry d rela True a sz) es = map ?g es"
      unfolding g on_tag_def [of "dt_RELCOUNT rela"] by (intro map_cong) simp_all
    then show ?thesis using start False last_tag_none by (metis option.simps(4))
  qed
qed

lemma update_rel_entries_map:
  assumes "distinct (map d_tag es)"
    and tags: "of_nat (dt_REL rela) \<in> d_tag ` set es" "of_nat (dt_RELSZ rela) \<in> d_tag ` set es" "of_nat (dt_RELENT rela) \<in> d_tag ` set es"
    and num: "24 \<le> dt_num" "dt_num \<le> 50" and rela: "rela = ri_reldyn_rela ri"
    and asserted: "info d (dt_RELENT rela) = rel_fsize d rela" "info d (dt_REL rela) \<noteq> 0" "info d (dt_RELSZ rela) \<noteq> 0"
    and s: "sec_hdr d (if ri_first ri \<noteq> 0 then ri_first ri else ri_plt ri) = Some s"
    and l: "sec_hdr d (if ri_plt ri \<noteq> 0 \<and> overlap then ri_plt ri else ri_last ri) = Some l"
  shows "update_rel_entries d ri overlap (info_ptr dt_num es) es =
    Some (map (rel_dyn_entry d rela (sh_type s = (if rela then SHT_REL else SHT_RELA)) (sh_addr s) (sh_addr l + sh_size l - sh_addr s)) es)"
proof -
  let ?h = "rel_dyn_entry d rela False (sh_addr s) (sh_addr l + sh_size l - sh_addr s)"
  let ?v = "\<lambda>t v. on_tag (of_nat t) (d_ptr_update (\<lambda>_. v))"
  have p: "info_ptr dt_num es (of_nat t) = last_tag es (of_nat t)" if "t < 24" for t
    using that num by (simp add: info_ptr_def word_less_nat_alt unat_of_nat)
  have small: "dt_REL rela < 24" "dt_RELSZ rela < 24" by (simp_all add: dt_names)
  obtain i j where i: "last_tag es (of_nat (dt_REL rela)) = Some i" "i < length es" "d_tag (es ! i) = of_nat (dt_REL rela)"
    and j: "last_tag es (of_nat (dt_RELSZ rela)) = Some j" "j < length es" "d_tag (es ! j) = of_nat (dt_RELSZ rela)"
    using last_tag_in tags(1,2) by blast
  let ?g = "?v (dt_RELSZ rela) (sh_addr l + sh_size l) (?v (dt_REL rela) (sh_addr s) id)"
  have e1: "put_val (Some i) (sh_addr s) es = Some (map (?v (dt_REL rela) (sh_addr s) id) es)"
    using put_on_tag(1) [OF assms(1) tags(1), of "sh_addr s" id] by (simp add: i)
  have e2: "put_val (Some j) (sh_addr l + sh_size l) (map (?v (dt_REL rela) (sh_addr s) id) es) = Some (map ?g es)"
    using put_on_tag(1) [OF assms(1) tags(2)] by (simp add: j)
  have vals: "d_ptr (map ?g es ! j) - d_ptr (map ?g es ! i) = sh_addr l + sh_size l - sh_addr s"
    using i j by (simp add: on_tag_def dt_names)
  have e3: "put_val (Some j) (sh_addr l + sh_size l - sh_addr s) (map ?g es) = Some (map ?h es)"
  proof -
    have "?h = ?v (dt_RELSZ rela) (sh_addr l + sh_size l - sh_addr s) ?g"
      by (rule ext) (auto simp: rel_dyn_entry_def on_tag_def dt_names dyn_eq_iff)
    then show ?thesis using put_on_tag(1) [OF assms(1) tags(2)] by (simp add: j)
  qed
  have conv: "(\<not> rela \<and> sh_type s = SHT_RELA \<or> rela \<and> sh_type s = SHT_REL) = (sh_type s = (if rela then SHT_REL else SHT_RELA))"
    by simp
  show ?thesis
    unfolding update_rel_entries_def Let_def rela [symmetric] s l
    using asserted retag_entries [OF assms(1) tags num, of d "sh_addr s" "sh_addr l + sh_size l - sh_addr s"]
    by (simp add: p small i(1) j(1) e1 e2 vals e3 conv del: list_update.simps nth_map)
qed

lemma update_plt_entries_map:
  assumes "distinct (map d_tag es)"
    and tags: "of_nat DT_JMPREL \<in> d_tag ` set es" "of_nat DT_PLTREL \<in> d_tag ` set es" "of_nat DT_PLTRELSZ \<in> d_tag ` set es"
    and num: "24 \<le> dt_num" "dt_num \<le> 50" and "info d DT_JMPREL \<noteq> 0"
    and s: "sec_hdr d (ri_plt ri) = Some s" and "ri_first ri \<noteq> 0 \<or> overlap"
    and h: "\<And>e t. t \<in> of_nat ` {DT_JMPREL, DT_PLTREL, DT_PLTRELSZ} \<Longrightarrow> d_tag (h e) = t \<longleftrightarrow> d_tag e = t"
  shows "update_plt_entries d ri overlap (info_ptr dt_num es) (map h es) =
    Some (map (\<lambda>e. plt_dyn_entry (ri_plt_rela ri) (sh_type s = (if ri_plt_rela ri then SHT_REL else SHT_RELA)) (sh_addr s) (sh_size s) (h e)) es)"
proof -
  let ?v = "\<lambda>t v. on_tag (of_nat t) (d_ptr_update (\<lambda>_. v))" and ?conv = "sh_type s = (if ri_plt_rela ri then SHT_REL else SHT_RELA)"
  have p: "info_ptr dt_num es (of_nat t) = last_tag es (of_nat t)" if "t < 24" for t
    using that num by (simp add: info_ptr_def word_less_nat_alt unat_of_nat)
  have small: "DT_JMPREL < 24" "DT_PLTREL < 24" "DT_PLTRELSZ < 24" by (simp_all add: dt_names)
  have conv: "(\<not> ri_plt_rela ri \<and> sh_type s = SHT_RELA \<or> ri_plt_rela ri \<and> sh_type s = SHT_REL) = ?conv"
    by simp
  have nz: "\<not> (ri_first ri = 0 \<and> \<not> overlap)" using assms(9) by simp
  have "update_plt_entries d ri overlap (info_ptr dt_num es) (map h es) = Some (map (if ?conv
      then ?v DT_PLTRELSZ (sh_size s) (?v DT_PLTREL (of_nat (dt_REL (\<not> ri_plt_rela ri))) (?v DT_JMPREL (sh_addr s) h))
      else ?v DT_JMPREL (sh_addr s) h) es)"
    unfolding update_plt_entries_def s conv if_not_P [OF nz] small [THEN p]
    using assms(7) by (cases ?conv) (auto simp: put_on_tag assms(1) tags split: if_splits)
  also have "\<dots> = Some (map (\<lambda>e. plt_dyn_entry (ri_plt_rela ri) ?conv (sh_addr s) (sh_size s) (h e)) es)"
    using h by (auto simp: on_tag_def plt_dyn_entry_def dt_names dyn_eq_iff intro!: map_cong)
  finally show ?thesis .
qed

section \<open>Loading and storing the array\<close>

lemma find_dynsec_one:
  assumes ok: "dyn_ok d" and one: "one_dynamic d"
  shows "find_dynsec (shdr d) 0 (unat (e_shnum (ehdr d))) = Some (Some (dynamic d))"
proof -
  have step: "find_dynsec (shdr d) i (Suc n) = Some (Some (dynamic d))" if "i + n = dynamic d" for i n
    using that
  proof (induction n arbitrary: i)
    case 0
    then show ?case using ok by (simp add: nth_opt_def dyn_ok_def)
  next
    case (Suc n)
    moreover have "i < dynamic d" using Suc.prems by simp
    moreover from this have "i < length (shdr d)" "sh_type (shdr d ! i) \<noteq> SHT_DYNAMIC"
      using one by (auto simp: one_dynamic_def list_all_iff)
    ultimately show ?case using Suc.IH [of "Suc i"] by (simp add: nth_opt_def)
  qed
  have more: "find_dynsec shs i m = Some (Some k) \<Longrightarrow> m \<le> n \<Longrightarrow> find_dynsec shs i n = Some (Some k)" for shs i m n k
  proof (induction m arbitrary: i n)
    case (Suc m)
    then show ?case by (cases n) (auto simp: bind_eq_Some split: if_splits)
  qed simp
  show ?thesis using more [OF step [of 0 "dynamic d"], of "unat (e_shnum (ehdr d))"] one by (simp add: one_dynamic_def)
qed

lemma load_dyn_entries_list:
  "\<forall>j < length xs. dso_getdyn d i k (ndx + j) = Some (xs ! j) \<Longrightarrow>
   load_dyn_entries i k ndx (length xs) d =
     Some (\<exists>x \<in> set xs. d_tag x = DT_NULL, takeWhile (\<lambda>e. d_tag e \<noteq> DT_NULL) xs)"
proof (induction xs arbitrary: ndx)
  case (Cons x xs)
  have "\<forall>j < length xs. dso_getdyn d i k (Suc ndx + j) = Some (xs ! j)" using Cons.prems by force
  moreover have "dso_getdyn d i k ndx = Some x" using Cons.prems by force
  ultimately show ?case using Cons.IH [of "Suc ndx"] by simp
qed simp

lemma load_dynamic_table:
  assumes ok: "dyn_ok d" and ended: "length (dyn_table d) < dyn_max d"
    and size: "sh_size (shdr d ! dynamic d) = d_size (dyn_block d)"
  shows "load_dynamic d (dynamic d) = Some (dyn_table d)"
proof -
  let ?sh = "shdr d ! dynamic d"
  have e: "unat (sh_entsize ?sh) = dyn_entsize d" "sh_entsize ?sh \<noteq> 0"
    using ok by (auto simp: dyn_ok_def dyn_entsize_def)
  have "\<exists>x \<in> set (dyn_slots d). d_tag x = DT_NULL"
    using ended takeWhile_short [of "\<lambda>e. d_tag e \<noteq> DT_NULL" "dyn_slots d"]
    by (simp add: dyn_table_def dyn_slots_def [THEN arg_cong, of length])
  then have "load_dyn_entries (dynamic d) 0 0 (dyn_max d) d = Some (True, dyn_table d)"
    using load_dyn_entries_list [of "dyn_slots d" d "dynamic d" 0 0] getdyn_slot [OF ok]
    by (simp add: dyn_slots_def [THEN arg_cong, of length] dyn_table_def)
  moreover have "Suc (length (dyn_table d)) \<le> unat (sh_size ?sh div sh_entsize ?sh)"
    using ended e by (simp add: size unat_div_distrib dyn_max_def)
  ultimately show ?thesis
    using ok e(2) by (simp add: load_dynamic_def dyn_ok_def nth_opt_def block_at_dyn [OF ok] dyn_ok_max_ndx [OF ok])
qed

definition stored_entry :: "nat \<Rightarrow> u8 \<Rightarrow> elf_dyn \<Rightarrow> elf_dyn \<Rightarrow> elf_dyn" where
  "stored_entry dt_num c e x = (if stored_tag dt_num (d_tag e) then narrow_dyn c e else x)"

lemma store_dyn_entries_slots:
  assumes "dyn_ok d" and "ndx + m = dyn_max d" and "length es < m"
  shows "\<exists>d'. store_dyn_entries dt_num (dynamic d) 0 ndx m es d = Some (False, [], d') \<and> dyn_ok d' \<and> dyn_frame d d'
    \<and> dyn_slots d' = take ndx (dyn_slots d) @ map2 (stored_entry dt_num (ei_class (ehdr d))) es (drop ndx (dyn_slots d))
         @ drop (ndx + length es) (dyn_slots d)"
  using assms
proof (induction es arbitrary: ndx m d)
  case Nil
  then obtain m' where "m = Suc m'" by (cases m) simp_all
  then show ?case using Nil by simp
next
  case (Cons e es)
  let ?c = "ei_class (ehdr d)" and ?xs = "dyn_slots d"
  obtain m' where m: "m = Suc m'" "length es < m'" using Cons.prems(3) by (cases m) simp_all
  have i: "ndx < dyn_max d" using Cons.prems(2) m by simp
  have len: "length ?xs = dyn_max d" by (simp add: dyn_slots_def)
  obtain d1 where d1: "(if stored_tag dt_num (d_tag e) then dso_update_dyn d (dynamic d) 0 ndx e else Some d) = Some d1"
    "dyn_ok d1" "dyn_frame d d1" "dyn_slots d1 = ?xs[ndx := stored_entry dt_num ?c e (?xs ! ndx)]"
    using update_dyn_slot [OF Cons.prems(1) i, of e] Cons.prems(1)
    by (cases "stored_tag dt_num (d_tag e)") (auto simp: stored_entry_def)
  have "Suc ndx + m' = dyn_max d1"
    using Cons.prems(2) m d1(4) len by (metis add_Suc add_Suc_right dyn_slots_def length_list_update length_map length_upt minus_nat.diff_0)
  then obtain d' where d': "store_dyn_entries dt_num (dynamic d1) 0 (Suc ndx) m' es d1 = Some (False, [], d')" "dyn_ok d'" "dyn_frame d1 d'"
    "dyn_slots d' = take (Suc ndx) (dyn_slots d1) @ map2 (stored_entry dt_num (ei_class (ehdr d1))) es (drop (Suc ndx) (dyn_slots d1))
         @ drop (Suc ndx + length es) (dyn_slots d1)"
    using Cons.IH [OF d1(2) _ m(2)] by blast
  note fr = dyn_frame_fields [OF d1(3)]
  have "drop ndx ?xs = ?xs ! ndx # drop (Suc ndx) ?xs" using i len by (simp add: Cons_nth_drop_Suc)
  then have "dyn_slots d' = take ndx ?xs @ map2 (stored_entry dt_num ?c) (e # es) (drop ndx ?xs) @ drop (ndx + length (e # es)) ?xs"
    using d'(4) d1(4) i len by (simp add: fr take_Suc_conv_app_nth)
  then show ?case using m d1 d' fr dyn_frame_trans [OF d1(3) d'(3)] by auto
qed

lemma store_dynamic_table:
  assumes ok: "dyn_ok d" and ended: "length (dyn_table d) < dyn_max d"
    and h: "\<And>e. e \<in> set (dyn_table d) \<Longrightarrow> d_tag (stored_entry dt_num (ei_class (ehdr d)) (h e) e) \<noteq> DT_NULL"
  shows "\<exists>d'. store_dyn_blocks dt_num (dynamic d) (shdr d ! dynamic d) 0 1 (map h (dyn_table d)) d = Some d' \<and> dyn_ok d' \<and> dyn_frame d d'
    \<and> dyn_table d' = map (\<lambda>e. stored_entry dt_num (ei_class (ehdr d)) (h e) e) (dyn_table d)"
proof -
  let ?es = "dyn_table d" and ?f = "\<lambda>e. stored_entry dt_num (ei_class (ehdr d)) (h e) e" and ?P = "\<lambda>e. d_tag e \<noteq> DT_NULL"
  obtain d' where d': "store_dyn_entries dt_num (dynamic d) 0 0 (dyn_max d) (map h ?es) d = Some (False, [], d')"
      "dyn_ok d'" "dyn_frame d d'"
      "dyn_slots d' = map2 (stored_entry dt_num (ei_class (ehdr d))) (map h ?es) (dyn_slots d) @ drop (length ?es) (dyn_slots d)"
    using store_dyn_entries_slots [OF ok, of 0 "dyn_max d" "map h ?es"] ended by auto
  have xs: "dyn_slots d = ?es @ dropWhile ?P (dyn_slots d)" by (simp add: dyn_table_def)
  have z: "map2 g (map h ys) (ys @ zs) = map (\<lambda>e. g (h e) e) ys" for g :: "elf_dyn \<Rightarrow> elf_dyn \<Rightarrow> elf_dyn" and ys zs
    by (induction ys) simp_all
  have "drop (length ?es) (dyn_slots d) = dropWhile ?P (dyn_slots d)" by (simp add: dyn_table_def dropWhile_eq_drop)
  moreover have "map2 (stored_entry dt_num (ei_class (ehdr d))) (map h ?es) (dyn_slots d) = map ?f ?es"
    by (subst xs) (rule z)
  ultimately have "dyn_slots d' = map ?f ?es @ dropWhile ?P (dyn_slots d)" using d'(4) by simp
  then have "dyn_table d' = map ?f ?es @ takeWhile ?P (dropWhile ?P (dyn_slots d))"
    unfolding dyn_table_def [of d'] using h by (simp, intro takeWhile_append2) auto
  moreover have "takeWhile ?P (dropWhile ?P xs) = []" for xs by (induction xs) simp_all
  ultimately have "dyn_table d' = map ?f ?es" by simp
  then show ?thesis
    using d' by (simp add: block_at_dyn [OF ok] dyn_ok_max_ndx [OF ok])
qed

section \<open>What is read after the update\<close>

definition rename_tag :: "bool \<Rightarrow> bool \<Rightarrow> u64 \<Rightarrow> u64" where
  "rename_tag rela conv t = d_tag (rel_dyn_entry (undefined :: dso) rela conv 0 0 \<lparr>d_tag = t, d_ptr = 0\<rparr>)"

lemma rel_dyn_entry_tag: "d_tag (rel_dyn_entry d rela conv a sz e) = rename_tag rela conv (d_tag e)"
  by (simp add: rename_tag_def rel_dyn_entry_def Let_def)

lemma plt_dyn_entry_tag: "d_tag (plt_dyn_entry rela conv a sz e) = d_tag e"
  by (simp add: plt_dyn_entry_def)

lemma rel_dyn_entry_plt:
  "t \<in> of_nat ` {DT_JMPREL, DT_PLTREL, DT_PLTRELSZ} \<Longrightarrow> d_tag (rel_dyn_entry d rela conv a sz e) = t \<longleftrightarrow> d_tag e = t"
  unfolding rel_dyn_entry_def Let_def dt_names by (cases rela; cases conv; auto)

definition rel_tags :: "bool \<Rightarrow> u64 set" where
  "rel_tags rela = {of_nat (dt_REL rela), of_nat (dt_RELSZ rela), of_nat (dt_RELENT rela), dt_RELCOUNT rela}"

lemma rename_tag_inj: "conv \<longrightarrow> T \<inter> rel_tags (\<not> rela) = {} \<Longrightarrow> inj_on (rename_tag rela conv) T"
  by (auto simp: inj_on_def rename_tag_def rel_dyn_entry_def rel_tags_def Let_def dt_names split: if_splits)

lemma rename_tag_stored:
  assumes "24 \<le> dt_num" and "dt_num \<le> 50"
  shows "stored_tag dt_num (rename_tag rela conv t) = stored_tag dt_num t"
proof -
  have "(u :: u64) < of_nat dt_num" if "u < 24" for u
    using that assms by (simp add: word_less_nat_alt unat_of_nat)
  from this [of 7] this [of 8] this [of 9] this [of 17] this [of 18] this [of 19] show ?thesis
    by (auto simp: stored_tag_def rename_tag_def rel_dyn_entry_def Let_def dt_names)
qed

lemma stored_tag_narrow:
  assumes "dt_num \<le> 50" and "stored_tag dt_num (d_tag e)"
  shows "d_tag (narrow_dyn c e) = d_tag e"
proof -
  have "d_tag e < 0x80000000"
    using assms by (auto simp: stored_tag_def word_less_nat_alt unat_of_nat dt_names)
  then have "unat (d_tag e) < 2 ^ 31" by (simp add: word_less_nat_alt)
  then have "take_bit 31 (d_tag e) = d_tag e"
    by (simp add: word_unat_eq_iff unsigned_take_bit_eq take_bit_nat_eq_self)
  moreover from this have "\<not> bit (d_tag e) 31" by (metis bit_take_bit_iff less_irrefl)
  ultimately show ?thesis by (simp add: narrow_dyn_def signed_take_bit_eq_if_positive)
qed

definition narrow_val :: "dso \<Rightarrow> u64 \<Rightarrow> u64" where
  "narrow_val d v = (if ei_class (ehdr d) = ELFCLASS32 then take_bit 32 v else v)"

lemma narrow_dyn_ptr: "d_ptr (narrow_dyn (ei_class (ehdr d)) e) = narrow_val d (d_ptr e)"
  by (simp add: narrow_dyn_def narrow_val_def)

lemma fold_read_absent:
  assumes "t \<notin> d_tag ` set es" and "t < 50"
  shows "bit (info_set_mask (fold (read_dyn_entry dt_num) es d)) (unat t) = bit (info_set_mask d) (unat t)"
  using assms(1) by (induction es arbitrary: d) (auto simp: read_other_tag assms(2))

text \<open>The array after both updates.\<close>

definition new_entry :: "dso \<Rightarrow> reloc_info \<Rightarrow> elf_shdr \<Rightarrow> elf_shdr \<Rightarrow> elf_shdr option \<Rightarrow> elf_dyn \<Rightarrow> elf_dyn" where
  "new_entry d ri s l p e = (let rela = ri_reldyn_rela ri;
       e = rel_dyn_entry d rela (sh_type s = (if rela then SHT_REL else SHT_RELA)) (sh_addr s) (sh_addr l + sh_size l - sh_addr s) e in
     case p of None \<Rightarrow> e
     | Some p \<Rightarrow> plt_dyn_entry (ri_plt_rela ri) (sh_type p = (if ri_plt_rela ri then SHT_REL else SHT_RELA)) (sh_addr p) (sh_size p) e)"

text \<open>The tags and sections that the update needs: \<open>s\<close> the first of the sections, \<open>l\<close> the one at whose end the
  relocations end, \<open>p\<close> the one of the PLT.\<close>

definition update_ready :: "nat \<Rightarrow> dso \<Rightarrow> reloc_info \<Rightarrow> elf_shdr \<Rightarrow> elf_shdr \<Rightarrow> elf_shdr option \<Rightarrow> bool" where
  "update_ready dt_num d ri s l p \<longleftrightarrow> (let rela = ri_reldyn_rela ri; ts = d_tag ` set (dyn_table d) in
     24 \<le> dt_num \<and> dt_num \<le> 50 \<and> dyn_ok d \<and> one_dynamic d \<and> length (dyn_table d) < dyn_max d
     \<and> sh_size (shdr d ! dynamic d) = d_size (dyn_block d) \<and> distinct (map d_tag (dyn_table d))
     \<and> of_nat (dt_REL rela) \<in> ts \<and> of_nat (dt_RELSZ rela) \<in> ts \<and> of_nat (dt_RELENT rela) \<in> ts
     \<and> of_nat (dt_REL (\<not> rela)) \<notin> ts \<and> of_nat (dt_RELSZ (\<not> rela)) \<notin> ts \<and> of_nat (dt_RELENT (\<not> rela)) \<notin> ts
     \<and> dt_RELCOUNT (\<not> rela) \<notin> ts
     \<and> info d (dt_RELENT rela) = rel_fsize d rela \<and> info d (dt_REL rela) \<noteq> 0 \<and> info d (dt_RELSZ rela) \<noteq> 0
     \<and> ri_first ri \<noteq> 0 \<and> sec_hdr d (ri_first ri) = Some s
     \<and> (case p of None \<Rightarrow> ri_plt ri = 0 \<and> sec_hdr d (ri_last ri) = Some l
        | Some p \<Rightarrow> ri_plt ri \<noteq> 0 \<and> sec_hdr d (ri_plt ri) = Some p \<and> info d DT_JMPREL \<noteq> 0
            \<and> sec_hdr d (if ri_overlap ri \<and> sh_type s = sh_type p then ri_plt ri else ri_last ri) = Some l
            \<and> of_nat DT_JMPREL \<in> ts \<and> of_nat DT_PLTREL \<in> ts \<and> of_nat DT_PLTRELSZ \<in> ts))"

lemma update_dynamic_rel_table:
  assumes r: "update_ready dt_num d ri s l p"
  shows "\<exists>d1. dyn_ok d1 \<and> dyn_frame d d1 \<and> update_dynamic_rel dt_num d ri = map_option (Pair 0) (read_dynamic dt_num d1)
    \<and> dyn_table d1 = map (\<lambda>e. stored_entry dt_num (ei_class (ehdr d)) (new_entry d ri s l p e) e) (dyn_table d)"
proof -
  let ?es = "dyn_table d" and ?rela = "ri_reldyn_rela ri" and ?h = "new_entry d ri s l p"
  note rr = r [unfolded update_ready_def Let_def]
  have d: "24 \<le> dt_num" "dt_num \<le> 50" "dyn_ok d" "one_dynamic d" "length ?es < dyn_max d"
      "sh_size (shdr d ! dynamic d) = d_size (dyn_block d)" "distinct (map d_tag ?es)"
    using rr by simp_all
  define ov where "ov = (if ri_plt ri = 0 then ri_overlap ri else ri_overlap ri \<and> sh_type s = sh_type (the p))"
  let ?conv = "sh_type s = (if ?rela then SHT_REL else SHT_RELA)"
  let ?g = "rel_dyn_entry d ?rela ?conv (sh_addr s) (sh_addr l + sh_size l - sh_addr s)"
  have l: "sec_hdr d (if ri_plt ri \<noteq> 0 \<and> ov then ri_plt ri else ri_last ri) = Some l"
    using rr by (cases p) (auto simp: ov_def)
  have rel: "update_rel_entries d ri ov (info_ptr dt_num ?es) ?es = Some (map ?g ?es)"
    by (rule update_rel_entries_map [OF d(7)]) (use rr l in simp_all)
  have h: "t \<in> of_nat ` {DT_JMPREL, DT_PLTREL, DT_PLTRELSZ} \<Longrightarrow> d_tag (?g e) = t \<longleftrightarrow> d_tag e = t" for e t
    by (rule rel_dyn_entry_plt)
  have plt: "update_plt_entries d ri ov (info_ptr dt_num ?es) (map ?g ?es) = Some (map ?h ?es)" if plt0: "ri_plt ri \<noteq> 0"
  proof -
    obtain q where q: "p = Some q" using plt0 rr by (cases p) auto
    show ?thesis
      using update_plt_entries_map [OF d(7) _ _ _ d(1,2), of d ri q ov ?g] h rr
      by (simp add: q new_entry_def [abs_def] Let_def)
  qed
  have nplt: "map ?g ?es = map ?h ?es" if "ri_plt ri = 0"
    using that rr by (cases p) (simp_all add: new_entry_def)
  have tag: "d_tag (?h e) = rename_tag ?rela ?conv (d_tag e)" for e
    by (cases p) (simp_all add: new_entry_def plt_dyn_entry_tag rel_dyn_entry_tag)
  have "d_tag (stored_entry dt_num (ei_class (ehdr d)) (?h e) e) \<noteq> DT_NULL" if "e \<in> set ?es" for e
  proof -
    have "d_tag e \<noteq> DT_NULL" using that set_takeWhileD unfolding dyn_table_def by fastforce
    moreover from this have "d_tag (?h e) \<noteq> DT_NULL"
      by (simp add: tag rename_tag_def rel_dyn_entry_def Let_def dt_names DT_NULL_def)
    ultimately show ?thesis by (simp add: stored_entry_def stored_tag_narrow [OF d(2)])
  qed
  then obtain d1 where d1: "store_dyn_blocks dt_num (dynamic d) (shdr d ! dynamic d) 0 1 (map ?h ?es) d = Some d1" "dyn_ok d1"
      "dyn_frame d d1" "dyn_table d1 = map (\<lambda>e. stored_entry dt_num (ei_class (ehdr d)) (?h e) e) ?es"
    using store_dynamic_table [OF d(3,5)] by blast
  have ov: "(if ri_first ri \<noteq> 0 \<and> ri_plt ri \<noteq> 0 \<and> ri_overlap ri then do {
         a \<leftarrow> sec_hdr d (ri_first ri);
         b \<leftarrow> sec_hdr d (ri_plt ri);
         Some (sh_type a = sh_type b)
       } else Some (ri_overlap ri)) = Some ov"
    using rr by (cases p) (auto simp: ov_def)
  have both: "(if ri_plt ri \<noteq> 0 then update_plt_entries d ri ov (info_ptr dt_num ?es) (map ?g ?es) else Some (map ?g ?es)) = Some (map ?h ?es)"
    using plt nplt by simp
  have first: "ri_first ri \<noteq> 0" using rr by simp
  have sec: "nth_opt (shdr d) (dynamic d) = Some (shdr d ! dynamic d)" "nth_opt (scn d) (dynamic d) = Some (scn d ! dynamic d)"
    "length (scn_data (scn d ! dynamic d)) = 1"
    using d(3) by (auto simp: dyn_ok_def nth_opt_def)
  have "update_dynamic_rel dt_num d ri = map_option (Pair 0) (read_dynamic dt_num d1)"
    unfolding update_dynamic_rel_def Let_def find_dynsec_one [OF d(3,4)] bind.bind_lunit option.case load_dynamic_table [OF d(3,5,6)]
      ov rel if_P [OF disjI1, OF first] both sec d1(1)
    by (simp add: bind_Some_map)
  then show ?thesis using d1 by blast
qed

lemma new_entry_cases:
  assumes "sh_type s = (if new then SHT_RELA else SHT_REL)" and "rela = ri_reldyn_rela ri"
  shows "d_tag e = of_nat (dt_REL rela) \<Longrightarrow> new_entry d ri s l p e = \<lparr>d_tag = of_nat (dt_REL new), d_ptr = sh_addr s\<rparr>"
    and "d_tag e = of_nat (dt_RELSZ rela) \<Longrightarrow>
      new_entry d ri s l p e = \<lparr>d_tag = of_nat (dt_RELSZ new), d_ptr = sh_addr l + sh_size l - sh_addr s\<rparr>"
    and "new \<noteq> rela \<Longrightarrow> d_tag e = of_nat (dt_RELENT rela) \<Longrightarrow>
      new_entry d ri s l p e = \<lparr>d_tag = of_nat (dt_RELENT new), d_ptr = rel_fsize d new\<rparr>"
    and "p = Some q \<Longrightarrow> d_tag e = of_nat DT_JMPREL \<Longrightarrow> new_entry d ri s l p e = \<lparr>d_tag = of_nat DT_JMPREL, d_ptr = sh_addr q\<rparr>"
    and "p = Some q \<Longrightarrow> sh_type q = (if ri_plt_rela ri then SHT_REL else SHT_RELA) \<Longrightarrow> d_tag e = of_nat DT_PLTREL \<Longrightarrow>
      new_entry d ri s l p e = \<lparr>d_tag = of_nat DT_PLTREL, d_ptr = of_nat (dt_REL (\<not> ri_plt_rela ri))\<rparr>"
    and "p = Some q \<Longrightarrow> sh_type q = (if ri_plt_rela ri then SHT_REL else SHT_RELA) \<Longrightarrow> d_tag e = of_nat DT_PLTRELSZ \<Longrightarrow>
      new_entry d ri s l p e = \<lparr>d_tag = of_nat DT_PLTRELSZ, d_ptr = sh_size q\<rparr>"
  using assms
  by (auto simp: new_entry_def rel_dyn_entry_def plt_dyn_entry_def Let_def dt_names dyn_eq_iff elf_consts split: option.splits)

lemma update_dynamic_rel_reads:
  assumes r: "update_ready dt_num d ri s l p"
  shows "\<exists>d'. update_dynamic_rel dt_num d ri = Some (0, d')
    \<and> (\<forall>e \<in> set (dyn_table d). \<forall>t < 24. d_tag (new_entry d ri s l p e) = of_nat t \<longrightarrow>
         info d' t = narrow_val d (d_ptr (new_entry d ri s l p e)) \<and> dynamic_info_is_set d' t)
    \<and> (\<forall>t < 24. of_nat t \<notin> (\<lambda>e. d_tag (new_entry d ri s l p e)) ` set (dyn_table d) \<longrightarrow> \<not> dynamic_info_is_set d' t)"
proof -
  let ?es = "dyn_table d" and ?rela = "ri_reldyn_rela ri" and ?h = "new_entry d ri s l p" and ?c = "ei_class (ehdr d)"
  let ?conv = "sh_type s = (if ?rela then SHT_REL else SHT_RELA)" and ?f = "\<lambda>e. stored_entry dt_num ?c (new_entry d ri s l p e) e"
  note rr = r [unfolded update_ready_def Let_def]
  have num: "24 \<le> dt_num" "dt_num \<le> 50" and one: "one_dynamic d" and dist: "distinct (map d_tag ?es)"
    using rr by simp_all
  obtain d1 where d1: "dyn_ok d1" "dyn_frame d d1" "update_dynamic_rel dt_num d ri = map_option (Pair 0) (read_dynamic dt_num d1)"
      "dyn_table d1 = map ?f ?es"
    using update_dynamic_rel_table [OF r] by blast
  have "one_dynamic d1" using one dyn_frame_fields [OF d1(2)] by (simp add: one_dynamic_def)
  note rd = read_dynamic_table [OF d1(1) this, of dt_num]
  let ?init = "d1\<lparr>info := \<lambda>_. 0, info_set_mask := 0\<rparr>"
  let ?d = "fold (read_dyn_entry dt_num) (map ?f ?es) ?init"
  have tag_h: "d_tag (?h e) = rename_tag ?rela ?conv (d_tag e)" for e
    by (cases p) (simp_all add: new_entry_def plt_dyn_entry_tag rel_dyn_entry_tag)
  have unst: "rename_tag ?rela ?conv t = t" if "\<not> stored_tag dt_num t" for t
  proof -
    have "(u :: u64) < of_nat dt_num" if "u < 24" for u using that num by (simp add: word_less_nat_alt unat_of_nat)
    from this [of 7] this [of 8] this [of 9] this [of 17] this [of 18] this [of 19] that show ?thesis
      by (auto simp: stored_tag_def rename_tag_def rel_dyn_entry_def Let_def dt_names)
  qed
  have tag_f: "d_tag (?f e) = d_tag (?h e)" for e
    using unst [of "d_tag e"] rename_tag_stored [OF num, of ?rela ?conv "d_tag e"]
    by (auto simp: stored_entry_def stored_tag_narrow [OF num(2)] tag_h)
  have "inj_on (rename_tag ?rela ?conv) (d_tag ` set ?es)"
    using rr by (intro rename_tag_inj) (auto simp: rel_tags_def)
  then have df: "distinct (map d_tag (map ?f ?es))"
    using dist by (simp add: tag_f tag_h comp_def distinct_map comp_inj_on [unfolded comp_def])
  have small: "(of_nat t :: u64) < of_nat dt_num" "unat (of_nat t :: u64) = t" "(of_nat t :: u64) < 50" if "t < 24" for t
    using that num by (simp_all add: word_less_nat_alt unat_of_nat)
  have is_set: "dynamic_info_is_set ?d t \<longleftrightarrow> bit (info_set_mask ?d) t" if "t < 24" for t
    using that by (simp add: dynamic_info_is_set_def bit_iff_and_push_bit_not_eq_0)
  have "info ?d t = narrow_val d (d_ptr (?h e)) \<and> dynamic_info_is_set ?d t"
    if "e \<in> set ?es" "t < 24" "d_tag (?h e) = of_nat t" for e t
  proof -
    have "stored_tag dt_num (d_tag (?h e))" using that(3) small [OF that(2)] by (simp add: stored_tag_def)
    then have "d_ptr (?f e) = narrow_val d (d_ptr (?h e))" by (simp add: stored_entry_def narrow_dyn_ptr)
    then show ?thesis
      using fold_read_tag [OF df _ num(2), of "?f e" ?init] that small [OF that(2)] is_set [OF that(2)] by (simp add: tag_f)
  qed
  moreover have "\<not> dynamic_info_is_set ?d t" if "t < 24" "of_nat t \<notin> (\<lambda>e. d_tag (?h e)) ` set ?es" for t
    using fold_read_absent [of "of_nat t" "map ?f ?es" dt_num ?init] that small [OF that(1)] is_set [OF that(1)]
    by (simp add: tag_f image_image)
  ultimately show ?thesis using d1(3) rd d1(4) by auto
qed


section \<open>The sections that are found\<close>

lemma touch_hdr [simp]: "shdr (touch d a) = shdr d" "info (touch d a) = info d"
  by (simp_all add: touch_def split: option.split)

definition sec_type_is :: "dso \<Rightarrow> bool \<Rightarrow> int \<Rightarrow> bool" where
  "sec_type_is d rela i \<longleftrightarrow> (\<exists>s. sec_hdr d i = Some s \<and> sh_type s = (if rela then SHT_RELA else SHT_REL))"

definition sec_starts :: "dso \<Rightarrow> int \<Rightarrow> u64 \<Rightarrow> bool" where
  "sec_starts d i a \<longleftrightarrow> (\<exists>s. sec_hdr d i = Some s \<and> sh_addr s = a)"

definition sec_ends :: "dso \<Rightarrow> int \<Rightarrow> u64 \<Rightarrow> bool" where
  "sec_ends d i a \<longleftrightarrow> (\<exists>s. sec_hdr d i = Some s \<and> sh_addr s + sh_size s = a)"

lemmas sec_is_defs = sec_type_is_def sec_starts_def sec_ends_def sec_hdr_def

lemma plt_section_found:
  assumes "wf_dso d" and "plt_section d a z = Some (r, d')"
  shows "wf_dso d' \<and> shdr d' = shdr d \<and> (\<forall>f. r = Some f \<longrightarrow> sec_starts d (int f) a \<and> sec_ends d (int f) z
     \<and> sec_type_is d (info d DT_PLTREL = of_nat DT_RELA) (int f))"
  using assms
  by (auto simp: plt_section_def addr_to_sec_eq bind_eq_Some sec_is_defs split: option.splits if_splits)

lemma dyn_sections_found:
  assumes "wf_dso d" and "dyn_sections d rela a z = Some (r, d')"
  shows "wf_dso d' \<and> shdr d' = shdr d \<and> (\<forall>f l. r = Some (f, l) \<longrightarrow> a = z \<and> f = 0 \<and> l = 0
     \<or> sec_starts d f a \<and> sec_ends d l z \<and> (\<forall>i. f \<le> i \<and> i \<le> l \<longrightarrow> sec_type_is d rela i))"
proof -
  have type: "sec_type_is d rela i" if "nth_opt (shdr d) l = Some sh" "int f \<le> i" "i \<le> int l"
      "list_all (\<lambda>i. sh_type (shdr d ! i) = (if rela then SHT_RELA else SHT_REL)) [f..<Suc l]" for f l i sh
  proof -
    have "nat i < length (shdr d)" "nat i \<in> {f..<Suc l}" using that(1-3) by (auto simp: nth_opt_def split: if_splits)
    then show ?thesis using that(2,4) unfolding list_all_iff set_upt by (auto simp: sec_is_defs nth_opt_def)
  qed
  have "a = z \<and> f = 0 \<and> l = 0 \<or> sec_starts d f a \<and> sec_ends d l z \<and> (\<forall>i. f \<le> i \<and> i \<le> l \<longrightarrow> sec_type_is d rela i)"
    if r: "r = Some (f, l)" for f l
  proof (cases "a = z")
    case False
    then obtain m n s t where mn: "f = int m" "l = int n" "nth_opt (shdr d) m = Some s" "nth_opt (shdr d) n = Some t"
        "sh_addr s = a" "sh_addr t + sh_size t = z"
        "list_all (\<lambda>i. sh_type (shdr d ! i) = (if rela then SHT_RELA else SHT_REL)) [m..<Suc n]"
      using assms r
      by (simp add: dyn_sections_def addr_to_sec_eq bind_eq_Some split: option.splits if_splits del: upt_Suc) blast+
    then show ?thesis using type [OF mn(4) _ _ mn(7)] by (auto simp: sec_starts_def sec_ends_def sec_hdr_def)
  qed (use assms r in \<open>simp add: dyn_sections_def\<close>)
  moreover have "wf_dso d' \<and> shdr d' = shdr d"
    using assms by (auto simp: dyn_sections_def addr_to_sec_eq bind_eq_Some split: option.splits if_splits)
  ultimately show ?thesis by blast
qed

text \<open>What is promised of the result.\<close>

definition found_ok :: "dso \<Rightarrow> reloc_info \<Rightarrow> bool" where
  "found_ok d ri \<longleftrightarrow> (let rela = ri_reldyn_rela ri; start = info d (dt_REL rela); stop = start + info d (dt_RELSZ rela) in
     (ri_first ri \<noteq> 0 \<longrightarrow> sec_starts d (ri_first ri) start
        \<and> (\<forall>i. ri_first ri \<le> i \<and> i \<le> ri_last ri \<longrightarrow> sec_type_is d rela i)
        \<and> sec_ends d (if ri_overlap ri then ri_last ri + 1 else ri_last ri) stop)
     \<and> (ri_plt ri \<noteq> 0 \<longrightarrow> sec_starts d (ri_plt ri) (info d DT_JMPREL)
        \<and> sec_ends d (ri_plt ri) (info d DT_JMPREL + info d DT_PLTRELSZ) \<and> sec_type_is d (ri_plt_rela ri) (ri_plt ri)))"

text \<open>The handlers of a target that only look for relocations.\<close>

definition only_looks :: "pl_arch \<Rightarrow> bool" where
  "only_looks A \<longleftrightarrow> (\<forall>d f l n d'. wf_dso d \<longrightarrow> need_rel_to_rela A d f l = Some (n, d') \<longrightarrow> wf_dso d' \<and> shdr d' = shdr d)"

lemma find_plt_found:
  assumes "wf_dso d" and need: "only_looks A" and "find_plt A a z ri d = Some (rc, ri', d')"
  shows "wf_dso d' \<and> shdr d' = shdr d \<and> (rc = 1 \<or> rc = 0 \<and> ri_reldyn_rela ri' = ri_reldyn_rela ri
      \<and> ri_first ri' = ri_first ri \<and> sec_starts d (ri_plt ri') a \<and> sec_ends d (ri_plt ri') z
      \<and> sec_type_is d (ri_plt_rela ri') (ri_plt ri'))"
proof -
  obtain p d1 where d1: "plt_section d a z = Some (p, d1)" using assms(3) by (auto simp: find_plt_def bind_eq_Some)
  note pf = plt_section_found [OF assms(1) this]
  show ?thesis
  proof (cases p)
    case None
    then show ?thesis using assms(3) d1 pf by (simp add: find_plt_def)
  next
    case (Some f)
    then obtain sh where sh: "nth_opt (shdr d1) f = Some sh" using assms(3) d1 by (auto simp: find_plt_def bind_eq_Some)
    then have "sec_hdr d (int f) = Some sh" using pf by (simp add: sec_hdr_def)
    moreover have "sec_type_is d (info d DT_PLTREL = of_nat DT_RELA) (int f)" using pf Some by simp
    ultimately have "sec_type_is d (sh_type sh = SHT_RELA) (int f)"
      by (auto simp: sec_type_is_def elf_consts split: if_splits)
    moreover have "find_plt A a z ri d = (let ri = ri\<lparr>ri_plt := int f, ri_plt_rela := (sh_type sh = SHT_RELA)\<rparr> in
        if sh_type sh = SHT_REL then do {
           (need, d) \<leftarrow> need_rel_to_rela A d1 f f;
           Some (0, if need \<noteq> 0 then ri\<lparr>ri_rel_to_rela_plt := True\<rparr> else ri, d)
         } else Some (0, ri, d1))"
      unfolding find_plt_def d1 by (simp add: Some sh)
    then have step: "(let ri = ri\<lparr>ri_plt := int f, ri_plt_rela := (sh_type sh = SHT_RELA)\<rparr> in
        if sh_type sh = SHT_REL then do {
           (need, d) \<leftarrow> need_rel_to_rela A d1 f f;
           Some (0, if need \<noteq> 0 then ri\<lparr>ri_rel_to_rela_plt := True\<rparr> else ri, d)
         } else Some (0, ri, d1)) = Some (rc, ri', d')"
      using assms(3) by simp
    have "wf_dso d' \<and> shdr d' = shdr d1 \<and> rc = 0 \<and> ri_plt ri' = int f \<and> ri_plt_rela ri' = (sh_type sh = SHT_RELA)
        \<and> ri_reldyn_rela ri' = ri_reldyn_rela ri \<and> ri_first ri' = ri_first ri"
    proof (cases "sh_type sh = SHT_REL")
      case True
      then obtain n where n: "need_rel_to_rela A d1 f f = Some (n, d')"
        using step unfolding Let_def if_P [OF True] by (cases "need_rel_to_rela A d1 f f") auto
      then show ?thesis using step True pf need [unfolded only_looks_def, rule_format, OF _ n] by (auto simp: Let_def split: if_splits)
    next
      case False
      then show ?thesis using step pf by (auto simp: Let_def)
    qed
    ultimately show ?thesis using pf Some by simp
  qed
qed

lemma find_rel_found:
  assumes "wf_dso d" and need: "only_looks A" and "find_rel A a z pa pz ri d = Some (rc, ri', d')" and "ri_first ri = 0"
  shows "shdr d' = shdr d \<and> (rc = 1 \<or> rc = 0 \<and> ri_reldyn_rela ri' = ri_reldyn_rela ri \<and> ri_plt ri' = ri_plt ri \<and> ri_plt_rela ri' = ri_plt_rela ri
      \<and> (ri_first ri' \<noteq> 0 \<longrightarrow> sec_starts d (ri_first ri') a
           \<and> (\<forall>i. ri_first ri' \<le> i \<and> i \<le> ri_last ri' \<longrightarrow> sec_type_is d (ri_reldyn_rela ri) i)
           \<and> sec_ends d (if ri_overlap ri' then ri_last ri' + 1 else ri_last ri') z))"
proof (cases "a = 0 \<and> z = 0")
  case True
  then show ?thesis using assms(3,4) by (simp add: find_rel_def)
next
  case False
  then obtain p d1 where d1: "dyn_sections d (ri_reldyn_rela ri) a z = Some (p, d1)"
    using assms(3) by (auto simp: find_rel_def bind_eq_Some split: if_splits)
  note pf = dyn_sections_found [OF assms(1) this]
  show ?thesis
  proof (cases p)
    case None
    then show ?thesis using assms(3) d1 pf False by (simp add: find_rel_def)
  next
    case (Some fl)
    obtain f l where fl: "fl = (f, l)" by (cases fl)
    let ?over = "pa \<noteq> z \<and> pz = z"
    let ?ri = "ri\<lparr>ri_overlap := ?over, ri_first := f, ri_last := if ?over then l - 1 else l\<rparr>"
    consider "rc = 1" "d' = d1" | "rc = 0" "d' = d1" "ri' = ri\<lparr>ri_overlap := True\<rparr>"
      | b where "rc = 0" "ri' = (if b then ?ri\<lparr>ri_rel_to_rela := True\<rparr> else ?ri)" "shdr d' = shdr d1"
    proof -
      have u: "ri_reldyn_rela (ri\<lparr>ri_overlap := x, ri_first := y, ri_last := w\<rparr>) = ri_reldyn_rela ri" for x y w by simp
      have r: "find_rel A a z pa pz ri d = (if pa \<noteq> z \<and> pz \<noteq> z \<and> l + 1 \<noteq> ri_plt ri then Some (1, ri, d1)
          else if pa = a \<and> pz = z then Some (0, ri\<lparr>ri_overlap := True\<rparr>, d1)
          else if \<not> ri_reldyn_rela ri \<and> f \<noteq> 0 then do {
            (need, d) \<leftarrow> need_rel_to_rela A d1 (nat f) (nat (if ?over then l - 1 else l));
            Some (0, if need \<noteq> 0 then ?ri\<lparr>ri_rel_to_rela := True\<rparr> else ?ri, d)
          } else Some (0, ?ri, d1))"
        unfolding find_rel_def if_not_P [OF False] d1 Some fl by (simp only: bind.bind_lunit prod.case option.case Let_def u)
      have w: "shdr d2 = shdr d1" if "need_rel_to_rela A d1 i j = Some (n, d2)" for i j n d2
        using that assms(2) pf unfolding only_looks_def by blast
      note step = assms(3) [unfolded r]
      consider "pa \<noteq> z \<and> pz \<noteq> z \<and> l + 1 \<noteq> ri_plt ri"
        | "\<not> (pa \<noteq> z \<and> pz \<noteq> z \<and> l + 1 \<noteq> ri_plt ri)" "pa = a \<and> pz = z"
        | "\<not> (pa \<noteq> z \<and> pz \<noteq> z \<and> l + 1 \<noteq> ri_plt ri)" "\<not> (pa = a \<and> pz = z)" "\<not> ri_reldyn_rela ri \<and> f \<noteq> 0"
        | "\<not> (pa \<noteq> z \<and> pz \<noteq> z \<and> l + 1 \<noteq> ri_plt ri)" "\<not> (pa = a \<and> pz = z)" "\<not> (\<not> ri_reldyn_rela ri \<and> f \<noteq> 0)"
        by blast
      then show thesis
      proof cases
        case 1
        have "rc = 1" "d' = d1" using step unfolding if_P [OF 1] by simp_all
        then show thesis by (rule that(1))
      next
        case 2
        have "rc = 0" "d' = d1" "ri' = ri\<lparr>ri_overlap := True\<rparr>" using step unfolding if_not_P [OF 2(1)] if_P [OF 2(2)] by simp_all
        then show thesis by (rule that(2))
      next
        case 3
        then obtain n d2 where n: "need_rel_to_rela A d1 (nat f) (nat (if ?over then l - 1 else l)) = Some (n, d2)"
            "Some (0, if n \<noteq> 0 then ?ri\<lparr>ri_rel_to_rela := True\<rparr> else ?ri, d2) = Some (rc, ri', d')"
          using step unfolding if_not_P [OF 3(1)] if_not_P [OF 3(2)] if_P [OF 3(3)] bind_eq_Some by (metis (no_types, lifting) case_prod_conv surj_pair)
        show thesis using n(2) w [OF n(1)] that(3) [of "n \<noteq> 0"] unfolding option.inject prod.inject by blast
      next
        case 4
        have "Some (0, ?ri, d1) = Some (rc, ri', d')" using step unfolding if_not_P [OF 4(1)] if_not_P [OF 4(2)] if_not_P [OF 4(3)] .
        then have "rc = 0" "d' = d1" "ri' = ?ri" unfolding option.inject prod.inject by blast+
        then show thesis using that(3) [of False] by simp
      qed
    qed
    then show ?thesis
      using pf Some fl assms(4) by cases (auto split: if_splits)
  qed
qed

text \<open>C36: when \<^verbatim>\<open>find_reloc_sections\<close> succeeds, the first section starts where the dynamic section says that the relocations
  start, all sections from the first to the last have the type that goes with the tag, the last one (or with an overlap the
  one behind it) ends where the relocations end, and the section for the PLT is the one \<^verbatim>\<open>DT_JMPREL\<close> and \<^verbatim>\<open>DT_PLTRELSZ\<close>
  describe. An object with both kinds of relocations is an error, and the section headers are never changed.\<close>

theorem find_reloc_sections_found:
  assumes "wf_dso d" and "only_looks A" and f: "find_reloc_sections A d = Some (rc, ri, d')"
  shows "shdr d' = shdr d \<and> (rc = 0 \<or> rc = 1)
    \<and> (dynamic_info_is_set d DT_REL \<and> dynamic_info_is_set d DT_RELA \<longrightarrow> rc = 1)
    \<and> (rc = 0 \<longrightarrow> ri_reldyn_rela ri = dynamic_info_is_set d DT_RELA \<and> found_ok d ri)"
proof (cases "dynamic_info_is_set d DT_REL \<and> dynamic_info_is_set d DT_RELA")
  case True
  then show ?thesis using f by (simp add: find_reloc_sections_def)
next
  case False
  define rela where "rela = dynamic_info_is_set d DT_RELA"
  let ?ri = "reloc_info_0\<lparr>ri_reldyn_rela := rela\<rparr>" and ?a = "info d (dt_REL rela)" and ?j = "info d DT_JMPREL"
  let ?z = "?a + info d (dt_RELSZ rela)" and ?jz = "?j + info d DT_PLTRELSZ"
  have start: "find_reloc_sections A d = (if ?j \<noteq> 0 then do {
           (rc, ri, d) \<leftarrow> find_plt A ?j ?jz ?ri d;
           if rc \<noteq> 0 then Some (1, ri, d) else find_rel A ?a ?z ?j ?jz ri d
         } else find_rel A ?a ?z ?z ?z ?ri d)"
    unfolding find_reloc_sections_def Let_def rela_def dt_REL_def dt_RELSZ_def if_not_P [OF False] ..
  show ?thesis
  proof (cases "?j = 0")
    case True
    then show ?thesis
      using find_rel_found [OF assms(1,2), of ?a ?z ?z ?z ?ri] f start False
      by (auto simp: found_ok_def Let_def rela_def reloc_info_0_def)
  next
    case j: False
    then obtain rc1 r1 d1 where d1: "find_plt A ?j ?jz ?ri d = Some (rc1, r1, d1)"
      using f start by (auto simp: bind_eq_Some)
    note pf = find_plt_found [OF assms(1,2) d1]
    have eq: "sec_starts d1 = sec_starts d" "sec_ends d1 = sec_ends d" "sec_type_is d1 = sec_type_is d"
      using pf by (simp_all add: sec_is_defs fun_eq_iff)
    show ?thesis
    proof (cases "rc1 = 0")
      case True
      have st: "find_rel A ?a ?z ?j ?jz r1 d1 = Some (rc, ri, d')" using f unfolding start d1 using True j by simp
      have r1: "ri_first r1 = 0" "ri_reldyn_rela r1 = rela" and w: "wf_dso d1" using pf True by (simp_all add: reloc_info_0_def)
      note fr = find_rel_found [OF w assms(2) st r1(1), unfolded eq r1(2)]
      have "found_ok d ri" if "rc = 0"
        using fr that pf True unfolding found_ok_def Let_def by simp
      then show ?thesis using fr pf False rela_def by auto
    next
      case False
      then show ?thesis using f start j d1 pf \<open>\<not> (dynamic_info_is_set d DT_REL \<and> dynamic_info_is_set d DT_RELA)\<close> by auto
    qed
  qed
qed

section \<open>The conversion of a section\<close>

text \<open>Two states of an object that differ in the cache of \<^verbatim>\<open>addr_to_sec\<close> only.\<close>

definition cache_eq :: "dso \<Rightarrow> dso \<Rightarrow> bool" where
  "cache_eq d e \<longleftrightarrow> wf_dso d \<and> wf_dso e \<and> e\<lparr>lastscn := 0\<rparr> = d\<lparr>lastscn := 0\<rparr>"

lemma cache_eq_refl [intro]: "wf_dso d \<Longrightarrow> cache_eq d d"
  by (simp add: cache_eq_def)

lemma cache_eq_touch [intro]: "cache_eq d e \<Longrightarrow> cache_eq d (touch e a)"
  by (simp add: cache_eq_def touch_def [of e] split: option.split) (metis option.simps(5) touch_def wf_touch)

lemma cache_eq_fields:
  assumes "cache_eq d e"
  shows "scn e = scn d" "shdr e = shdr d" "ehdr e = ehdr d" "host_lsb e = host_lsb d" "wf_dso e"
proof -
  have "e\<lparr>lastscn := 0\<rparr> = d\<lparr>lastscn := 0\<rparr>" and w: "wf_dso e" using assms by (simp_all add: cache_eq_def)
  then have h: "f (e\<lparr>lastscn := 0\<rparr>) = f (d\<lparr>lastscn := 0\<rparr>)" for f :: "dso \<Rightarrow> 'x" by simp
  show "scn e = scn d" "shdr e = shdr d" "ehdr e = ehdr d" "host_lsb e = host_lsb d"
    using h [of scn] h [of shdr] h [of ehdr] h [of host_lsb] by simp_all
  show "wf_dso e" by (rule w)
qed

lemma cache_eq_block: "cache_eq d e \<Longrightarrow> block_at e i k = block_at d i k"
  by (simp add: block_at_def cache_eq_fields)

context mem_cell
begin

lemma read_cache:
  assumes "cache_eq d e"
  shows "uread rd ld e a = map_option (\<lambda>(v, _). (v, touch e a)) (uread rd ld d a)"
proof -
  note f = cache_eq_fields [OF assms]
  have "locate e a = locate d a" "deref e p = deref d p" for p
    unfolding locate_def sec_of_def deref_def f by simp_all
  then show ?thesis
    using assms f by (auto simp: cache_eq_def read_eq option.map_comp comp_def map_option_bind intro!: Option.bind_cong
        split: option.split)
qed

end

lemma cache_eq_read:
  assumes "cache_eq d e"
  shows "read_ule32 e a = map_option (\<lambda>(v, _). (v, touch e a)) (read_ule32 d a)"
    and "read_une32 e a = map_option (\<lambda>(v, _). (v, touch e a)) (read_une32 d a)"
  using mem_cell.read_cache [OF cell_ne32 assms] mle32.read_cache [OF assms]
  by (simp_all add: read_ne_unfold read_ule32_def cache_eq_fields [OF assms])

lemma cache_eq_reads:
  "cache_eq d e \<Longrightarrow> read_ule32 e a = Some (v, e') \<Longrightarrow> cache_eq d e'"
  "cache_eq d e \<Longrightarrow> read_une32 e a = Some (v, e') \<Longrightarrow> cache_eq d e'"
  by (auto simp: cache_eq_read)

lemma only_looks_scan:
  assumes step: "\<And>d e n k ndx rc e'. cache_eq d e \<Longrightarrow> f n k ndx e = Some (rc, e') \<Longrightarrow> cache_eq d e'"
    and need: "\<And>d a l. need_rel_to_rela A d a l = for_ndx (\<lambda>n d. do {
        sc \<leftarrow> nth_opt (scn d) n;
        for_ndx (\<lambda>k d. do {
          b \<leftarrow> block_at d n k;
          for_ndx (\<lambda>ndx d. f n k ndx d) 0 (unat (d_size b) div 8) d
        }) 0 (length (scn_data sc)) d }) a (Suc l - a) d"
  shows "only_looks A"
proof -
  have blocks: "cache_eq d e'" if "cache_eq d e" "for_ndx (\<lambda>k d. do { b \<leftarrow> block_at d n k;
        for_ndx (\<lambda>ndx d. f n k ndx d) 0 (unat (d_size b) div 8) d }) 0 m e = Some (rc, e')" for d e n m rc e'
    by (rule for_ndx_invariant [of "cache_eq d", OF _ that])
      (auto simp: bind_eq_Some intro: step for_ndx_invariant [of "cache_eq d"])
  have "cache_eq d d'" if "wf_dso d" "need_rel_to_rela A d a l = Some (rc, d')" for d a l rc d'
    by (rule for_ndx_invariant [of "cache_eq d", OF _ _ that(2) [unfolded need]])
      (use that(1) in \<open>auto simp: bind_eq_Some intro: blocks\<close>)
  then show ?thesis unfolding only_looks_def by (blast dest: cache_eq_fields(2,5))
qed

lemma only_looks_i386: "only_looks plarch_i386"
proof (rule only_looks_scan [of i386_rel_needs_rela])
  show "cache_eq d e'" if "cache_eq d e" "i386_rel_needs_rela n k ndx e = Some (rc, e')" for d e n k ndx rc e'
    using that(2) cache_eq_reads(1) [OF that(1)] that(1)
    unfolding i386_rel_needs_rela_def Let_def bind_eq_Some
    by (elim exE conjE) (simp split: if_splits add: bind_eq_Some; blast)
qed (simp add: plarch_i386_def i386_need_rel_to_rela_def)

lemma only_looks_arm: "only_looks plarch_arm"
proof (rule only_looks_scan [of arm_rel_needs_rela])
  show "cache_eq d e'" if "cache_eq d e" "arm_rel_needs_rela n k ndx e = Some (rc, e')" for d e n k ndx rc e'
    using that(2) cache_eq_reads(2) [OF that(1)] that(1)
    unfolding arm_rel_needs_rela_def Let_def bind_eq_Some
    by (elim exE conjE) (simp split: if_splits add: bind_eq_Some; blast)
qed (simp add: plarch_arm_def arm_need_rel_to_rela_def)

text \<open>The loop of the conversions over the entries of a table: \<open>conv\<close> may look at the object, and stores nothing in it.\<close>

locale entry_converter = entry_table narrow get upd
  for narrow :: "u8 \<Rightarrow> 'b \<Rightarrow> 'b" and get upd +
  fixes src :: "dso \<Rightarrow> nat \<Rightarrow> 'a option option"
    and conv :: "dso \<Rightarrow> 'a \<Rightarrow> 'b \<Rightarrow> (int \<times> 'b \<times> dso) option"
  assumes src_cache: "cache_eq d e \<Longrightarrow> src e j = src d j"
    and conv_cache: "cache_eq d e \<Longrightarrow> conv e x y = Some (rc, z, e') \<Longrightarrow> cache_eq d e' \<and> (\<exists>d'. conv d x y = Some (rc, z, d'))"
begin

lemma convert_entries_get:
  assumes "cache_eq d e" and "wf_block b" and "convert_entries src conv (upd c l) ndx n y b e = Some (0, b', e')"
  shows "cache_eq d e' \<and> block_shape b' = block_shape b \<and> (\<forall>j < ndx. get c l b' j = get c l b j)
    \<and> (\<forall>j. ndx \<le> j \<and> j < ndx + n \<longrightarrow> (\<exists>x u z d'. src d j = Some (Some x) \<and> conv d x u = Some (0, z, d')
          \<and> get c l b' j = Some (Some (narrow c z))))"
  using assms
proof (induction n arbitrary: ndx y b e)
  case (Suc n)
  obtain x where x: "src d ndx = Some (Some x)"
    using Suc.prems(1,3) by (auto simp: src_cache bind_eq_Some split: option.splits)
  moreover obtain z e1 where z: "conv e x y = Some (0, z, e1)"
    using Suc.prems(1,3) x by (auto simp: src_cache bind_eq_Some split: if_splits)
  moreover obtain rc b1 where b1: "upd c l b ndx z = Some (rc, b1)" "rc \<noteq> 0"
      "convert_entries src conv (upd c l) (Suc ndx) n z b1 e1 = Some (0, b', e')"
    using Suc.prems(1,3) x z by (auto simp: src_cache bind_eq_Some split: if_splits)
  moreover have e1: "cache_eq d e1" "\<exists>d'. conv d x y = Some (0, z, d')" using conv_cache [OF Suc.prems(1) z] by auto
  moreover have s1: "block_shape b1 = block_shape b" "rc = 1" using upd_shape [OF Suc.prems(2) b1(1)] b1(2) by auto
  moreover have w1: "wf_block b1" by (rule upd_wf [OF Suc.prems(2) b1(1)])
  moreover note IH = Suc.IH [OF e1(1) w1 b1(3)]
  moreover have g: "get c l b1 j = (if j = ndx then Some (Some (narrow c z)) else get c l b j)" for j
    using upd_lookup [OF Suc.prems(2)] b1(1) s1(2) by blast
  ultimately have "\<exists>x u z d'. src d j = Some (Some x) \<and> conv d x u = Some (0, z, d') \<and> get c l b' j = Some (Some (narrow c z))"
    if "ndx \<le> j" "j < ndx + Suc n" for j
    using that by (cases "j = ndx") auto
  then show ?case using IH s1 g by simp
qed auto

lemma convert_entries_total:
  assumes "cache_eq d e" and "wf_block b" and "\<And>j. ndx \<le> j \<Longrightarrow> j < ndx + n \<Longrightarrow> \<exists>r. get c l b j = Some (Some r)"
    and "\<And>j. ndx \<le> j \<Longrightarrow> j < ndx + n \<Longrightarrow> \<exists>x. src d j = Some (Some x) \<and> (\<forall>u. \<exists>z d'. conv d x u = Some (0, z, d'))"
  shows "\<exists>b' e'. convert_entries src conv (upd c l) ndx n y b e = Some (0, b', e')"
  using assms
proof (induction n arbitrary: ndx y b e)
  case (Suc n)
  obtain x z d1 where x: "src d ndx = Some (Some x)" and z: "conv d x y = Some (0, z, d1)"
    using Suc.prems(4) [of ndx] by (meson le_refl less_add_same_cancel1 zero_less_Suc)
  have "cache_eq e d" using Suc.prems(1) by (simp add: cache_eq_def)
  then obtain e1 where e1: "conv e x y = Some (0, z, e1)" using conv_cache [OF _ z] by blast
  obtain b1 where b1: "upd c l b ndx z = Some (1, b1)" using Suc.prems(3) [of ndx] get_upd [OF Suc.prems(2)] by (meson le_refl less_add_same_cancel1 zero_less_Suc)
  have "\<exists>b' e'. convert_entries src conv (upd c l) (Suc ndx) n z b1 e1 = Some (0, b', e')"
    by (rule Suc.IH) (use conv_cache [OF Suc.prems(1) e1] upd_wf [OF Suc.prems(2) b1] upd_other [OF Suc.prems(2) b1] Suc.prems(3,4) in auto)
  then show ?case using x e1 b1 Suc.prems(1) by (simp add: src_cache)
qed simp

end

lemma i386_rel_to_rela_cache:
  assumes "cache_eq d e" and "i386_rel_to_rela e x y = Some (rc, z, e')"
  shows "cache_eq d e' \<and> (\<exists>d'. i386_rel_to_rela d x y = Some (rc, z, d'))"
  using assms(2) cache_eq_reads(1) [OF assms(1), of "r_offset x"] assms(1)
  unfolding i386_rel_to_rela_def Let_def
  by (auto simp: bind_eq_Some cache_eq_read(1) [OF assms(1)] split: if_splits)

lemma arm_rel_to_rela_cache:
  assumes "cache_eq d e" and "arm_rel_to_rela e x y = Some (rc, z, e')"
  shows "cache_eq d e' \<and> (\<exists>d'. arm_rel_to_rela d x y = Some (rc, z, d'))"
  using assms(2) cache_eq_reads(2) [OF assms(1), of "r_offset x"] assms(1)
  unfolding arm_rel_to_rela_def Let_def
  by (auto simp: bind_eq_Some cache_eq_read(2) [OF assms(1)] split: if_splits)

lemma sec_rel_cache: "cache_eq d e \<Longrightarrow> sec_rel i e j = sec_rel i d j"
  by (simp add: sec_rel_def cache_eq_block cache_eq_fields)

interpretation i386_conv: entry_converter narrow_rela gelfx_getrela gelfx_update_rela "sec_rel i" i386_rel_to_rela for i
  by unfold_locales (rule sec_rel_cache i386_rel_to_rela_cache; assumption)+

interpretation arm_conv: entry_converter narrow_rela gelfx_getrela gelfx_update_rela "sec_rel i" arm_rel_to_rela for i
  by unfold_locales (rule sec_rel_cache arm_rel_to_rela_cache; assumption)+

text \<open>The targets with REL sections that can be converted.\<close>

definition rel_targets :: "pl_arch set" where
  "rel_targets = {plarch_i386, plarch_arm}"

lemma rel_targets_convert:
  "A \<in> rel_targets \<Longrightarrow> entry_converter narrow_rela gelfx_getrela gelfx_update_rela (sec_rel i) (rel_to_rela A)"
  using i386_conv.entry_converter_axioms arm_conv.entry_converter_axioms
  by (auto simp: rel_targets_def plarch_i386_def plarch_arm_def)

lemma getrela_defined:
  assumes "wf_block b" and "d_type b = ELF_T_RELA" and "d_buf b \<noteq> None" and "(j + 1) * 12 \<le> unat (d_size b)"
  shows "\<exists>r. gelfx_getrela ELFCLASS32 l b j = Some (Some r)"
proof -
  obtain y where y: "d_buf b = Some y" "length y = unat (d_size b)" using assms(1,3) by (auto simp: wf_block_def)
  have "\<exists>v. peek (host_ld32 l) (j * 12 + k) y = Some v" if "k + 4 \<le> 12" for k
    using that y assms(4) buf_codec.peek_defined [OF host_codec32, of "j * 12 + k" y] by fastforce
  from this [of 0] this [of 4] this [of 8] show ?thesis using y assms(2,4) by (auto simp: gelfx_getrela_def)
qed

lemma max_ndx_exact:
  assumes "unat (d_size b) = n * k" and "unat (sh_entsize s) = k" and "k > 0" and "n < 2 ^ 31"
  shows "max_ndx b s = Some n"
proof -
  have "sh_entsize s \<noteq> 0" using assms(2,3) by auto
  moreover have "unat (d_size b div sh_entsize s) = n" using assms by (simp add: unat_div_distrib)
  then have "(ucast (d_size b div sh_entsize s) :: u32) = of_nat n" by (metis of_nat_unat)
  moreover have "sint (of_nat n :: u32) = int n" using assms(4) by (simp add: signed_of_nat signed_take_bit_int_eq_self)
  ultimately show ?thesis by (simp add: max_ndx_def)
qed

text \<open>A section of REL relocations of a 32-bit object, each of which can be converted.\<close>

definition convertible :: "pl_arch \<Rightarrow> dso \<Rightarrow> nat \<Rightarrow> nat \<Rightarrow> bool" where
  "convertible A d i n \<longleftrightarrow> wf_dso d \<and> ei_class (ehdr d) = ELFCLASS32 \<and> n < 0x8000000
     \<and> (\<exists>sh b. whole_block d i = Some (sh, b) \<and> unat (d_size b) = n * 8 \<and> sh_entsize sh = 8)
     \<and> (\<forall>j < n. \<exists>r. sec_rel i d j = Some (Some r) \<and> (\<forall>u. \<exists>z e. rel_to_rela A d r u = Some (0, z, e)))"

text \<open>C37: \<^verbatim>\<open>convert_rel_to_rela\<close> converts every REL section of an i386 or ARM object whose relocations can be converted: it returns 0,
  entry \<open>j\<close> of the new section is what the handler \<^verbatim>\<open>rel_to_rela\<close> of the target makes of entry \<open>j\<close> of the old one, the header has the type and entry
  size of RELA, and no other section changes.\<close>

theorem convert_rel_to_rela_32:
  assumes "A \<in> rel_targets" and "convertible A d i n"
  shows "\<exists>d'. convert_rel_to_rela fresh y A d i = Some (0, d')
    \<and> (\<forall>j < n. \<exists>r u z e. sec_rel i d j = Some (Some r) \<and> rel_to_rela A d r u = Some (0, z, e)
         \<and> sec_rela i d' j = Some (Some (narrow_rela ELFCLASS32 z)))
    \<and> sh_type (shdr d' ! i) = SHT_RELA \<and> sh_entsize (shdr d' ! i) = 12
    \<and> (\<forall>k. k \<noteq> i \<longrightarrow> scn d' ! k = scn d ! k \<and> shdr d' ! k = shdr d ! k)"
proof -
  obtain sh b where w: "wf_dso d" and c: "ei_class (ehdr d) = ELFCLASS32" and n: "n < 0x8000000"
    and b: "whole_block d i = Some (sh, b)" "unat (d_size b) = n * 8" "sh_entsize sh = 8"
    and ok: "\<And>j. j < n \<Longrightarrow> \<exists>r. sec_rel i d j = Some (Some r) \<and> (\<forall>u. \<exists>z e. rel_to_rela A d r u = Some (0, z, e))"
    using assms(2) by (auto simp: convertible_def)
  have i: "i < length (scn d)" "i < length (shdr d)" "length (scn_data (scn d ! i)) = 1"
    using b(1) by (auto simp: whole_block_def bind_eq_Some nth_opt_def split: if_splits)
  let ?sz = "d_size b div 2 * 3" and ?l = "host_lsb d"
  let ?b = "b\<lparr>d_size := ?sz, d_buf := Some (map fresh [0..<unat ?sz]), d_type := ELF_T_RELA\<rparr>"
  have sz: "unat ?sz = n * 12"
    using n by (simp add: unat_mult_lem [THEN iffD1] unat_div_distrib b(2) unat_word_ariths)
  have m: "max_ndx b sh = Some n" using n b by (intro max_ndx_exact [where k = 8]) simp_all
  have "d_off b = 0" using b(1) by (auto simp: whole_block_def bind_eq_Some split: if_splits)
  then have wb: "wf_block ?b" using n by (simp add: wf_block_def sz)
  have "\<exists>r. gelfx_getrela ELFCLASS32 ?l ?b j = Some (Some r)" if "j < n" for j
    using that by (intro getrela_defined [OF wb]) (simp_all add: sz)
  then obtain b' e where conv: "convert_entries (sec_rel i) (rel_to_rela A) (gelfx_update_rela ELFCLASS32 ?l) 0 n y ?b d = Some (0, b', e)"
    using entry_converter.convert_entries_total [OF rel_targets_convert [OF assms(1)], of d d ?b 0 n ELFCLASS32 ?l i y] ok w wb by fastforce
  note g = entry_converter.convert_entries_get [OF rel_targets_convert [OF assms(1)] cache_eq_refl [OF w] wb this]
  have e: "cache_eq d e" using g by blast
  note f = cache_eq_fields [OF e]
  let ?d = "set_block e i 0 b'"
  let ?d' = "?d\<lparr>shdr := (shdr ?d)[i := (shdr ?d ! i)\<lparr>sh_entsize := 12, sh_type := SHT_RELA\<rparr>]\<rparr>"
  have "convert_rel_to_rela fresh y A d i = Some (0, ?d')"
    using conv b(1) m by (simp add: convert_rel_to_rela_def c f Let_def set_block_def)
  moreover have "sec_rela i ?d' j = gelfx_getrela ELFCLASS32 ?l b' j" for j
    using i f c by (cases "scn_data (scn d ! i)") (simp_all add: sec_rela_def block_at_def nth_opt_def set_block_def)
  ultimately show ?thesis using g i f by (auto simp: set_block_def)
qed

definition sample_rel_block :: elf_data where
  "sample_rel_block = \<lparr>d_type = ELF_T_DYN, d_off = 0, d_size = 64,
     d_buf = Some (le64_bytes 17 @ le64_bytes 0x1000 @ le64_bytes 18 @ le64_bytes 32 @ le64_bytes 19 @ le64_bytes 16 @ replicate 16 0)\<rparr>"

text \<open>The sample object after its REL section 2 was converted to RELA, with the dynamic section of before.\<close>

definition sample_rel_dso :: dso where
  "sample_rel_dso = sample_dso\<lparr>
     scn := (scn sample_dso)[3 := \<lparr>scn_data = [sample_rel_block], scn_dirty = False\<rparr>],
     shdr := (shdr sample_dso)[2 := (shdr sample_dso ! 2)\<lparr>sh_type := SHT_RELA\<rparr>,
       3 := (shdr sample_dso ! 3)\<lparr>sh_size := 64, sh_entsize := 16\<rparr>],
     info := (\<lambda>_. 0)(17 := 0x1000, 18 := 32, 19 := 16)\<rparr>"

definition sample_rel_info :: reloc_info where
  "sample_rel_info = reloc_info_0\<lparr>ri_first := 2, ri_last := 2\<rparr>"

lemma sample_rel_table: "dyn_table sample_rel_dso = [\<lparr>d_tag = 17, d_ptr = 0x1000\<rparr>, \<lparr>d_tag = 18, d_ptr = 32\<rparr>, \<lparr>d_tag = 19, d_ptr = 16\<rparr>]"
  and sample_rel_max: "dyn_max sample_rel_dso = 4"
proof -
  have "[0..<4] = [0, 1, 2, 3 :: nat]" by code_simp
  moreover show m: "dyn_max sample_rel_dso = 4"
    by (simp add: dyn_max_def dyn_block_def sample_rel_dso_def sample_defs sample_rel_block_def dyn_entsize_def elf_consts)
  ultimately show "dyn_table sample_rel_dso = [\<lparr>d_tag = 17, d_ptr = 0x1000\<rparr>, \<lparr>d_tag = 18, d_ptr = 32\<rparr>, \<lparr>d_tag = 19, d_ptr = 16\<rparr>]"
    unfolding dyn_table_def dyn_slots_def m
    by (simp add: dso_getdyn_def block_at_def nth_opt_def sample_rel_dso_def sample_defs sample_rel_block_def
        gelfx_getdyn_def elf_consts peek_def host_ld64_def buf_read_defs le64_bytes_def DT_NULL_def)
qed

lemma sample_rel_ready:
  "update_ready 34 sample_rel_dso sample_rel_info (shdr sample_rel_dso ! 2) (shdr sample_rel_dso ! 2) None"
proof -
  have "dyn_ok sample_rel_dso"
    by (simp add: dyn_ok_def dyn_entsize_def dyn_block_def sample_rel_dso_def sample_defs sample_rel_block_def elf_consts wf_block_def)
  moreover have "one_dynamic sample_rel_dso"
    by (simp add: one_dynamic_def sample_rel_dso_def sample_upt sample_defs elf_consts)
  moreover have "sh_size (shdr sample_rel_dso ! dynamic sample_rel_dso) = d_size (dyn_block sample_rel_dso)"
    by (simp add: sample_rel_dso_def sample_defs sample_rel_block_def dyn_block_def)
  ultimately show ?thesis
    unfolding update_ready_def Let_def sample_rel_table sample_rel_max
    by (simp add: sample_rel_info_def reloc_info_0_def dt_names rel_fsize_def sec_hdr_def)
       (simp add: sample_rel_dso_def sample_defs nth_opt_def elf_consts)
qed


text \<open>The sample object with a dynamic section that describes section 2.\<close>

definition sample_find_dso :: dso where
  "sample_find_dso = sample_rel_dso\<lparr>info := (\<lambda>_. 0)(7 := 0x1000, 8 := 64), info_set_mask := push_bit 7 1\<rparr>"

theorem find_reloc_sections_found_witness:
  "\<exists>ri d'. find_reloc_sections plarch_i386 sample_find_dso = Some (0, ri, d') \<and> ri_first ri = 2 \<and> ri_last ri = 2 \<and> found_ok sample_find_dso ri"
proof -
  have w: "wf_dso sample_find_dso"
    by (simp add: wf_dso_def sample_find_dso_def sample_rel_dso_def sample_rel_block_def sample_upt sample_defs sec_disj_def sec_live_def
        RELOCATE_SCN_def elf_consts wf_block_def)
  have s: "sec_of sample_find_dso 0x1000 = Some 2" "sec_of sample_find_dso 0x103f = Some 2"
    by (simp_all add: sec_of_def sec_holds_def RELOCATE_SCN_def elf_consts sample_find_dso_def sample_rel_dso_def sample_defs)
  have i: "info sample_find_dso = (\<lambda>_. 0)(7 := 0x1000, 8 := 64)" "nth_opt (shdr sample_find_dso) 2 = Some (shdr sample_find_dso ! 2)"
     "sh_addr (shdr sample_find_dso ! 2) = 0x1000" "sh_size (shdr sample_find_dso ! 2) = 64" "sh_type (shdr sample_find_dso ! 2) = SHT_RELA"
    "dynamic_info_is_set sample_find_dso 7" "\<not> dynamic_info_is_set sample_find_dso 17"
    by (simp_all add: sample_find_dso_def sample_rel_dso_def sample_defs nth_opt_def dynamic_info_is_set_def)
  have "dyn_sections sample_find_dso True 0x1000 0x1040 = Some (Some (2, 2), touch (touch sample_find_dso 0x1000) 0x103f)"
    using w s by (simp add: dyn_sections_def addr_to_sec_eq i)
  then have f: "find_reloc_sections plarch_i386 sample_find_dso = Some (0, reloc_info_0\<lparr>ri_reldyn_rela := True, ri_overlap := False, ri_first := 2, ri_last := 2\<rparr>,
      touch (touch sample_find_dso 0x1000) 0x103f)"
    by (simp add: find_reloc_sections_def find_rel_def i dt_rel_defs Let_def)
  then show ?thesis
    using find_reloc_sections_found [OF w only_looks_i386 f] by auto
qed

text \<open>A 32-bit object whose section 1 has one relocation, of type \<^verbatim>\<open>R_386_RELATIVE\<close>, for the word at 0x1018.\<close>

definition sample_conv_dso :: dso where
  "sample_conv_dso = sample32_dso\<lparr>
     scn := (scn sample32_dso)[1 := \<lparr>scn_data = [\<lparr>d_type = ELF_T_REL, d_off = 0, d_size = 8, d_buf = Some (le32_bytes 0x1018 @ le32_bytes 8)\<rparr>],
       scn_dirty = False\<rparr>],
     shdr := (shdr sample32_dso)[1 := (shdr sample32_dso ! 1)\<lparr>sh_type := SHT_REL, sh_size := 8, sh_entsize := 8\<rparr>]\<rparr>"

lemma sample_conv_rel: "sec_rel 1 sample_conv_dso 0 = Some (Some (sample_rel 8 0x1018))"
  by (simp add: sec_rel_def sample_conv_dso_def sample32_dso_def sample_defs block_at_def nth_opt_def gelfx_getrel_def elf_consts peek_def
      host_ld32_def buf_read_defs le32_bytes_def sample_rel_def ELF32_R_SYM_def ELF32_R_TYPE_def GELF_R_INFO_def)

lemma sample_conv_wf: "wf_dso sample_conv_dso"
  by (simp add: wf_dso_def sample_upt sample_conv_dso_def sample32_dso_def sample_defs sec_disj_def sec_live_def RELOCATE_SCN_def
      elf_consts wf_block_def le32_bytes_def)

lemma sample_conv_rela: "\<exists>e. i386_rel_to_rela sample_conv_dso (sample_rel 8 0x1018) u = Some (0, \<lparr>ra_offset = 0x1018, ra_info = 8, ra_addend = 0\<rparr>, e)"
proof -
  have l: "locate sample_conv_dso 0x1018 = Some \<lparr>dp_sec = 2, dp_blk = 0, dp_off = 0x18, dp_type = ELF_T_BYTE\<rparr>"
    by (simp add: locate_def sec_of_def sec_holds_def RELOCATE_SCN_def elf_consts sample_conv_dso_def sample32_dso_def sample_defs)
  have "read_ule32 sample_conv_dso 0x1018 = Some (0, touch sample_conv_dso 0x1018)"
    unfolding read_ule32_def mle32.read_eq [OF sample_conv_wf] l
    by (simp add: deref_def nth_opt_def sample_conv_dso_def sample32_dso_def sample_defs elf_consts buf_read_defs)
  then show ?thesis
    by (simp add: i386_rel_to_rela_def sample_rel_def i386_addend_type_def GELF_R_TYPE_def r_386)
qed

lemma sample_conv_ready: "convertible plarch_i386 sample_conv_dso 1 1"
  using sample_conv_wf sample_conv_rel sample_conv_rela
  by (simp add: convertible_def plarch_i386_def) (fastforce simp: whole_block_def block_at_def nth_opt_def sample_conv_dso_def sample32_dso_def sample_defs elf_consts)

theorem convert_rel_to_rela_32_witness:
  "\<exists>d'. convert_rel_to_rela (\<lambda>_. 0xff) zero_rela plarch_i386 sample_conv_dso 1 = Some (0, d')
     \<and> sec_rela 1 d' 0 = Some (Some \<lparr>ra_offset = 0x1018, ra_info = 8, ra_addend = 0\<rparr>)"
proof -
  obtain d' r u z e where d': "convert_rel_to_rela (\<lambda>_. 0xff) zero_rela plarch_i386 sample_conv_dso 1 = Some (0, d')"
    and "sec_rel 1 sample_conv_dso 0 = Some (Some r)" "i386_rel_to_rela sample_conv_dso r u = Some (0, z, e)"
      "sec_rela 1 d' 0 = Some (Some (narrow_rela ELFCLASS32 z))"
    using convert_rel_to_rela_32 [OF _ sample_conv_ready, of "\<lambda>_. 0xff" zero_rela] by (auto simp: rel_targets_def plarch_i386_def)
  moreover from this have "z = \<lparr>ra_offset = 0x1018, ra_info = 8, ra_addend = 0\<rparr>"
    using sample_conv_rela [of u] sample_conv_rel by auto
  moreover have "narrow_rela ELFCLASS32 \<lparr>ra_offset = 0x1018, ra_info = 8, ra_addend = 0\<rparr> = \<lparr>ra_offset = 0x1018, ra_info = 8, ra_addend = 0\<rparr>"
    by (simp add: narrow_rela_def narrow_info_def GELF_R_INFO_def GELF_R_SYM_def GELF_R_TYPE_def)
  ultimately show ?thesis by metis
qed

end
