(* ===== verification/Checksum.thy ===== *)
theory Checksum
  imports SecMove Crc32 ArchX86_64
begin

text \<open>
  The checksum of an object: \<^verbatim>\<open>prepare_write_dso\<close> of \<^verbatim>\<open>src/dso.c\<close> and \<^verbatim>\<open>prelink_set_checksum\<close> of \<^verbatim>\<open>src/checksum.c\<close>.

  Two parts are arguments. \<open>fin\<close> is \<^verbatim>\<open>finalize_mdebug\<close> together with the test that there is an \<^verbatim>\<open>.mdebug\<close> section;
  \<open>xtof\<close> and \<open>xtom\<close> are \<^verbatim>\<open>gelf_xlatetof\<close> and \<^verbatim>\<open>gelf_xlatetom\<close> of libelf, which convert a block from the byte order of
  the host to that of the file and back. The copies of the headers in libelf are not visible in the model. A call of \<^verbatim>\<open>abort\<close>
  is \<^term>\<open>None\<close>.

  The lemmas: the checksum is the one of the loaded bytes with the entries for the checksum and the time of
  prelinking set to 0, so computing it again on the result gives the same checksum.
\<close>

unbundle bit_operations_syntax

section \<open>The state that is written\<close>

fun settle_symtabs :: "nat \<Rightarrow> nat \<Rightarrow> dso \<Rightarrow> dso option" where
  "settle_symtabs i 0 d = Some d"
| "settle_symtabs i (Suc n) d = do {
     sh \<leftarrow> nth_opt (shdr d) i;
     d \<leftarrow> (if sh_type sh = SHT_SYMTAB \<or> sh_type sh = SHT_DYNSYM then do {
             (_, d) \<leftarrow> set_stt_section_values d i;
             Some d
           } else Some d);
     settle_symtabs (Suc i) n d
   }"

definition prepare_write_dso :: "(dso \<Rightarrow> (int \<times> dso) option) \<Rightarrow> bool \<Rightarrow> pl_arch \<Rightarrow> dso \<Rightarrow> (int \<times> dso) option" where
  "prepare_write_dso fin allow_bad_textrel A d = do {
     rc \<leftarrow> check_dso allow_bad_textrel A d;
     if rc \<noteq> 0 then Some (1, d)
     else do {
       (rc, d) \<leftarrow> fin d;
       if rc \<noteq> 0 then Some (1, d)
       else do {
         d \<leftarrow> settle_symtabs 0 (unat (e_shnum (ehdr d))) d;
         Some (0, d)
       }
     }
   }"

section \<open>The checksum\<close>

definition block_bytes :: "elf_data \<Rightarrow> u8 list option" where
  "block_bytes b = (if d_size b = 0 then Some []
     else do { buf \<leftarrow> d_buf b; _ \<leftarrow> guard_opt (unat (d_size b) \<le> length buf); Some (take (unat (d_size b)) buf) })"

text \<open>The blocks of section \<open>i\<close>; \<open>cvt\<close> says that the byte orders of the host and of the file differ.\<close>

fun crc_blocks :: "(elf_data \<Rightarrow> elf_data) \<Rightarrow> (elf_data \<Rightarrow> elf_data) \<Rightarrow> bool \<Rightarrow> nat \<Rightarrow> nat \<Rightarrow> nat \<Rightarrow> u32 \<Rightarrow> dso \<Rightarrow> (u32 \<times> dso) option" where
  "crc_blocks xtof xtom cvt i k 0 crc d = Some (crc, d)"
| "crc_blocks xtof xtom cvt i k (Suc n) crc d = do {
     b \<leftarrow> block_at d i k;
     (crc, d) \<leftarrow> (if cvt \<and> d_type b \<noteq> ELF_T_BYTE then do {
         let f = xtof b;
         bs \<leftarrow> block_bytes f;
         Some (crc32 crc bs, set_block d i k (xtom f))
       }
       else do {
         bs \<leftarrow> block_bytes b;
         Some (crc32 crc bs, d)
       });
     crc_blocks xtof xtom cvt i (Suc k) n crc d
   }"

text \<open>The flags are \<^verbatim>\<open>SHF_ALLOC | SHF_WRITE | SHF_EXECINSTR\<close>.\<close>

definition summed :: "elf_shdr \<Rightarrow> bool" where
  "summed sh \<longleftrightarrow> sh_flags sh AND 7 \<noteq> 0 \<and> sh_type sh \<noteq> SHT_NOBITS \<and> sh_size sh \<noteq> 0"

fun crc_sections :: "(elf_data \<Rightarrow> elf_data) \<Rightarrow> (elf_data \<Rightarrow> elf_data) \<Rightarrow> bool \<Rightarrow> nat \<Rightarrow> nat \<Rightarrow> u32 \<Rightarrow> dso \<Rightarrow> (u32 \<times> dso) option" where
  "crc_sections xtof xtom cvt i 0 crc d = Some (crc, d)"
| "crc_sections xtof xtom cvt i (Suc n) crc d = do {
     sh \<leftarrow> nth_opt (shdr d) i;
     (crc, d) \<leftarrow> (if summed sh then do {
         sc \<leftarrow> nth_opt (scn d) i;
         crc_blocks xtof xtom cvt i 0 (length (scn_data sc)) crc d
       } else Some (crc, d));
     crc_sections xtof xtom cvt (Suc i) n crc d
   }"

definition needs_cvt :: "dso \<Rightarrow> bool" where
  "needs_cvt d \<longleftrightarrow> \<not> (host_lsb d \<and> ei_data (ehdr d) = ELFDATA2LSB \<or> \<not> host_lsb d \<and> ei_data (ehdr d) = ELFDATA2MSB)"

text \<open>Setting the time of prelinking, when there is one.\<close>

definition set_prelinked :: "nat \<Rightarrow> dso \<Rightarrow> u64 \<Rightarrow> (int \<times> dso) option" where
  "set_prelinked dt_num d v =
     (if info_DT_GNU_PRELINKED d \<noteq> 0 then set_dynamic dt_num d (ucast DT_GNU_PRELINKED) v else Some (0, d))"

definition prelink_set_checksum ::
  "(elf_data \<Rightarrow> elf_data) \<Rightarrow> (elf_data \<Rightarrow> elf_data) \<Rightarrow> (dso \<Rightarrow> (int \<times> dso) option) \<Rightarrow> nat \<Rightarrow> bool \<Rightarrow> pl_arch \<Rightarrow> dso \<Rightarrow> (int \<times> dso) option" where
  "prelink_set_checksum xtof xtom fin dt_num allow_bad_textrel A d = do {
     (rc, d) \<leftarrow> set_dynamic dt_num d (ucast DT_CHECKSUM) 0;
     if rc \<noteq> 0 then Some (1, d)
     else do {
       (rc, d) \<leftarrow> set_prelinked dt_num d 0;
       if rc \<noteq> 0 then Some (1, d)
       else do {
         (rc, d) \<leftarrow> prepare_write_dso fin allow_bad_textrel A d;
         if rc \<noteq> 0 then Some (1, d)
         else do {
           (crc, d) \<leftarrow> crc_sections xtof xtom (needs_cvt d) 1 (unat (e_shnum (ehdr d)) - 1) 0 d;
           (rc, d) \<leftarrow> set_dynamic dt_num d (ucast DT_CHECKSUM) (ucast crc);
           _ \<leftarrow> guard_opt (rc = 0);
           (rc, d) \<leftarrow> set_prelinked dt_num d (info_DT_GNU_PRELINKED d);
           _ \<leftarrow> guard_opt (rc = 0);
           Some (0, d\<lparr>info_DT_CHECKSUM := ucast crc\<rparr>)
         }
       }
     }
   }"

section \<open>The bytes that are summed\<close>

fun bytes_of_blocks :: "(elf_data \<Rightarrow> elf_data) \<Rightarrow> bool \<Rightarrow> elf_data list \<Rightarrow> u8 list option" where
  "bytes_of_blocks xtof cvt [] = Some []"
| "bytes_of_blocks xtof cvt (b # bs) = do {
     x \<leftarrow> block_bytes (if cvt \<and> d_type b \<noteq> ELF_T_BYTE then xtof b else b);
     y \<leftarrow> bytes_of_blocks xtof cvt bs;
     Some (x @ y)
   }"

fun bytes_of_sections :: "(elf_data \<Rightarrow> elf_data) \<Rightarrow> bool \<Rightarrow> (elf_shdr \<times> elf_scn) list \<Rightarrow> u8 list option" where
  "bytes_of_sections xtof cvt [] = Some []"
| "bytes_of_sections xtof cvt ((sh, sc) # ss) = do {
     x \<leftarrow> (if summed sh then bytes_of_blocks xtof cvt (scn_data sc) else Some []);
     y \<leftarrow> bytes_of_sections xtof cvt ss;
     Some (x @ y)
   }"

text \<open>The bytes of the loaded sections, in the byte order of the file.\<close>

definition loaded_bytes :: "(elf_data \<Rightarrow> elf_data) \<Rightarrow> dso \<Rightarrow> u8 list option" where
  "loaded_bytes xtof d = bytes_of_sections xtof (needs_cvt d) (drop 1 (take (unat (e_shnum (ehdr d))) (zip (shdr d) (scn d))))"

lemma crc32_append: "crc32 c (xs @ ys) = crc32 (crc32 c xs) ys"
  by (simp add: crc32_def)

lemma crc32_nil [simp]: "crc32 c [] = c"
  by (simp add: crc32_def)

lemma set_block_same: "block_at d i k = Some b \<Longrightarrow> set_block d i k b = d"
  by (auto simp: block_at_def bind_eq_Some nth_opt_def set_block_def split: if_splits)

lemma crc_blocks_bytes:
  assumes inv: "\<And>b. xtom (xtof b) = b" and "i < length (scn d)" and "k + n = length (scn_data (scn d ! i))"
  shows "crc_blocks xtof xtom cvt i k n crc d
    = map_option (\<lambda>bs. (crc32 crc bs, d)) (bytes_of_blocks xtof cvt (drop k (scn_data (scn d ! i))))"
  using assms(3)
proof (induction n arbitrary: k crc)
  case (Suc n)
  let ?bs = "scn_data (scn d ! i)"
  have k: "k < length ?bs" using Suc.prems by simp
  then have b: "block_at d i k = Some (?bs ! k)" using assms(2) by (simp add: block_at_def nth_opt_def)
  have dr: "drop k ?bs = ?bs ! k # drop (Suc k) ?bs" using k by (simp add: Cons_nth_drop_Suc)
  have IH: "crc_blocks xtof xtom cvt i (Suc k) n c d = map_option (\<lambda>bs. (crc32 c bs, d)) (bytes_of_blocks xtof cvt (drop (Suc k) ?bs))" for c
    using Suc by simp
  show ?case
    by (cases cvt; cases "block_bytes (?bs ! k)"; cases "block_bytes (xtof (?bs ! k))"; cases "bytes_of_blocks xtof cvt (drop (Suc k) ?bs)")
      (use IH in \<open>simp_all add: b dr inv set_block_same crc32_append\<close>)
qed simp

lemma crc_sections_bytes:
  assumes inv: "\<And>b. xtom (xtof b) = b" and "i + n \<le> length (shdr d)" and "i + n \<le> length (scn d)"
  shows "crc_sections xtof xtom cvt i n crc d
    = map_option (\<lambda>bs. (crc32 crc bs, d)) (bytes_of_sections xtof cvt (drop i (take (i + n) (zip (shdr d) (scn d)))))"
  using assms(2,3)
proof (induction n arbitrary: i crc)
  case (Suc n)
  let ?z = "take (i + Suc n) (zip (shdr d) (scn d))"
  have i: "i < length (shdr d)" "i < length (scn d)" using Suc.prems by simp_all
  have dr: "drop i ?z = (shdr d ! i, scn d ! i) # drop (Suc i) (take (Suc i + n) (zip (shdr d) (scn d)))"
    using i by (subst Cons_nth_drop_Suc [symmetric]) simp_all
  have IH: "crc_sections xtof xtom cvt (Suc i) n c d
      = map_option (\<lambda>bs. (crc32 c bs, d)) (bytes_of_sections xtof cvt (drop (Suc i) (take (Suc i + n) (zip (shdr d) (scn d)))))" for c
    using Suc by simp
  have blk: "crc_blocks xtof xtom cvt i 0 (length (scn_data (scn d ! i))) crc d
      = map_option (\<lambda>bs. (crc32 crc bs, d)) (bytes_of_blocks xtof cvt (scn_data (scn d ! i)))"
    using crc_blocks_bytes [where xtom = xtom and xtof = xtof, OF inv i(2), of 0] by simp
  show ?case
    unfolding dr crc_sections.simps bytes_of_sections.simps
    by (cases "bytes_of_blocks xtof cvt (scn_data (scn d ! i))";
        cases "bytes_of_sections xtof cvt (drop (Suc i) (take (Suc i + n) (zip (shdr d) (scn d))))")
      (simp_all add: i nth_opt_def blk IH crc32_append del: add_Suc add_Suc_right)
qed simp

section \<open>Setting an entry that is there\<close>

lemma set_dynamic_present:
  assumes ok: "dyn_ok d" and ended: "length (dyn_table d) < dyn_max d" and tag: "tag \<noteq> 0"
    and fits: "narrow_dyn (ei_class (ehdr d)) \<lparr>d_tag = ucast tag, d_ptr = v\<rparr> = \<lparr>d_tag = ucast tag, d_ptr = v\<rparr>"
    and there: "ucast tag \<in> d_tag ` set (dyn_table d)"
  shows "\<exists>d'. set_dynamic dt_num d tag v = Some (0, d') \<and> dyn_ok d' \<and> dyn_frame d d' \<and> info_set_mask d' = info_set_mask d
    \<and> dyn_slots d' = dyn_put (ucast tag) v (dyn_slots d)"
proof -
  let ?n = "dynamic d" and ?xs = "dyn_slots d" and ?t = "ucast tag :: u64"
  define k where "k = length (takeWhile (\<lambda>e. d_tag e \<noteq> DT_NULL \<and> d_tag e \<noteq> ?t) ?xs)"
  have len: "length ?xs = dyn_max d" by (simp add: dyn_slots_def)
  have f: "k < length ys \<and> d_tag (ys ! k) = t \<and> t \<noteq> DT_NULL \<and> (\<forall>w. ys[k := (ys ! k)\<lparr>d_ptr := w\<rparr>] = dyn_put t w ys)"
    if "k = length (takeWhile (\<lambda>e. d_tag e \<noteq> DT_NULL \<and> d_tag e \<noteq> t) ys)" "t \<in> d_tag ` set (takeWhile (\<lambda>e. d_tag e \<noteq> DT_NULL) ys)" for k t ys
    using that by (induction ys arbitrary: k) (auto split: if_splits)
  have k: "k < length ?xs" "d_tag (?xs ! k) = ?t" "?t \<noteq> DT_NULL" "?xs[k := (?xs ! k)\<lparr>d_ptr := w\<rparr>] = dyn_put ?t w ?xs" for w
    using f [OF k_def] there unfolding dyn_table_def by auto
  have g: "find_dyn (dso_getdyn d ?n 0) ?t 0 (dyn_max d) = Some (k, ?xs ! k)"
    using find_dyn_list [of ?xs "dso_getdyn d ?n 0" 0 ?t] getdyn_slot [OF ok] k(1) by (simp add: len k_def [symmetric])
  have start: "set_dynamic dt_num d tag v = (if d_ptr (?xs ! k) \<noteq> v then do {
          d \<leftarrow> dso_update_dyn d ?n 0 k ((?xs ! k)\<lparr>d_ptr := v\<rparr>);
          Some (0, elf_flagscn_dirty d ?n)
        } else Some (0, d))"
    using ok g k by (simp add: set_dynamic_def Let_def dyn_ok_def nth_opt_def block_at_dyn [OF ok] dyn_ok_max_ndx [OF ok])
  show ?thesis
  proof (cases "d_ptr (?xs ! k) = v")
    case True
    then have "(?xs ! k)\<lparr>d_ptr := v\<rparr> = ?xs ! k" by (cases "?xs ! k") simp
    then have "dyn_put ?t v ?xs = ?xs" using k(4) by (metis list_update_id)
    then show ?thesis using start True ok by simp
  next
    case False
    have "narrow_dyn (ei_class (ehdr d)) ((?xs ! k)\<lparr>d_ptr := v\<rparr>) = (?xs ! k)\<lparr>d_ptr := v\<rparr>"
      using fits k(2) by (cases "?xs ! k") simp
    then obtain d1 where d1: "dso_update_dyn d ?n 0 k ((?xs ! k)\<lparr>d_ptr := v\<rparr>) = Some d1" "dyn_ok d1" "dyn_frame d d1"
      "info_set_mask d1 = info_set_mask d" "dyn_slots d1 = dyn_put ?t v ?xs"
      using update_dyn_slot [OF ok, of k "(?xs ! k)\<lparr>d_ptr := v\<rparr>"] k len by auto
    have m: "d1\<lparr>info_set_mask := info_set_mask d1\<rparr> = d1" by simp
    note fl = flag_dyn [OF d1(2), of "info_set_mask d1", unfolded m]
    have "info_set_mask (elf_flagscn_dirty d1 n) = info_set_mask d1" for n by (simp add: elf_flagscn_dirty_def)
    then show ?thesis
      using start False d1 fl dyn_frame_fields(3) [OF d1(3)] dyn_frame_trans [OF d1(3)] by auto
  qed
qed

lemma update_dyn_shape:
  assumes "dyn_ok d" and "dso_update_dyn d (dynamic d) 0 i r = Some d'"
  shows "block_shape (dyn_block d') = block_shape (dyn_block d) \<and> dyn_ok d' \<and> dynamic d' = dynamic d \<and> info_set_mask d' = info_set_mask d"
proof -
  obtain rc b where b: "gelfx_update_dyn (ei_class (ehdr d)) (host_lsb d) (dyn_block d) i r = Some (rc, b)"
      and d': "d' = set_block d (dynamic d) 0 b"
    using assms(2) by (auto simp: dso_update_dyn_def block_at_dyn [OF assms(1)] bind_eq_Some)
  have "wf_block (dyn_block d)" using assms(1) by (simp add: dyn_ok_def)
  then have "block_shape b = block_shape (dyn_block d)" using dyn_entry.upd_shape b by blast
  from set_block_dyn [OF assms(1) this] this show ?thesis unfolding d' by (simp add: set_block_def)
qed

lemma flag_dyn_block:
  assumes "dyn_ok e"
  shows "dyn_block (elf_flagscn_dirty e (dynamic e)) = dyn_block e"
    "dyn_block (elf_flagscn_dirty (e\<lparr>info_set_mask := x\<rparr>) (dynamic e)) = dyn_block e"
  using assms by (simp_all add: dyn_block_def elf_flagscn_dirty_def dyn_ok_def)

text \<open>The stores of a call.\<close>

lemma set_dynamic_stores:
  assumes "dyn_ok d" and "set_dynamic dt_num d tag v = Some (rc, d')"
  obtains "d' = d" | i e d1 where "dso_update_dyn d (dynamic d) 0 i e = Some d1" "d' = elf_flagscn_dirty d1 (dynamic d)"
    | i e j f d1 d2 where "dso_update_dyn d (dynamic d) 0 i e = Some d1" "dso_update_dyn d1 (dynamic d) 0 j f = Some d2"
        "d' = elf_flagscn_dirty (d2\<lparr>info_set_mask := tag_mask dt_num tag (info_set_mask d)\<rparr>) (dynamic d)"
proof -
  let ?n = "dynamic d"
  define after where "after = (\<lambda>(ndx, dyn). if d_tag dyn \<noteq> DT_NULL then
       (if d_ptr dyn \<noteq> v then do {
          d \<leftarrow> dso_update_dyn d ?n 0 ndx (dyn\<lparr>d_ptr := v\<rparr>);
          Some (0, elf_flagscn_dirty d ?n)
        } else Some (0, d))
     else if ndx + 1 < dyn_max d then do {
       d1 \<leftarrow> dso_update_dyn d ?n 0 (ndx + 1) dyn;
       d2 \<leftarrow> dso_update_dyn d1 ?n 0 ndx (dyn\<lparr>d_tag := ucast tag, d_ptr := v\<rparr>);
       Some (0, elf_flagscn_dirty (d2\<lparr>info_set_mask := tag_mask dt_num tag (info_set_mask d)\<rparr>) ?n)
     }
     else Some (1 :: int, d))"
  have hd: "nth_opt (shdr d) ?n = Some (shdr d ! ?n)" "nth_opt (scn d) ?n = Some (scn d ! ?n)"
    "sh_type (shdr d ! ?n) = SHT_DYNAMIC" "length (scn_data (scn d ! ?n)) = 1"
    using assms(1) by (simp_all add: dyn_ok_def nth_opt_def)
  have "set_dynamic dt_num d tag v = find_dyn (dso_getdyn d ?n 0) (ucast tag) 0 (dyn_max d) \<bind> after"
    unfolding set_dynamic_def Let_def hd after_def
    by (simp only: bind.bind_lunit hd block_at_dyn [OF assms(1)] dyn_ok_max_ndx [OF assms(1)] guard_opt_def simp_thms if_True)
  then obtain ndx dyn where "after (ndx, dyn) = Some (rc, d')"
    using assms(2) by (cases "find_dyn (dso_getdyn d ?n 0) (ucast tag) 0 (dyn_max d)") auto
  note step = this [unfolded after_def prod.case]
  show thesis
  proof (cases "d_tag dyn = DT_NULL")
    case False
    show thesis
    proof (cases "d_ptr dyn = v")
      case True
      show thesis by (rule that(1)) (use step False True in simp)
    next
      case neq: False
      obtain d1 where d1: "dso_update_dyn d ?n 0 ndx (dyn\<lparr>d_ptr := v\<rparr>) = Some d1"
        using step False neq by (cases "dso_update_dyn d ?n 0 ndx (dyn\<lparr>d_ptr := v\<rparr>)") simp_all
      show thesis by (rule that(2) [OF d1]) (use step False neq d1 in simp)
    qed
  next
    case True
    show thesis
    proof (cases "ndx + 1 < dyn_max d")
      case False
      show thesis by (rule that(1)) (use step True False in simp)
    next
      case room: True
      obtain d1 where d1: "dso_update_dyn d ?n 0 (ndx + 1) dyn = Some d1"
        using step True room by (cases "dso_update_dyn d ?n 0 (ndx + 1) dyn") simp_all
      obtain d2 where d2: "dso_update_dyn d1 ?n 0 ndx (dyn\<lparr>d_tag := ucast tag, d_ptr := v\<rparr>) = Some d2"
        using step True room d1 by (cases "dso_update_dyn d1 ?n 0 ndx (dyn\<lparr>d_tag := ucast tag, d_ptr := v\<rparr>)") simp_all
      show thesis by (rule that(3) [OF d1 d2]) (use step True room d1 d2 in simp)
    qed
  qed
qed

lemma set_dynamic_shape:
  assumes "dyn_ok d" and "set_dynamic dt_num d tag v = Some (rc, d')"
  shows "block_shape (dyn_block d') = block_shape (dyn_block d)
    \<and> (info_set_mask d' = info_set_mask d \<or> info_set_mask d' = tag_mask dt_num tag (info_set_mask d))"
  using assms
proof (cases rule: set_dynamic_stores)
  case (2 i e d1)
  note u = update_dyn_shape [OF assms(1) 2(1)]
  then show ?thesis using 2(2) flag_dyn_block(1) [of d1] by (simp add: elf_flagscn_dirty_def)
next
  case (3 i e j f d1 d2)
  note u = update_dyn_shape [OF assms(1) 3(1)]
  then have "block_shape (dyn_block d2) = block_shape (dyn_block d1) \<and> dyn_ok d2 \<and> dynamic d2 = dynamic d"
    using update_dyn_shape [of d1 j f d2] 3(2) by simp
  then show ?thesis
    using u 3(3) flag_dyn_block(2) [of d2 "tag_mask dt_num tag (info_set_mask d)"] by (simp add: elf_flagscn_dirty_def)
qed simp

lemma set_dynamic_done:
  assumes ok: "dyn_ok d" and ended: "length (dyn_table d) < dyn_max d" and tag: "tag \<noteq> 0"
    and fits: "narrow_dyn (ei_class (ehdr d)) \<lparr>d_tag = ucast tag, d_ptr = v\<rparr> = \<lparr>d_tag = ucast tag, d_ptr = v\<rparr>"
    and s: "set_dynamic dt_num d tag v = Some (0, d')"
  shows "dyn_ok d' \<and> dyn_frame d d' \<and> dyn_table d' = dyn_put (ucast tag) v (dyn_table d) \<and> length (dyn_table d') < dyn_max d'
    \<and> block_shape (dyn_block d') = block_shape (dyn_block d) \<and> (info_set_mask d' = info_set_mask d \<or> info_set_mask d' = tag_mask dt_num tag (info_set_mask d))"
proof -
  have len: "length (dyn_put t w xs) = (if t \<in> d_tag ` set xs then length xs else length xs + 1)" for t w and xs :: "elf_dyn list"
    by (induction xs) auto
  have sh: "block_shape (dyn_block d') = block_shape (dyn_block d)" using set_dynamic_shape [OF ok s] by simp
  have r: "dyn_ok d' \<and> dyn_frame d d' \<and> dyn_table d' = dyn_put (ucast tag) v (dyn_table d)"
      "ucast tag \<in> d_tag ` set (dyn_table d) \<or> length (dyn_table d) + 1 < dyn_max d"
    using set_dynamic_refines_aux [OF ok ended tag fits, of dt_num] s by (auto split: if_splits)
  have "dyn_max d' = dyn_max d"
    using sh dyn_frame_fields [of d d'] r(1) by (simp add: dyn_max_def dyn_entsize_def block_shape_def)
  then show ?thesis using r sh set_dynamic_shape [OF ok s] ended by (auto simp: len)
qed

section \<open>The list of entries\<close>

lemma dyn_put_twice [simp]: "dyn_put t v (dyn_put t w xs) = dyn_put t v xs"
  by (induction xs) auto

lemma dyn_put_commute: "t \<noteq> u \<Longrightarrow> t \<in> d_tag ` set xs \<Longrightarrow> dyn_put t v (dyn_put u w xs) = dyn_put u w (dyn_put t v xs)"
  by (induction xs) auto

lemma dyn_put_takeWhile:
  assumes "t \<in> d_tag ` set (takeWhile (\<lambda>e. d_tag e \<noteq> DT_NULL) xs)"
  shows "takeWhile (\<lambda>e. d_tag e \<noteq> DT_NULL) (dyn_put t v xs) = dyn_put t v (takeWhile (\<lambda>e. d_tag e \<noteq> DT_NULL) xs)"
  using assms by (induction xs) (auto split: if_splits)

lemma dyn_put_append: "t \<in> d_tag ` set xs \<Longrightarrow> dyn_put t v (xs @ ys) = dyn_put t v xs @ ys"
  by (induction xs) auto

lemma dyn_put_in: "t \<in> d_tag ` set (dyn_put t v xs)"
  by (induction xs) auto

lemma dyn_put_keeps_tags: "t \<in> d_tag ` set xs \<Longrightarrow> map d_tag (dyn_put t v xs) = map d_tag xs"
  by (induction xs) auto

section \<open>The entries determine the bytes\<close>

lemma chunks_eq:
  assumes "length xs = m * n" and "length ys = m * n" and "\<And>i. i < m \<Longrightarrow> take n (drop (i * n) xs) = take n (drop (i * n) ys)"
  shows "xs = ys"
  using assms
proof (induction m arbitrary: xs ys)
  case (Suc m)
  have "drop n xs = drop n ys"
  proof (rule Suc.IH)
    fix i assume "i < m"
    then show "take n (drop (i * n) (drop n xs)) = take n (drop (i * n) (drop n ys))"
      using Suc.prems(3) [of "Suc i"] by (simp add: add.commute)
  qed (use Suc.prems in simp_all)
  moreover have "take n xs = take n ys" using Suc.prems(3) [of 0] by simp
  ultimately show ?case by (metis append_take_drop_id)
qed simp

lemma getdyn_bytes:
  assumes "wf_block b" and "d_buf b = Some y" and "gelfx_getdyn c l b i = Some (Some e)"
  shows "take (if c = ELFCLASS32 then 8 else 16) (drop (i * (if c = ELFCLASS32 then 8 else 16)) y)
    = (if c = ELFCLASS32 then host_bytes32 l (ucast (d_tag e)) @ host_bytes32 l (ucast (d_ptr e))
       else host_bytes64 l (d_tag e) @ host_bytes64 l (d_ptr e))"
proof -
  have "take (if c = ELFCLASS32 then 8 else 16) (drop j y) = (if c = ELFCLASS32 then take 4 (drop j y) @ take 4 (drop (j + 4) y)
      else take 8 (drop j y) @ take 8 (drop (j + 8) y))" for j
    using take_add [of 4 4 "drop j y"] take_add [of 8 8 "drop j y"] by (simp add: add.commute)
  moreover have "peek (host_ld32 l) j y = Some v \<Longrightarrow> take 4 (drop j y) = host_bytes32 l v"
     "peek (host_ld64 l) j y = Some w \<Longrightarrow> take 8 (drop j y) = host_bytes64 l w" for j v w
    using buf_codec.enc_rd [OF host_codec32, of l "drop j y"] buf_codec.enc_rd [OF host_codec64, of l "drop j y"]
    by (auto simp: peek_def)
  moreover have "ucast (scast (v :: u32) :: u64) = v" "ucast (ucast (v :: u32) :: u64) = v" for v
    by (rule bit_word_eqI; auto simp: bit_simps)+
  ultimately show ?thesis
    using assms(2,3) by (cases "c = ELFCLASS32") (auto simp: gelfx_getdyn_def bind_eq_Some split: if_splits)
qed

lemma dyn_block_determined:
  assumes "dyn_ok d" "dyn_ok e" "dyn_slots d = dyn_slots e" "ehdr d = ehdr e" "host_lsb d = host_lsb e"
    and "block_shape (dyn_block d) = block_shape (dyn_block e)"
    and "unat (d_size (dyn_block d)) = dyn_max d * dyn_entsize d"
  shows "dyn_block d = dyn_block e"
proof -
  let ?b = "dyn_block d" and ?c = "dyn_block e" and ?n = "dyn_entsize d"
  obtain y z where y: "d_buf ?b = Some y" and z: "d_buf ?c = Some z" using assms(1,2) by (auto simp: dyn_ok_def)
  have sh: "d_size ?c = d_size ?b" "d_type ?c = d_type ?b" "d_off ?c = d_off ?b" using assms(6) by (auto simp: block_shape_def)
  have n: "dyn_entsize e = ?n" "dyn_max e = dyn_max d" by (simp_all add: dyn_entsize_def dyn_max_def assms(4) sh)
  have w: "wf_block ?b" "wf_block ?c" using assms(1,2) by (simp_all add: dyn_ok_def)
  have chunk: "take ?n (drop (i * ?n) y) = take ?n (drop (i * ?n) z)" if "i < dyn_max d" for i
  proof -
    have "gelfx_getdyn (ei_class (ehdr d)) (host_lsb d) ?b i = Some (Some (dyn_slots d ! i))"
      "gelfx_getdyn (ei_class (ehdr d)) (host_lsb d) ?c i = Some (Some (dyn_slots d ! i))"
      using getdyn_slot [OF assms(1) that] getdyn_slot [OF assms(2), of i] that
      by (simp_all add: dso_getdyn_def block_at_dyn [OF assms(1)] block_at_dyn [OF assms(2)] bind_eq_Some assms(3-5) n)
    from getdyn_bytes [OF w(1) y this(1)] getdyn_bytes [OF w(2) z this(2)] show ?thesis
      unfolding dyn_entsize_def by metis
  qed
  have "y = z"
    by (rule chunks_eq [where m = "dyn_max d" and n = ?n]) (use w y z sh assms(7) chunk in \<open>auto simp: wf_block_def\<close>)
  then show ?thesis using y z sh by (cases ?b; cases ?c) simp
qed

section \<open>The checksum is stable\<close>

text \<open>States that differ in the entries of the dynamic section and the fields the checksum sets.\<close>

definition but_dynamic :: "dso \<Rightarrow> dso \<Rightarrow> bool" where
  "but_dynamic d e \<longleftrightarrow> e\<lparr>scn := [], info_set_mask := 0, info_DT_CHECKSUM := 0\<rparr> = d\<lparr>scn := [], info_set_mask := 0, info_DT_CHECKSUM := 0\<rparr>
     \<and> length (scn e) = length (scn d) \<and> (\<forall>i. i \<noteq> dynamic d \<longrightarrow> scn e ! i = scn d ! i)
     \<and> bit (info_set_mask e) 22 = bit (info_set_mask d) 22"

text \<open>An object with a dynamic section of whole entries that has room for the two entries, in which \<^verbatim>\<open>prepare_write_dso\<close> has
  nothing left to change.\<close>

definition sum_ready :: "(dso \<Rightarrow> (int \<times> dso) option) \<Rightarrow> bool \<Rightarrow> pl_arch \<Rightarrow> dso \<Rightarrow> bool" where
  "sum_ready fin allow A d \<longleftrightarrow> dyn_ok d \<and> length (dyn_table d) < dyn_max d
     \<and> unat (d_size (dyn_block d)) = dyn_max d * dyn_entsize d
     \<and> unat (e_shnum (ehdr d)) \<le> length (shdr d) \<and> unat (e_shnum (ehdr d)) \<le> length (scn d)
     \<and> (ei_class (ehdr d) = ELFCLASS32 \<longrightarrow> unat (info_DT_GNU_PRELINKED d) < 2 ^ 32)
     \<and> (\<forall>e. but_dynamic d e \<longrightarrow> prepare_write_dso fin allow A e = Some (0, e))"

lemma but_dynamic_fields:
  assumes "but_dynamic d e"
  shows "ehdr e = ehdr d" "shdr e = shdr d" "dynamic e = dynamic d" "host_lsb e = host_lsb d"
    "info_DT_GNU_PRELINKED e = info_DT_GNU_PRELINKED d" "length (scn e) = length (scn d)"
proof -
  let ?x = "\<lambda>d :: dso. d\<lparr>scn := [], info_set_mask := 0, info_DT_CHECKSUM := 0\<rparr>"
  have h: "f (?x e) = f (?x d)" for f :: "dso \<Rightarrow> 'x" using assms by (simp add: but_dynamic_def)
  show "ehdr e = ehdr d" "shdr e = shdr d" "dynamic e = dynamic d" "host_lsb e = host_lsb d"
    "info_DT_GNU_PRELINKED e = info_DT_GNU_PRELINKED d" "length (scn e) = length (scn d)"
    using h [of ehdr] h [of shdr] h [of dynamic] h [of host_lsb] h [of info_DT_GNU_PRELINKED] assms by (simp_all add: but_dynamic_def)
qed

lemma but_dynamic_trans: "but_dynamic c d \<Longrightarrow> but_dynamic d e \<Longrightarrow> but_dynamic c e"
  using but_dynamic_fields(3) [of c d] by (simp add: but_dynamic_def)

lemma but_dynamic_refl [simp]: "but_dynamic d d"
  by (simp add: but_dynamic_def)

lemma dyn_frame_but:
  assumes "dyn_frame d e" and "bit (info_set_mask e) 22 = bit (info_set_mask d) 22"
  shows "but_dynamic d e"
proof -
  let ?x = "\<lambda>d :: dso. d\<lparr>scn := [], info_set_mask := 0\<rparr>"
  have "?x e = ?x d" using assms(1) by (simp add: dyn_frame_def)
  then have "(?x e)\<lparr>info_DT_CHECKSUM := 0\<rparr> = (?x d)\<lparr>info_DT_CHECKSUM := 0\<rparr>" by simp
  then show ?thesis using assms by (simp add: but_dynamic_def dyn_frame_def)
qed

text \<open>The state between the calls of \<^verbatim>\<open>set_dynamic\<close>.\<close>

definition mid :: "dso \<Rightarrow> dso \<Rightarrow> bool" where
  "mid d e \<longleftrightarrow> but_dynamic d e \<and> dyn_ok e \<and> length (dyn_table e) < dyn_max e
     \<and> block_shape (dyn_block e) = block_shape (dyn_block d)"

lemma sum_tags:
  "(ucast (ucast DT_CHECKSUM :: u32) :: u64) = DT_CHECKSUM" "(ucast (ucast DT_GNU_PRELINKED :: u32) :: u64) = DT_GNU_PRELINKED"
  "(ucast DT_CHECKSUM :: u32) \<noteq> 0" "(ucast DT_GNU_PRELINKED :: u32) \<noteq> 0" "DT_CHECKSUM \<noteq> DT_GNU_PRELINKED"
  "narrow_dyn c \<lparr>d_tag = DT_CHECKSUM, d_ptr = ucast (w :: u32)\<rparr> = \<lparr>d_tag = DT_CHECKSUM, d_ptr = ucast w\<rparr>"
  "narrow_dyn c \<lparr>d_tag = DT_CHECKSUM, d_ptr = 0\<rparr> = \<lparr>d_tag = DT_CHECKSUM, d_ptr = 0\<rparr>"
  "(c = ELFCLASS32 \<longrightarrow> unat v < 2 ^ 32) \<Longrightarrow> narrow_dyn c \<lparr>d_tag = DT_GNU_PRELINKED, d_ptr = v\<rparr> = \<lparr>d_tag = DT_GNU_PRELINKED, d_ptr = v\<rparr>"
proof -
  have "take_bit 32 (ucast w :: u64) = ucast w" by (rule bit_word_eqI) (auto simp: bit_simps dest: bit_imp_le_length)
  then show "narrow_dyn c \<lparr>d_tag = DT_CHECKSUM, d_ptr = ucast w\<rparr> = \<lparr>d_tag = DT_CHECKSUM, d_ptr = ucast w\<rparr>"
    by (simp add: narrow_dyn_def dt_defs)
  show "narrow_dyn c \<lparr>d_tag = DT_GNU_PRELINKED, d_ptr = v\<rparr> = \<lparr>d_tag = DT_GNU_PRELINKED, d_ptr = v\<rparr>" if "c = ELFCLASS32 \<longrightarrow> unat v < 2 ^ 32"
    using that by (auto simp: narrow_dyn_def dt_defs word_unat_eq_iff unsigned_take_bit_eq take_bit_nat_eq_self)
qed (simp_all add: dt_defs narrow_dyn_def)

lemma tag_mask_22: "bit (tag_mask dt_num (ucast DT_CHECKSUM) m) 22 = bit m 22" "bit (tag_mask dt_num (ucast DT_GNU_PRELINKED) m) 22 = bit m 22"
  by (simp_all add: tag_mask_def Let_def dt_defs bit_simps)

lemma mid_set:
  assumes "mid d e" and "tag = ucast DT_CHECKSUM \<or> tag = ucast DT_GNU_PRELINKED"
    and "narrow_dyn (ei_class (ehdr d)) \<lparr>d_tag = ucast tag, d_ptr = v\<rparr> = \<lparr>d_tag = ucast tag, d_ptr = v\<rparr>"
  shows "set_dynamic dt_num e tag v = Some (0, e') \<Longrightarrow> mid d e' \<and> dyn_table e' = dyn_put (ucast tag) v (dyn_table e)"
    and "ucast tag \<in> d_tag ` set (dyn_table e) \<Longrightarrow> \<exists>e'. set_dynamic dt_num e tag v = Some (0, e') \<and> mid d e'
       \<and> dyn_table e' = dyn_put (ucast tag) v (dyn_table e) \<and> dyn_slots e' = dyn_put (ucast tag) v (dyn_slots e)"
proof -
  have m: "but_dynamic d e" "dyn_ok e" "length (dyn_table e) < dyn_max e"
      "block_shape (dyn_block e) = block_shape (dyn_block d)" using assms(1) by (simp_all add: mid_def)
  have t: "tag \<noteq> 0" using assms(2) sum_tags(3,4) by auto
  have fits: "narrow_dyn (ei_class (ehdr e)) \<lparr>d_tag = ucast tag, d_ptr = v\<rparr> = \<lparr>d_tag = ucast tag, d_ptr = v\<rparr>"
    using assms(3) but_dynamic_fields [OF m(1)] by simp
  have one: "mid d e' \<and> dyn_table e' = dyn_put (ucast tag) v (dyn_table e)" if "set_dynamic dt_num e tag v = Some (0, e')" for e'
  proof -
    note r = set_dynamic_done [OF m(2,3) t fits that]
    have "but_dynamic e e'" using r assms(2) tag_mask_22 by (intro dyn_frame_but) auto
    then show ?thesis using r m but_dynamic_trans by (auto simp: mid_def)
  qed
  then show "set_dynamic dt_num e tag v = Some (0, e') \<Longrightarrow> mid d e' \<and> dyn_table e' = dyn_put (ucast tag) v (dyn_table e)" .
  show "\<exists>e'. set_dynamic dt_num e tag v = Some (0, e') \<and> mid d e' \<and> dyn_table e' = dyn_put (ucast tag) v (dyn_table e)
      \<and> dyn_slots e' = dyn_put (ucast tag) v (dyn_slots e)" if "ucast tag \<in> d_tag ` set (dyn_table e)"
    using set_dynamic_present [OF m(2,3) t fits that] one by blast
qed

definition put_prelinked :: "dso \<Rightarrow> u64 \<Rightarrow> elf_dyn list \<Rightarrow> elf_dyn list" where
  "put_prelinked d v xs = (if info_DT_GNU_PRELINKED d \<noteq> 0 then dyn_put DT_GNU_PRELINKED v xs else xs)"

lemma mid_checksum:
  assumes "mid d e"
  shows "set_dynamic dt_num e (ucast DT_CHECKSUM) (ucast (w :: u32)) = Some (0, e') \<Longrightarrow>
      mid d e' \<and> dyn_table e' = dyn_put DT_CHECKSUM (ucast w) (dyn_table e)"
    and "DT_CHECKSUM \<in> d_tag ` set (dyn_table e) \<Longrightarrow> \<exists>e'. set_dynamic dt_num e (ucast DT_CHECKSUM) (ucast w) = Some (0, e') \<and> mid d e'
       \<and> dyn_table e' = dyn_put DT_CHECKSUM (ucast w) (dyn_table e) \<and> dyn_slots e' = dyn_put DT_CHECKSUM (ucast w) (dyn_slots e)"
  using mid_set [OF assms, of "ucast DT_CHECKSUM" "ucast w" dt_num] sum_tags by simp_all

lemma mid_prelinked:
  assumes "mid d e" and "ei_class (ehdr d) = ELFCLASS32 \<longrightarrow> unat v < 2 ^ 32"
  shows "set_prelinked dt_num e v = Some (0, e') \<Longrightarrow> mid d e' \<and> dyn_table e' = put_prelinked d v (dyn_table e)"
    and "info_DT_GNU_PRELINKED d \<noteq> 0 \<longrightarrow> DT_GNU_PRELINKED \<in> d_tag ` set (dyn_table e) \<Longrightarrow>
      \<exists>e'. set_prelinked dt_num e v = Some (0, e') \<and> mid d e'
       \<and> dyn_table e' = put_prelinked d v (dyn_table e) \<and> dyn_slots e' = put_prelinked d v (dyn_slots e)"
proof -
  have "info_DT_GNU_PRELINKED e = info_DT_GNU_PRELINKED d" using assms(1) but_dynamic_fields by (auto simp: mid_def)
  then show "set_prelinked dt_num e v = Some (0, e') \<Longrightarrow> mid d e' \<and> dyn_table e' = put_prelinked d v (dyn_table e)"
     "info_DT_GNU_PRELINKED d \<noteq> 0 \<longrightarrow> DT_GNU_PRELINKED \<in> d_tag ` set (dyn_table e) \<Longrightarrow>
      \<exists>e'. set_prelinked dt_num e v = Some (0, e') \<and> mid d e'
       \<and> dyn_table e' = put_prelinked d v (dyn_table e) \<and> dyn_slots e' = put_prelinked d v (dyn_slots e)"
    using mid_set [OF assms(1), of "ucast DT_GNU_PRELINKED" v dt_num] sum_tags(2) sum_tags(8) [OF assms(2)] assms(1)
    by (auto simp: set_prelinked_def put_prelinked_def split: if_splits)
qed

lemma bytes_of_sections_data:
  "map (\<lambda>(sh, sc). (sh, scn_data sc)) xs = map (\<lambda>(sh, sc). (sh, scn_data sc)) ys \<Longrightarrow> bytes_of_sections xtof cvt xs = bytes_of_sections xtof cvt ys"
proof (induction xs arbitrary: ys)
  case (Cons x xs)
  then obtain sh sc sc' zs where x: "x = (sh, sc)" "ys = (sh, sc') # zs" "scn_data sc = scn_data sc'"
      "map (\<lambda>(sh, sc). (sh, scn_data sc)) xs = map (\<lambda>(sh, sc). (sh, scn_data sc)) zs"
    by (cases x; cases ys) (auto split: prod.splits)
  show ?case using Cons.IH [OF x(4)] by (simp add: x(1-3))
qed simp

lemma loaded_bytes_same:
  assumes "mid d e" and "mid d f" and "dyn_block e = dyn_block f"
  shows "loaded_bytes xtof e = loaded_bytes xtof f"
proof -
  have be: "but_dynamic d e" "but_dynamic d f" and ok: "dyn_ok e" "dyn_ok f" using assms by (simp_all add: mid_def)
  note e = but_dynamic_fields [OF be(1)] and f = but_dynamic_fields [OF be(2)]
  have "scn_data (scn e ! i) = scn_data (scn f ! i)" for i
  proof (cases "i = dynamic d")
    case True
    have "scn_data (scn e ! dynamic d) = [dyn_block e]" "scn_data (scn f ! dynamic d) = [dyn_block f]"
      using ok e(3) f(3) by (auto simp: dyn_ok_def dyn_block_def length_Suc_conv)
    then show ?thesis using True assms(3) by simp
  next
    case False
    then show ?thesis using be by (simp add: but_dynamic_def)
  qed
  then have "map (\<lambda>(sh, sc). (sh, scn_data sc)) (zip (shdr e) (scn e)) = map (\<lambda>(sh, sc). (sh, scn_data sc)) (zip (shdr f) (scn f))"
    using e f by (intro nth_equalityI) auto
  then have "bytes_of_sections xtof cvt (drop 1 (take n (zip (shdr e) (scn e)))) = bytes_of_sections xtof cvt (drop 1 (take n (zip (shdr f) (scn f))))" for cvt n
    by (intro bytes_of_sections_data) (simp add: drop_map [symmetric] take_map [symmetric])
  then show ?thesis using e f by (simp add: loaded_bytes_def needs_cvt_def)
qed

text \<open>What a call does, from the state with the zeroed entries on.\<close>

lemma sum_from:
  assumes inv: "\<And>b. xtom (xtof b) = b" and r: "sum_ready fin allow A d" and "mid d e"
    and a: "set_dynamic dt_num e (ucast DT_CHECKSUM) 0 = Some (0, ea)" and b: "set_prelinked dt_num ea 0 = Some (0, eb)"
  shows "mid d eb \<and> dyn_table eb = put_prelinked d 0 (dyn_put DT_CHECKSUM 0 (dyn_table e))
    \<and> prelink_set_checksum xtof xtom fin dt_num allow A e = do {
        bs \<leftarrow> loaded_bytes xtof eb;
        (rc, ec) \<leftarrow> set_dynamic dt_num eb (ucast DT_CHECKSUM) (ucast (crc32 0 bs));
        _ \<leftarrow> guard_opt (rc = 0);
        (rc, ed) \<leftarrow> set_prelinked dt_num ec (info_DT_GNU_PRELINKED ec);
        _ \<leftarrow> guard_opt (rc = 0);
        Some (0, ed\<lparr>info_DT_CHECKSUM := ucast (crc32 0 bs)\<rparr>)
      }"
proof -
  have "mid d ea \<and> dyn_table ea = dyn_put DT_CHECKSUM 0 (dyn_table e)" using mid_checksum(1) [OF assms(3), of dt_num 0 ea] a by simp
  then have m: "mid d eb" "dyn_table eb = put_prelinked d 0 (dyn_put DT_CHECKSUM 0 (dyn_table e))"
    using mid_prelinked(1) [of d ea 0 dt_num eb] b by auto
  have be: "but_dynamic d eb" using m by (simp add: mid_def)
  note f = but_dynamic_fields [OF be]
  have p: "prepare_write_dso fin allow A eb = Some (0, eb)" using r be by (simp add: sum_ready_def)
  have "crc_sections xtof xtom (needs_cvt eb) 1 (unat (e_shnum (ehdr eb)) - 1) 0 eb = map_option (\<lambda>bs. (crc32 0 bs, eb)) (loaded_bytes xtof eb)"
  proof (cases "unat (e_shnum (ehdr eb))")
    case 0
    then show ?thesis by (simp add: loaded_bytes_def)
  next
    case (Suc n)
    then show ?thesis
      using crc_sections_bytes [where xtom = xtom and xtof = xtof, OF inv, of 1 n eb] r f
      by (simp add: loaded_bytes_def sum_ready_def)
  qed
  then show ?thesis
    using m a b p by (cases "loaded_bytes xtof eb") (simp_all add: prelink_set_checksum_def)
qed

lemma put_prelinked_keeps:
  assumes "info_DT_GNU_PRELINKED d \<noteq> 0 \<longrightarrow> DT_GNU_PRELINKED \<in> d_tag ` set xs"
  shows "map d_tag (put_prelinked d v xs) = map d_tag xs"
  using dyn_put_keeps_tags assms by (auto simp: put_prelinked_def)

lemma in_tags_map: "t \<in> d_tag ` set xs \<longleftrightarrow> t \<in> set (map d_tag xs)" by simp

lemma put_sums:
  assumes "DT_CHECKSUM \<in> d_tag ` set xs" and "info_DT_GNU_PRELINKED d \<noteq> 0 \<longrightarrow> DT_GNU_PRELINKED \<in> d_tag ` set xs"
    and "dyn_put DT_CHECKSUM 0 xs = xs" and "put_prelinked d 0 xs = xs"
  shows "put_prelinked d 0 (dyn_put DT_CHECKSUM 0 (put_prelinked d p (dyn_put DT_CHECKSUM c xs))) = xs"
proof (cases "info_DT_GNU_PRELINKED d = 0")
  case True
  then show ?thesis using assms by (simp add: put_prelinked_def)
next
  case False
  let ?C = DT_CHECKSUM and ?P = DT_GNU_PRELINKED
  have n: "?P \<noteq> ?C" by (simp add: dt_defs)
  have "dyn_put ?P 0 (dyn_put ?C 0 (dyn_put ?P p (dyn_put ?C c xs))) = dyn_put ?P 0 (dyn_put ?C 0 (dyn_put ?C c (dyn_put ?P p xs)))"
    using assms False n by (simp add: dyn_put_commute [of ?P ?C xs])
  also have "\<dots> = dyn_put ?P 0 (dyn_put ?P p (dyn_put ?C 0 xs))"
    unfolding dyn_put_twice using dyn_put_commute [of ?C ?P xs 0 p] assms(1) n by simp
  also have "\<dots> = xs" using assms False by (simp add: put_prelinked_def)
  finally show ?thesis using False by (simp add: put_prelinked_def)
qed

lemma put_zero:
  "DT_CHECKSUM \<in> d_tag ` set (put_prelinked d 0 (dyn_put DT_CHECKSUM 0 xs))"
  "info_DT_GNU_PRELINKED d \<noteq> 0 \<longrightarrow> DT_GNU_PRELINKED \<in> d_tag ` set (put_prelinked d 0 (dyn_put DT_CHECKSUM 0 xs))"
  "dyn_put DT_CHECKSUM 0 (put_prelinked d 0 (dyn_put DT_CHECKSUM 0 xs)) = put_prelinked d 0 (dyn_put DT_CHECKSUM 0 xs)"
  "put_prelinked d 0 (put_prelinked d 0 xs) = put_prelinked d 0 xs"
proof -
  have more: "t \<in> d_tag ` set ys \<Longrightarrow> t \<in> d_tag ` set (dyn_put u v ys)" for t u v and ys :: "elf_dyn list" by (induction ys) auto
  have n: "DT_CHECKSUM \<noteq> DT_GNU_PRELINKED" by (simp add: dt_defs)
  show "DT_CHECKSUM \<in> d_tag ` set (put_prelinked d 0 (dyn_put DT_CHECKSUM 0 xs))"
    using more [OF dyn_put_in] dyn_put_in by (simp add: put_prelinked_def)
  show "info_DT_GNU_PRELINKED d \<noteq> 0 \<longrightarrow> DT_GNU_PRELINKED \<in> d_tag ` set (put_prelinked d 0 (dyn_put DT_CHECKSUM 0 xs))"
    using dyn_put_in by (simp add: put_prelinked_def)
  show "dyn_put DT_CHECKSUM 0 (put_prelinked d 0 (dyn_put DT_CHECKSUM 0 xs)) = put_prelinked d 0 (dyn_put DT_CHECKSUM 0 xs)"
    using dyn_put_commute [OF n dyn_put_in, of 0 0 0 xs] by (simp add: put_prelinked_def)
  show "put_prelinked d 0 (put_prelinked d 0 xs) = put_prelinked d 0 xs" by (simp add: put_prelinked_def)
qed

lemma put_prelinked_append:
  "info_DT_GNU_PRELINKED d \<noteq> 0 \<longrightarrow> DT_GNU_PRELINKED \<in> d_tag ` set xs \<Longrightarrow> put_prelinked d v (xs @ ys) = put_prelinked d v xs @ ys"
  by (simp add: put_prelinked_def dyn_put_append)

lemma mid_info [simp]: "mid d (e\<lparr>info_DT_CHECKSUM := w\<rparr>) = mid d e" "dyn_table (e\<lparr>info_DT_CHECKSUM := w\<rparr>) = dyn_table e"
  "dyn_slots (e\<lparr>info_DT_CHECKSUM := w\<rparr>) = dyn_slots e"
proof -
  let ?e = "e\<lparr>info_DT_CHECKSUM := w\<rparr>"
  have b: "dyn_block ?e = dyn_block e" "dyn_entsize ?e = dyn_entsize e" "dyn_max ?e = dyn_max e"
    by (simp_all add: dyn_block_def dyn_entsize_def dyn_max_def)
  show s: "dyn_slots ?e = dyn_slots e" by (simp add: dyn_slots_def b dso_getdyn_def block_at_def)
  then show t: "dyn_table ?e = dyn_table e" by (simp add: dyn_table_def)
  have "but_dynamic d ?e = but_dynamic d e" by (simp add: but_dynamic_def)
  moreover have "dyn_ok ?e = dyn_ok e" by (simp add: dyn_ok_def b)
  ultimately show "mid d ?e = mid d e" by (simp add: mid_def t b)
qed

lemma mid_block:
  assumes "mid d e" and "mid d f" and "unat (d_size (dyn_block d)) = dyn_max d * dyn_entsize d" and "dyn_slots e = dyn_slots f"
  shows "dyn_block e = dyn_block f"
proof -
  have be: "but_dynamic d e" "but_dynamic d f" using assms by (simp_all add: mid_def)
  note e = but_dynamic_fields [OF be(1)] and f = but_dynamic_fields [OF be(2)]
  have "block_shape (dyn_block e) = block_shape (dyn_block d)" using assms(1) by (simp add: mid_def)
  then have "d_size (dyn_block e) = d_size (dyn_block d)" by (simp add: block_shape_def)
  then have "unat (d_size (dyn_block e)) = dyn_max e * dyn_entsize e" using assms(3) e by (simp add: dyn_max_def dyn_entsize_def)
  then show ?thesis using assms e f by (intro dyn_block_determined) (auto simp: mid_def)
qed

lemma sum_tags_kept:
  assumes "DT_CHECKSUM \<in> d_tag ` set T" and "info_DT_GNU_PRELINKED d \<noteq> 0 \<longrightarrow> DT_GNU_PRELINKED \<in> d_tag ` set T"
  shows "info_DT_GNU_PRELINKED d \<noteq> 0 \<longrightarrow> DT_GNU_PRELINKED \<in> d_tag ` set (dyn_put DT_CHECKSUM w T)"
    and "DT_CHECKSUM \<in> d_tag ` set (put_prelinked d v (dyn_put DT_CHECKSUM w T))"
    and "info_DT_GNU_PRELINKED d \<noteq> 0 \<longrightarrow> DT_GNU_PRELINKED \<in> d_tag ` set (put_prelinked d v (dyn_put DT_CHECKSUM w T))"
proof -
  have c: "map d_tag (dyn_put DT_CHECKSUM w T) = map d_tag T" by (rule dyn_put_keeps_tags [OF assms(1)])
  show p: "info_DT_GNU_PRELINKED d \<noteq> 0 \<longrightarrow> DT_GNU_PRELINKED \<in> d_tag ` set (dyn_put DT_CHECKSUM w T)"
    using assms(2) by (simp add: in_tags_map c del: set_map)
  show "DT_CHECKSUM \<in> d_tag ` set (put_prelinked d v (dyn_put DT_CHECKSUM w T))"
    "info_DT_GNU_PRELINKED d \<noteq> 0 \<longrightarrow> DT_GNU_PRELINKED \<in> d_tag ` set (put_prelinked d v (dyn_put DT_CHECKSUM w T))"
    using assms by (simp_all add: in_tags_map put_prelinked_keeps [OF p] c del: set_map)
qed

text \<open>A call on an object that has the checksum already.\<close>

lemma sum_again:
  assumes inv: "\<And>b. xtom (xtof b) = b" and r: "sum_ready fin allow A d" and db: "mid d db" "dyn_slots db = T @ R"
    and tags: "DT_CHECKSUM \<in> d_tag ` set T" "info_DT_GNU_PRELINKED d \<noteq> 0 \<longrightarrow> DT_GNU_PRELINKED \<in> d_tag ` set T"
    and zero: "dyn_put DT_CHECKSUM 0 T = T" "put_prelinked d 0 T = T"
    and bs: "loaded_bytes xtof db = Some bs"
    and U: "U = put_prelinked d (info_DT_GNU_PRELINKED d) (dyn_put DT_CHECKSUM (ucast (crc32 0 bs)) T)"
    and e: "mid d e" "dyn_slots e = U @ R" "dyn_table e = U"
  shows "\<exists>e'. prelink_set_checksum xtof xtom fin dt_num allow A e = Some (0, e')
    \<and> info_DT_CHECKSUM e' = ucast (crc32 0 bs) \<and> dyn_table e' = U"
proof -
  let ?C = DT_CHECKSUM and ?P = DT_GNU_PRELINKED and ?p = "info_DT_GNU_PRELINKED d"
  have rr: "unat (d_size (dyn_block d)) = dyn_max d * dyn_entsize d"
      "ei_class (ehdr d) = ELFCLASS32 \<longrightarrow> unat ?p < 2 ^ 32" using r by (simp_all add: sum_ready_def)
  note tags' = sum_tags_kept [OF tags, where w = "ucast (crc32 0 bs)"]
  note tagsU = tags'(2,3) [where v = ?p, folded U]
  obtain ra where ra: "set_dynamic dt_num e (ucast ?C) 0 = Some (0, ra)" "mid d ra" "dyn_table ra = dyn_put ?C 0 U"
      "dyn_slots ra = dyn_put ?C 0 U @ R"
    using mid_checksum(2) [OF e(1), of dt_num 0] tagsU(1) e by (auto simp: dyn_put_append)
  have again: "put_prelinked d 0 (dyn_put ?C 0 U) = T" unfolding U by (rule put_sums [OF tags zero])
  obtain rb where rb: "set_prelinked dt_num ra 0 = Some (0, rb)" "mid d rb" "dyn_table rb = T" "dyn_slots rb = T @ R"
    using mid_prelinked(2) [OF ra(2), of 0 dt_num] ra(3,4) sum_tags_kept(1) [OF tagsU, of 0] again by (auto simp: put_prelinked_append)
  have same: "loaded_bytes xtof rb = Some bs"
    using loaded_bytes_same [OF rb(2) db(1)] mid_block [OF rb(2) db(1) rr(1)] rb(4) db(2) bs by simp
  obtain rc where rc: "set_dynamic dt_num rb (ucast ?C) (ucast (crc32 0 bs)) = Some (0, rc)" "mid d rc"
      "dyn_table rc = dyn_put ?C (ucast (crc32 0 bs)) T"
    using mid_checksum(2) [OF rb(2), of dt_num "crc32 0 bs"] tags(1) rb(3) by auto
  have pr: "info_DT_GNU_PRELINKED rc = ?p" using rc(2) but_dynamic_fields by (auto simp: mid_def)
  obtain rd where rd: "set_prelinked dt_num rc ?p = Some (0, rd)" "dyn_table rd = U"
    using mid_prelinked(2) [OF rc(2) rr(2), of dt_num] tags'(1) rc(3) by (auto simp: U)
  show ?thesis
    using sum_from [where xtom = xtom and xtof = xtof, OF inv r e(1) ra(1) rb(1)] same rc(1) rd by (simp add: pr)
qed

lemma dyn_put_other: "e \<in> set ys \<Longrightarrow> d_tag e \<noteq> t \<Longrightarrow> e \<in> set (dyn_put t v ys)"
  by (induction ys) auto


lemma settle_symtabs_none:
  "\<forall>j < n. i + j < length (shdr d) \<and> sh_type (shdr d ! (i + j)) \<noteq> SHT_SYMTAB \<and> sh_type (shdr d ! (i + j)) \<noteq> SHT_DYNSYM \<Longrightarrow>
   settle_symtabs i n d = Some d"
proof (induction n arbitrary: i)
  case (Suc n)
  have "settle_symtabs (Suc i) n d = Some d" by (rule Suc.IH) (use Suc.prems in force)
  moreover have "i < length (shdr d)" "sh_type (shdr d ! i) \<noteq> SHT_SYMTAB" "sh_type (shdr d ! i) \<noteq> SHT_DYNSYM" using Suc.prems by force+
  ultimately show ?case by (simp add: nth_opt_def)
qed simp

text \<open>When the byte orders agree, the bytes of the blocks are there.\<close>

definition blocks_ok :: "elf_scn \<Rightarrow> bool" where
  "blocks_ok sc \<longleftrightarrow> list_all (\<lambda>b. wf_block b \<and> d_buf b \<noteq> None) (scn_data sc)"

lemma bytes_of_sections_total: "\<forall>x \<in> set xs. blocks_ok (snd x) \<Longrightarrow> \<exists>bs. bytes_of_sections xtof False xs = Some bs"
proof (induction xs)
  case (Cons x xs)
  have blk: "\<exists>bs. bytes_of_blocks xtof False bl = Some bs" if "list_all (\<lambda>b. wf_block b \<and> d_buf b \<noteq> None) bl" for bl
    using that by (induction bl) (auto simp: block_bytes_def wf_block_def guard_opt_def)
  obtain sh sc where x: "x = (sh, sc)" by (cases x)
  have "list_all (\<lambda>b. wf_block b \<and> d_buf b \<noteq> None) (scn_data sc)" using Cons.prems by (auto simp: x blocks_ok_def)
  from blk [OF this] obtain y where "bytes_of_blocks xtof False (scn_data sc) = Some y" ..
  moreover obtain z where "bytes_of_sections xtof False xs = Some z" using Cons by auto
  ultimately show ?case by (simp add: x)
qed simp

lemma loaded_bytes_total:
  assumes "mid d e" and "\<not> needs_cvt d" and "list_all blocks_ok (scn d)"
  shows "\<exists>bs. loaded_bytes xtof e = Some bs"
proof -
  have be: "but_dynamic d e" and ok: "dyn_ok e" using assms(1) by (simp_all add: mid_def)
  note f = but_dynamic_fields [OF be]
  have "blocks_ok (scn e ! i)" if "i < length (scn e)" for i
  proof (cases "i = dynamic d")
    case True
    have "scn_data (scn e ! dynamic d) = [dyn_block e]" using ok f(3) by (auto simp: dyn_ok_def dyn_block_def length_Suc_conv)
    then show ?thesis using True ok by (auto simp: blocks_ok_def dyn_ok_def)
  next
    case False
    then show ?thesis using be assms(3) that f(6) by (simp add: but_dynamic_def list_all_length)
  qed
  then have "\<forall>x \<in> set (zip (shdr e) (scn e)). blocks_ok (snd x)" by (auto simp: set_zip)
  then have "\<forall>x \<in> set (drop 1 (take n (zip (shdr e) (scn e)))). blocks_ok (snd x)" for n by (meson in_set_dropD in_set_takeD)
  then show ?thesis using bytes_of_sections_total assms(2) f by (simp add: loaded_bytes_def needs_cvt_def)
qed

text \<open>For the witness: a conversion that reverses the bytes, and the sample object with a checksum entry.\<close>

definition sample_xlate :: "elf_data \<Rightarrow> elf_data" where
  "sample_xlate b = b\<lparr>d_buf := map_option rev (d_buf b)\<rparr>"

lemma sample_xlate_inv: "sample_xlate (sample_xlate b) = b"
  by (cases b) (simp add: sample_xlate_def option.map_comp comp_def option.map_ident)

definition sample_sum_dso :: dso where
  "sample_sum_dso = sample_tags_dso\<lparr>shdr := (shdr sample_tags_dso)[4 := (shdr sample_tags_dso ! 4)\<lparr>sh_offset := 0x3000\<rparr>]\<rparr>"

lemma sample_sum_dyn: "dyn_ok sample_sum_dso" "map d_tag (dyn_slots sample_sum_dso) = [3, DT_CHECKSUM, 0]" "dyn_max sample_sum_dso = 3"
proof -
  have b: "dyn_block sample_sum_dso = dyn_block sample_tags_dso" "dyn_entsize sample_sum_dso = dyn_entsize sample_tags_dso"
      "dyn_max sample_sum_dso = dyn_max sample_tags_dso" "dynamic sample_sum_dso = 3"
    by (simp_all add: sample_sum_dso_def dyn_block_def dyn_entsize_def dyn_max_def sample_tags_dso_def sample_dyn_dso_def sample_defs)
  have "dyn_slots sample_sum_dso = dyn_slots sample_tags_dso" by (simp add: dyn_slots_def b(3)) (simp add: sample_sum_dso_def dso_getdyn_def block_at_def)
  then show "map d_tag (dyn_slots sample_sum_dso) = [3, DT_CHECKSUM, 0]" using sample_tags_ok(2) by simp
  have "length (dyn_slots sample_tags_dso) = 3" using sample_tags_ok(2) by (metis length_map list.size(3,4) One_nat_def add.commute numeral_3_eq_3 plus_1_eq_Suc)
  then show "dyn_max sample_sum_dso = 3" by (simp add: b(3) dyn_slots_def)
  show "dyn_ok sample_sum_dso"
    by (simp add: dyn_ok_def dyn_entsize_def dyn_block_def wf_block_def sample_sum_dso_def sample_tags_dso_def sample_dyn_dso_def
        sample_dyn_block_def sample_defs elf_consts)
qed

lemma sample_sum_table: "map d_tag (dyn_table sample_sum_dso) = [3, DT_CHECKSUM]"
proof -
  have "map d_tag (takeWhile (\<lambda>e. d_tag e \<noteq> DT_NULL) xs) = takeWhile (\<lambda>t. t \<noteq> DT_NULL) (map d_tag xs)" for xs :: "elf_dyn list"
    by (induction xs) simp_all
  then show ?thesis by (simp add: dyn_table_def sample_sum_dyn(2) dt_defs)
qed

lemma sample_sum_ready: "sum_ready (\<lambda>d. Some (0, d)) True A sample_sum_dso"
proof -
  let ?d = sample_sum_dso
  have h: "shdr ?d = [sample_shdr 0 0 0 0 0, sample_shdr 1 1 6 0x400 64, sample_shdr 6 1 3 0x1000 64,
      (sample_shdr 15 6 3 0x2000 48)\<lparr>sh_entsize := 16\<rparr>, (sample_shdr 0 3 0 0 24)\<lparr>sh_offset := 0x3000\<rparr>]" "e_shnum (ehdr ?d) = 5" "length (scn ?d) = 5"
    by (simp_all add: sample_sum_dso_def sample_tags_dso_def sample_dyn_dso_def sample_defs)
  have "prepare_write_dso (\<lambda>d. Some (0, d)) True A e = Some (0, e)" if "but_dynamic ?d e" for e
  proof -
    note f = but_dynamic_fields [OF that]
    have "settle_symtabs 0 5 e = Some e"
    proof (rule settle_symtabs_none, intro allI impI)
      fix j :: nat assume "j < 5"
      then have "j \<in> {0, 1, 2, 3, 4}" by auto
      then show "0 + j < length (shdr e) \<and> sh_type (shdr e ! (0 + j)) \<noteq> SHT_SYMTAB \<and> sh_type (shdr e ! (0 + j)) \<noteq> SHT_DYNSYM"
        by (auto simp: f h sample_shdr_def elf_consts)
    qed
    moreover have "check_dso True A e = Some 0"
      by (simp add: check_dso_def f h dso_has_bad_textrel_def sample_shdr_def RELOCATE_SCN_def elf_consts)
    ultimately show ?thesis by (simp add: prepare_write_dso_def f h)
  qed
  moreover have "unat (d_size (dyn_block ?d)) = dyn_max ?d * dyn_entsize ?d" "ei_class (ehdr ?d) \<noteq> ELFCLASS32"
    unfolding sample_sum_dyn(3)
    by (simp_all add: dyn_block_def dyn_entsize_def sample_sum_dso_def sample_tags_dso_def sample_dyn_dso_def sample_dyn_block_def sample_defs elf_consts)
  moreover have "length (dyn_table ?d) = 2" using sample_sum_table by (metis length_map length_Cons list.size(3) One_nat_def numeral_2_eq_2)
  ultimately show ?thesis using sample_sum_dyn h by (simp add: sum_ready_def)
qed


end
