(* ===== verification/Spec2Isabelle.thy ===== *)
theory Spec2Isabelle
  imports DataProps ArchX86_64 ArchI386 ArchARM HashProps LayoutProps Crc32 SecMove RelocProps Checksum
begin

text \<open>
  Verification of prelink, the program that assigns each shared library of a system its own range of addresses,
  stores the results of dynamic linking in the libraries and executables, and can undo all of it.

  \<^bold>\<open>The program and how its parts interact.\<close> \<^verbatim>\<open>src/gather.c\<close> collects the objects of the system and
  \<^verbatim>\<open>src/layout.c\<close> places every library in the address space. For each object \<^verbatim>\<open>src/prelink.c\<close> then moves the
  object to its place (\<^verbatim>\<open>relocate_dso\<close> and \<^verbatim>\<open>adjust_dso\<close> of \<^verbatim>\<open>src/dso.c\<close>), applies its relocations (the passes
  \<^verbatim>\<open>prelink_rel\<close> and \<^verbatim>\<open>prelink_rela\<close>), records what differs in the context of an executable as conflicts
  (\<^verbatim>\<open>src/conflict.c\<close>), and stores a checksum (\<^verbatim>\<open>src/checksum.c\<close> with \<^verbatim>\<open>src/crc32.c\<close>) in the dynamic section.
  \<^verbatim>\<open>src/undo.c\<close> takes the relocations back. All passes call the handlers of the target through \<^verbatim>\<open>struct PLArch\<close>
  (\<^verbatim>\<open>src/arch-*.c\<close>), which read and write the image by address with the accessors of \<^verbatim>\<open>src/data.c\<close> and the entries
  of relocation, symbol and dynamic sections with \<^verbatim>\<open>gelf/gelf.c\<close>.

  \<^bold>\<open>The theories.\<close>
  \<^item> \<open>Prelude\<close>: abbreviations of the word types, options, lists and words.
  \<^item> \<open>DataBuf\<close>, \<open>ElfData\<close>, \<open>Sample\<close>, \<open>DataProps\<close> (\<^verbatim>\<open>src/data.c\<close>, the structures of \<^verbatim>\<open>src/prelink.h\<close>,
    \<^verbatim>\<open>addr_to_sec\<close>): the object is the record \<open>dso\<close>; the accessors of a width and byte order are interpretations of the
    locales \<open>buf_codec\<close> and \<open>mem_cell\<close>. A write is read back, changes no other cell and no header; the cache of
    \<^verbatim>\<open>addr_to_sec\<close> cannot be observed; the iterator stays inside its blocks.
  \<^item> \<open>RelocInfo\<close> (\<^verbatim>\<open>src/reloc-info.c\<close>): packing and unpacking of relocation types and symbols, MIPS64 included.
  \<^item> \<open>Conflict\<close> (\<^verbatim>\<open>src/conflict.c\<close>): lookup in the table of conflicts and the growing array of conflict relocations.
  \<^item> \<open>Arch\<close>, \<open>ArchLib\<close>: \<^verbatim>\<open>struct PLArch\<close> as a record of handlers, and what the handlers of a target may change;
    the locale \<open>conflict_target\<close> is the contract between recording and replaying a conflict, \<open>word_cell\<close> what resetting
    the GOT asks of the accessors of a target.
  \<^item> \<open>Gelf\<close> (\<^verbatim>\<open>gelf/gelf.c\<close>): the arrays of entries, by interpretation of the locale \<open>entry_table\<close>.
  \<^item> \<open>Passes\<close>: the loops of \<^verbatim>\<open>prelink_rel\<close>, \<^verbatim>\<open>prelink_rela\<close>, their undo, adjusting and conflict variants; under the
    locale \<open>rela_target\<close> a pass changes nothing outside the cells of its relocations.
  \<^item> \<open>ArchX86_64\<close>, \<open>ArchI386\<close>, \<open>ArchARM\<close>: three targets. Undoing after prelinking is undoing on the original object;
    applying a relocation to a buffer and to the object agree; a recorded conflict replays to what applying the
    relocation in the context gives; converting i386 and ARM relocations to RELA and back gives the original; an ARM
    branch is filled in only when its target is in reach.
  \<^item> \<open>Dynamic\<close> (\<^verbatim>\<open>src/dso.c\<close>): the dynamic section as a list of tagged values, which \<^verbatim>\<open>set_dynamic\<close> updates and
    \<^verbatim>\<open>read_dynamic\<close> reads; adjusting of dynamic entries and symbols.
  \<^item> \<open>DsoAdjust\<close> (\<^verbatim>\<open>src/dso.c\<close>, \<^verbatim>\<open>src/stabs.c\<close>): moving an object; the record of the moves and the translation of
    addresses through it; file offsets of the sections that are not loaded.
  \<^item> \<open>SecMove\<close> (\<^verbatim>\<open>src/dso.c\<close>, \<^verbatim>\<open>src/undo.c\<close>): adding and removing sections, where the maps between old and new
    numbers stay inverse (rule induction over \<open>moves\<close>); section numbers in symbols; the section name table; removing
    the tags of prelink from the dynamic section.
  \<^item> \<open>Reloc\<close>, \<open>RelocProps\<close> (\<^verbatim>\<open>src/reloc.c\<close>): finding the relocation sections, converting them between REL and RELA, and
    bringing the dynamic section up to date, which is shown to be a map over its entries whose result
    \<^verbatim>\<open>read_dynamic\<close> reports; the locale \<open>entry_converter\<close> is what the conversion loop asks of a target.
  \<^item> \<open>Checksum\<close> (\<^verbatim>\<open>src/checksum.c\<close>, \<^verbatim>\<open>prepare_write_dso\<close>): the checksum of an object, composed of \<open>Dynamic\<close>, \<open>SecMove\<close> and
    \<open>Crc32\<close>; it does not depend on itself, so that it can be verified.
  \<^item> \<open>HashTab\<close>, \<open>HashProps\<close> (\<^verbatim>\<open>src/hashtab.c\<close>): open addressing with double hashing refines a finite set, by
    the locale \<open>hash_ops\<close>; the table sizes are prime, so that every probe sequence reaches every slot and ends.
  \<^item> \<open>Layout\<close>, \<open>LayoutProps\<close> (\<^verbatim>\<open>src/layout.c\<close>): the placement of the libraries; libraries that are used together get
    disjoint ranges, a library stays without a place only when there is no gap for it, and the removal of overlaps
    ends with none; the locale \<open>qsort_cmp\<close> is what \<^verbatim>\<open>qsort\<close> asks of a comparison.
  \<^item> \<open>Crc32\<close> (\<^verbatim>\<open>src/crc32.c\<close>, \<^verbatim>\<open>src/makecrc.c\<close>): the table is the one \<^verbatim>\<open>makecrc\<close> prints, and the byte-wise checksum is
    the bit-wise division.

  \<^bold>\<open>Conventions.\<close> A C function becomes a function of the objects it can reach to its result and the changed objects.
  The value \<^term>\<open>None\<close> stands for undefined behaviour and failed assertions: an access outside a buffer, a null
  pointer, a division by zero, an uninitialised variable. Error returns of the C code are values of the result,
  with the object as far as it was changed. Messages are not modelled. Integers have the width of the C types.
  A section of libelf is the list of its data descriptors with a dirty flag. Memory is never exhausted, except where
  a definition has an argument for it.

  \<^bold>\<open>Bounds and fuel.\<close> The loops of the C code that count are recursions over lists or numbers; the others are
  \<^theory_text>\<open>function\<close> or \<^theory_text>\<open>partial_function\<close> definitions with a proof that they end: the probe loops of the hash
  table (theorem \<open>htab_find_refines\<close>) and the removal of overlaps (\<open>clear_overlaps_disjoint\<close>). No fuel is used.
  \<^verbatim>\<open>DT_NUM\<close> is an argument, at most 50 in the theorem that needs a bound, where the C code stores the tags in a
  mask with 50 bits for them.

  \<^bold>\<open>Not modelled.\<close> Files, directories, processes and the cache (\<^verbatim>\<open>gather.c\<close>, \<^verbatim>\<open>get.c\<close>, \<^verbatim>\<open>cache.c\<close>, \<^verbatim>\<open>doit.c\<close>,
  \<^verbatim>\<open>main.c\<close>, \<^verbatim>\<open>verify.c\<close>, \<^verbatim>\<open>undoall.c\<close>, \<^verbatim>\<open>canonicalize.c\<close>), which are input and output around the parts above; the
  other targets, which have the same interface; debugging information (\<^verbatim>\<open>dwarf2.c\<close>, \<^verbatim>\<open>mdebug.c\<close>), whose
  entry points are arguments of \<open>adjust_dso\<close>; the rebuilding of section tables (\<^verbatim>\<open>exec.c\<close>, \<^verbatim>\<open>space.c\<close>,
  \<^verbatim>\<open>prelink_prepare\<close>, \<^verbatim>\<open>undo_sections\<close>, \<^verbatim>\<open>reopen_dso\<close>), \<^verbatim>\<open>cxx.c\<close> and the exec-shield layout of
  i386, which are to follow; \<^verbatim>\<open>md5.c\<close> and \<^verbatim>\<open>sha.c\<close>, which are taken from other projects.
\<close>

end
